(* ===== verification/Sof_Prelude.thy ===== *)
theory Sof_Prelude
  imports Main "HOL-Library.Monad_Syntax" "HOL-Library.Signed_Division"
begin

text \<open>
  Shared vocabulary of the development.

  C integers are modelled as mathematical integers together with the conversion that the C
  type performs when a value is stored: \<open>u16\<close>, \<open>u32\<close>, \<open>u64\<close> reduce modulo the width,
  \<open>s16\<close>, \<open>s32\<close>, \<open>s64\<close> reduce to the two's complement range. An expression of the source is
  evaluated over \<open>int\<close> and wrapped where the source stores or converts it. Signed overflow is
  undefined in C; the model gives it the two's complement value the firmware compilers produce,
  and the theorems state the ranges in which no wrap occurs.

  A computation that may not return (a call of \<open>panic()\<close>, a failed \<open>assert()\<close>, a loop that does
  not end) has an \<open>option\<close> result: \<open>None\<close> means that control never comes back to the caller.
  An errno-style return code of the source stays an \<open>int\<close> value of the model.

  The collections \<open>cint\<close>, \<open>sof_inv\<close> and \<open>sof_simps\<close> carry the component proofs.
\<close>

unbundle bit_operations_syntax

named_theorems cint \<open>values of the C integer conversions inside their range\<close>
named_theorems sof_inv \<open>operations keep the invariant of their component\<close>
named_theorems sof_simps \<open>unfolding rules for the small accessors of the model\<close>

section \<open>C integer conversions\<close>

definition u8 :: "int \<Rightarrow> int" where
  "u8 x = x mod 256"

definition u16 :: "int \<Rightarrow> int" where
  "u16 x = x mod 65536"

definition u32 :: "int \<Rightarrow> int" where
  "u32 x = x mod 4294967296"

definition u64 :: "int \<Rightarrow> int" where
  "u64 x = x mod 18446744073709551616"

definition s16 :: "int \<Rightarrow> int" where
  "s16 x = (x + 32768) mod 65536 - 32768"

definition s32 :: "int \<Rightarrow> int" where
  "s32 x = (x + 2147483648) mod 4294967296 - 2147483648"

definition s64 :: "int \<Rightarrow> int" where
  "s64 x = (x + 9223372036854775808) mod 18446744073709551616 - 9223372036854775808"

abbreviation is_u16 :: "int \<Rightarrow> bool" where
  "is_u16 x \<equiv> 0 \<le> x \<and> x < 65536"

abbreviation is_u32 :: "int \<Rightarrow> bool" where
  "is_u32 x \<equiv> 0 \<le> x \<and> x < 4294967296"

abbreviation is_s16 :: "int \<Rightarrow> bool" where
  "is_s16 x \<equiv> - 32768 \<le> x \<and> x < 32768"

abbreviation is_s32 :: "int \<Rightarrow> bool" where
  "is_s32 x \<equiv> - 2147483648 \<le> x \<and> x < 2147483648"

abbreviation is_s64 :: "int \<Rightarrow> bool" where
  "is_s64 x \<equiv> - 9223372036854775808 \<le> x \<and> x < 9223372036854775808"

lemma u8_id [cint]: "0 \<le> x \<Longrightarrow> x < 256 \<Longrightarrow> u8 x = x"
  by (simp add: u8_def)

lemma u16_id [cint]: "0 \<le> x \<Longrightarrow> x < 65536 \<Longrightarrow> u16 x = x"
  by (simp add: u16_def)

lemma u32_id [cint]: "0 \<le> x \<Longrightarrow> x < 4294967296 \<Longrightarrow> u32 x = x"
  by (simp add: u32_def)

lemma u64_id [cint]: "0 \<le> x \<Longrightarrow> x < 18446744073709551616 \<Longrightarrow> u64 x = x"
  by (simp add: u64_def)

lemma s16_id [cint]: "is_s16 x \<Longrightarrow> s16 x = x"
  by (simp add: s16_def)

lemma s32_id [cint]: "is_s32 x \<Longrightarrow> s32 x = x"
  by (simp add: s32_def)

lemma s64_id [cint]: "is_s64 x \<Longrightarrow> s64 x = x"
  by (simp add: s64_def)

lemma u16_range: "is_u16 (u16 x)"
  by (simp add: u16_def)

lemma u32_range: "is_u32 (u32 x)"
  by (simp add: u32_def)

lemma s16_range: "is_s16 (s16 x)"
  using pos_mod_bound [of 65536 "x + 32768"] by (simp add: s16_def)

lemma s32_range: "is_s32 (s32 x)"
  using pos_mod_bound [of 4294967296 "x + 2147483648"] by (simp add: s32_def)

lemma u32_add_width: "u32 (x + 4294967296) = u32 x"
  by (simp add: u32_def)

lemma u32_wrap_once: "4294967296 \<le> x \<Longrightarrow> x < 8589934592 \<Longrightarrow> u32 x = x - 4294967296"
  using u32_add_width [of "x - 4294967296"] u32_id [of "x - 4294967296"] by simp

lemma u32_borrow: "- 4294967296 \<le> x \<Longrightarrow> x < 0 \<Longrightarrow> u32 x = x + 4294967296"
  using u32_add_width [of x] u32_id [of "x + 4294967296"] by simp

text \<open>The C type \<open>bool\<close> of a condition used as a number.\<close>

definition of_cond :: "bool \<Rightarrow> int" where
  "of_cond b = (if b then 1 else 0)"

section \<open>Errno values\<close>

definition EINVAL :: int where "EINVAL = 22"
definition ENOMEM :: int where "ENOMEM = 12"
definition EBUSY :: int where "EBUSY = 16"
definition ENODEV :: int where "ENODEV = 19"

lemmas errno_defs = EINVAL_def ENOMEM_def EBUSY_def ENODEV_def

section \<open>Results that may not return\<close>

text \<open>A run-time \<open>assert(cond)\<close>: the firmware panics when the condition fails.\<close>

definition c_assert :: "bool \<Rightarrow> unit option" where
  "c_assert b = (if b then Some () else None)"

lemma c_assert_True [simp]: "c_assert True = Some ()"
  by (simp add: c_assert_def)

lemma c_assert_False [simp]: "c_assert False = None"
  by (simp add: c_assert_def)

lemma c_assert_bind_Some [simp]:
  "Option.bind (c_assert b) f = Some y \<longleftrightarrow> b \<and> f () = Some y"
  by (simp add: c_assert_def)

section \<open>Shifts\<close>

lemma shr_nonneg: "0 \<le> (x :: int) \<Longrightarrow> 0 \<le> drop_bit n x"
  by simp

lemma shr_div: "drop_bit n (x :: int) = x div 2 ^ n"
  by (simp add: drop_bit_eq_div)

lemma shl_mult: "push_bit n (x :: int) = x * 2 ^ n"
  by (simp add: push_bit_eq_mult)

section \<open>Alignment\<close>

text \<open>\<open>ALIGN_UP\<close> of \<open>src/include/sof/common.h\<close> on 32-bit values.\<close>

definition ALIGN_UP :: "int \<Rightarrow> int \<Rightarrow> int" where
  "ALIGN_UP val align = u32 (val + align - 1) AND NOT (align - 1)"

lemma and_not_low_bits: "(x :: int) AND NOT (2 ^ k - 1) = x div 2 ^ k * 2 ^ k"
proof -
  have "x AND NOT (mask k) = push_bit k (drop_bit k x)"
    by (rule bit_eqI) (auto simp: bit_simps)
  then show ?thesis by (simp add: mask_eq_exp_minus_1 push_bit_eq_mult drop_bit_eq_div)
qed

lemma and_low_bits: "(x :: int) AND (2 ^ k - 1) = x mod 2 ^ k"
  by (simp add: mask_eq_exp_minus_1 [symmetric] take_bit_eq_mask [symmetric] take_bit_eq_mod)

lemma pow2_and_pred: "(2 ^ k :: int) AND (2 ^ k - 1) = 0"
  by (simp add: and_low_bits)

lemma align_up_eq:
  assumes "0 \<le> v" "v + 2 ^ k \<le> 4294967296"
  shows "ALIGN_UP v (2 ^ k) = (v + 2 ^ k - 1) div 2 ^ k * 2 ^ k"
proof -
  have "1 \<le> (2 :: int) ^ k" by simp
  then have "u32 (v + 2 ^ k - 1) = v + 2 ^ k - 1" using assms by (intro u32_id) linarith+
  then show ?thesis by (simp add: ALIGN_UP_def and_not_low_bits)
qed

lemma round_down_bounds: "0 < (d :: int) \<Longrightarrow> x - d < x div d * d \<and> x div d * d \<le> x"
  using div_mult_mod_eq [of x d] pos_mod_bound [of d x] pos_mod_sign [of d x] by linarith

lemma align_up_bounds:
  assumes "0 \<le> v" "v + 2 ^ k \<le> 4294967296"
  shows "v \<le> ALIGN_UP v (2 ^ k)" "ALIGN_UP v (2 ^ k) < v + 2 ^ k"
  using round_down_bounds [of "2 ^ k" "v + 2 ^ k - 1"] by (simp_all add: align_up_eq [OF assms])

lemma align_up_dvd:
  "0 \<le> v \<Longrightarrow> v + 2 ^ k \<le> 4294967296 \<Longrightarrow> 2 ^ k dvd ALIGN_UP v (2 ^ k)"
  by (simp add: align_up_eq)

lemma align_up_aligned:
  assumes "0 \<le> v" "v + 2 ^ k \<le> 4294967296" "2 ^ k dvd v"
  shows "ALIGN_UP v (2 ^ k) = v"
proof -
  from assms(3) obtain q where q: "v = 2 ^ k * q" by blast
  have "(2 ^ k - 1 + q * 2 ^ k) div 2 ^ k = q + (2 ^ k - 1) div 2 ^ k"
    by (rule div_mult_self1) simp
  then have "(v + 2 ^ k - 1) div 2 ^ k = q"
    by (simp add: q algebra_simps)
  then show ?thesis unfolding align_up_eq [OF assms(1,2)] by (simp add: q mult.commute)
qed

section \<open>Memory\<close>

text \<open>
  Byte memory as a function from addresses to byte values; \<open>memcpy\<close> and \<open>memset\<close> on ranges that
  do not overlap.
\<close>

type_synonym addr = int
type_synonym mem = "addr \<Rightarrow> int"

definition mem_copy :: "mem \<Rightarrow> addr \<Rightarrow> addr \<Rightarrow> int \<Rightarrow> mem" where
  "mem_copy m dst src n = (\<lambda>a. if dst \<le> a \<and> a < dst + n then m (src + (a - dst)) else m a)"

definition mem_set :: "mem \<Rightarrow> addr \<Rightarrow> int \<Rightarrow> int \<Rightarrow> mem" where
  "mem_set m dst v n = (\<lambda>a. if dst \<le> a \<and> a < dst + n then v else m a)"

lemma mem_copy_in: "dst \<le> a \<Longrightarrow> a < dst + n \<Longrightarrow> mem_copy m dst src n a = m (src + (a - dst))"
  by (simp add: mem_copy_def)

lemma mem_copy_out: "a < dst \<or> dst + n \<le> a \<Longrightarrow> mem_copy m dst src n a = m a"
  by (auto simp: mem_copy_def)

lemma mem_set_in: "dst \<le> a \<Longrightarrow> a < dst + n \<Longrightarrow> mem_set m dst v n a = v"
  by (simp add: mem_set_def)

lemma mem_set_out: "a < dst \<or> dst + n \<le> a \<Longrightarrow> mem_set m dst v n a = m a"
  by (auto simp: mem_set_def)

section \<open>Arrays updated in a loop\<close>

text \<open>\<open>for (i = a; i < b; i++) xs[i] = f(xs[i]);\<close>\<close>

abbreviation update_range :: "('a \<Rightarrow> 'a) \<Rightarrow> nat \<Rightarrow> nat \<Rightarrow> 'a list \<Rightarrow> 'a list" where
  "update_range f a b xs \<equiv> fold (\<lambda>i xs. xs[i := f (xs ! i)]) [a..<b] xs"

lemma length_update_range [simp]: "length (update_range f a b xs) = length xs"
  by (induction b) auto

lemma nth_update_range:
  "j < length xs \<Longrightarrow> update_range f a b xs ! j = (if a \<le> j \<and> j < b then f (xs ! j) else xs ! j)"
proof (induction b)
  case (Suc b)
  then show ?case by (cases "a \<le> b"; cases "j = b") (auto simp: nth_list_update)
qed simp

end
