(* ===== verification/Sof_Format.thy ===== *)
theory Sof_Format
  imports Sof_Prelude
begin

text \<open>
  Sample formats and fractional arithmetic: \<open>src/include/sof/audio/format.h\<close> and the generic
  saturation functions of \<open>format_generic.h\<close>. Frame formats keep their enum codes, because the
  firmware stores whatever 32-bit code the host sends. A right shift of a signed value is the
  arithmetic shift \<open>drop_bit\<close>.
\<close>

section \<open>Definitions\<close>

definition SOF_IPC_FRAME_S16_LE :: int where "SOF_IPC_FRAME_S16_LE = 0"
definition SOF_IPC_FRAME_S24_4LE :: int where "SOF_IPC_FRAME_S24_4LE = 1"
definition SOF_IPC_FRAME_S32_LE :: int where "SOF_IPC_FRAME_S32_LE = 2"
definition SOF_IPC_FRAME_FLOAT :: int where "SOF_IPC_FRAME_FLOAT = 3"
definition SOF_IPC_FRAME_S24_3LE :: int where "SOF_IPC_FRAME_S24_3LE = 4"

definition get_sample_bytes :: "int \<Rightarrow> int" where
  "get_sample_bytes fmt =
     (if fmt = SOF_IPC_FRAME_S16_LE then 2
      else if fmt = SOF_IPC_FRAME_S24_3LE then 3
      else 4)"

definition get_frame_bytes :: "int \<Rightarrow> int \<Rightarrow> int" where
  "get_frame_bytes fmt channels = u32 (get_sample_bytes fmt * channels)"

definition sat_int32 :: "int \<Rightarrow> int" where
  "sat_int32 x =
     (if x > 2147483647 then 2147483647
      else if x < - 2147483648 then - 2147483648
      else s32 x)"

definition sat_int24 :: "int \<Rightarrow> int" where
  "sat_int24 x =
     (if x > 8388607 then 8388607
      else if x < - 8388608 then - 8388608
      else x)"

definition sat_int16 :: "int \<Rightarrow> int" where
  "sat_int16 x =
     (if x > 32767 then 32767
      else if x < - 32768 then - 32768
      else s16 x)"

definition q_mults_32x32 :: "int \<Rightarrow> int \<Rightarrow> nat \<Rightarrow> int" where
  "q_mults_32x32 x y shift_bits = drop_bit shift_bits (s64 (x * y))"

definition q_multsr_32x32 :: "int \<Rightarrow> int \<Rightarrow> nat \<Rightarrow> int" where
  "q_multsr_32x32 x y shift_bits =
     drop_bit 1 (s64 (drop_bit (shift_bits - 1) (s64 (x * y)) + 1))"

definition q_mults_16x16 :: "int \<Rightarrow> int \<Rightarrow> nat \<Rightarrow> int" where
  "q_mults_16x16 x y shift_bits = drop_bit shift_bits (s32 (x * y))"

definition q_multsr_16x16 :: "int \<Rightarrow> int \<Rightarrow> nat \<Rightarrow> int" where
  "q_multsr_16x16 x y shift_bits =
     s16 (drop_bit 1 (s32 (drop_bit (shift_bits - 1) (s32 (x * y)) + 1)))"

definition q_multsr_sat_32x32 :: "int \<Rightarrow> int \<Rightarrow> nat \<Rightarrow> int" where
  "q_multsr_sat_32x32 x y shift_bits =
     sat_int32 (drop_bit 1 (s64 (drop_bit (shift_bits - 1) (s64 (x * y)) + 1)))"

text \<open>The parameter of \<open>sat_int24\<close> and \<open>sat_int16\<close> is an \<open>int32_t\<close>: the 64-bit product is
  truncated to 32 bits by the call before it is saturated.\<close>

definition q_multsr_sat_32x32_24 :: "int \<Rightarrow> int \<Rightarrow> nat \<Rightarrow> int" where
  "q_multsr_sat_32x32_24 x y shift_bits =
     sat_int24 (s32 (drop_bit 1 (s64 (drop_bit (shift_bits - 1) (s64 (x * y)) + 1))))"

definition q_multsr_sat_32x32_16 :: "int \<Rightarrow> int \<Rightarrow> nat \<Rightarrow> int" where
  "q_multsr_sat_32x32_16 x y shift_bits =
     sat_int16 (s32 (drop_bit 1 (s64 (drop_bit (shift_bits - 1) (s64 (x * y)) + 1))))"

definition q_multsr_sat_16x16 :: "int \<Rightarrow> int \<Rightarrow> nat \<Rightarrow> int" where
  "q_multsr_sat_16x16 x y shift_bits =
     sat_int16 (drop_bit 1 (s32 (drop_bit (shift_bits - 1) (s32 (x * y)) + 1)))"

definition sign_extend_s24 :: "int \<Rightarrow> int" where
  "sign_extend_s24 x = drop_bit 8 (s32 (push_bit 8 x))"

text \<open>The macro takes the two fractional positions; the shifts are arithmetic.\<close>

definition Q_SHIFT_RND :: "int \<Rightarrow> nat \<Rightarrow> nat \<Rightarrow> int" where
  "Q_SHIFT_RND x src_q dst_q = drop_bit 1 (drop_bit (src_q - dst_q - 1) x + 1)"

text \<open>Reference rounding: the nearest multiple of \<open>2 ^ n\<close>, halves rounded up.\<close>

definition round_shift :: "int \<Rightarrow> nat \<Rightarrow> int" where
  "round_shift p n = (p + 2 ^ (n - 1)) div 2 ^ n"

definition clamp :: "int \<Rightarrow> int \<Rightarrow> int \<Rightarrow> int" where
  "clamp lo hi x = max lo (min hi x)"

section \<open>Sizes\<close>

lemma get_sample_bytes_bounds: "2 \<le> get_sample_bytes fmt" "get_sample_bytes fmt \<le> 4"
  by (simp_all add: get_sample_bytes_def)

lemma get_frame_bytes_exact:
  "0 \<le> channels \<Longrightarrow> channels < 65536 \<Longrightarrow>
   get_frame_bytes fmt channels = get_sample_bytes fmt * channels"
  by (auto simp: get_frame_bytes_def get_sample_bytes_def u32_id)

section \<open>Saturation\<close>

lemma sat_int32_clamp: "sat_int32 x = clamp (- 2147483648) 2147483647 x"
  by (auto simp: sat_int32_def clamp_def s32_id)

lemma sat_int24_clamp: "sat_int24 x = clamp (- 8388608) 8388607 x"
  by (auto simp: sat_int24_def clamp_def)

lemma sat_int16_clamp: "sat_int16 x = clamp (- 32768) 32767 x"
  by (auto simp: sat_int16_def clamp_def s16_id)

section \<open>Products of 32-bit values\<close>

lemma prod_s32_bounds:
  assumes "is_s32 x" and "is_s32 y"
  shows "\<bar>x * y\<bar> \<le> 4611686018427387904"
proof -
  have "\<bar>x\<bar> * \<bar>y\<bar> \<le> 2147483648 * 2147483648"
    using assms by (intro mult_mono) auto
  then show ?thesis by (simp add: abs_mult)
qed

lemma drop_bit_abs_le: "\<bar>drop_bit n (p :: int)\<bar> \<le> \<bar>p\<bar>"
proof (cases "0 \<le> p")
  case True
  then show ?thesis
    by (cases "p = 0") (simp_all add: drop_bit_eq_div int_div_le_self pos_imp_zdiv_nonneg_iff)
next
  case False
  then have "p \<le> p div 2 ^ n"
    using zdiv_mono2_neg [of p 1 "2 ^ n"] by (simp add: one_le_power)
  moreover have "p div 2 ^ n \<le> 0"
    using False by (simp add: div_nonpos_pos_le0)
  ultimately show ?thesis by (simp add: drop_bit_eq_div)
qed

lemma round_shift_steps: "drop_bit 1 (drop_bit m p + 1) = round_shift p (Suc m)" for p :: int
proof -
  have "drop_bit 1 (drop_bit m p + 1) = (p div 2 ^ m + 1) div 2"
    by (simp add: drop_bit_eq_div)
  also have "\<dots> = ((p + 2 ^ m) div 2 ^ m) div 2"
    by (subst div_add_self2) simp_all
  also have "\<dots> = (p + 2 ^ m) div (2 ^ m * 2)"
    by (rule zdiv_zmult2_eq [symmetric]) simp
  finally show ?thesis by (simp add: round_shift_def mult.commute)
qed

lemma Q_SHIFT_RND_round: "dst_q < src_q \<Longrightarrow> Q_SHIFT_RND x src_q dst_q = round_shift x (src_q - dst_q)"
  using round_shift_steps [of "src_q - dst_q - 1" x] by (simp add: Q_SHIFT_RND_def Suc_diff_Suc)

lemma mult_round_64:
  assumes "is_s32 x" "is_s32 y" "0 < n"
  shows "drop_bit 1 (s64 (drop_bit (n - 1) (s64 (x * y)) + 1)) = round_shift (x * y) n"
proof -
  obtain m where n: "n = Suc m" using assms(3) by (cases n) auto
  have p: "\<bar>x * y\<bar> \<le> 4611686018427387904" by (rule prod_s32_bounds [OF assms(1,2)])
  then have a: "s64 (x * y) = x * y" by (intro s64_id) linarith
  have "\<bar>drop_bit m (x * y)\<bar> \<le> 4611686018427387904"
    using drop_bit_abs_le [of m "x * y"] p by linarith
  then have b: "s64 (drop_bit m (x * y) + 1) = drop_bit m (x * y) + 1"
    by (intro s64_id) linarith
  show ?thesis using round_shift_steps [of m "x * y"] by (simp add: n a b)
qed

lemma mult_round_32:
  assumes "is_s16 x" "is_s16 y" "0 < n"
  shows "drop_bit 1 (s32 (drop_bit (n - 1) (s32 (x * y)) + 1)) = round_shift (x * y) n"
proof -
  obtain m where n: "n = Suc m" using assms(3) by (cases n) auto
  have "\<bar>x\<bar> * \<bar>y\<bar> \<le> 32768 * 32768"
    using assms(1,2) by (intro mult_mono) auto
  then have p: "\<bar>x * y\<bar> \<le> 1073741824" by (simp add: abs_mult)
  then have a: "s32 (x * y) = x * y" by (intro s32_id) linarith
  have "\<bar>drop_bit m (x * y)\<bar> \<le> 1073741824"
    using drop_bit_abs_le [of m "x * y"] p by linarith
  then have b: "s32 (drop_bit m (x * y) + 1) = drop_bit m (x * y) + 1"
    by (intro s32_id) linarith
  show ?thesis using round_shift_steps [of m "x * y"] by (simp add: n a b)
qed

text \<open>
  The saturating products: the exact product, rounded to the nearest output step, clamped to
  the output range.
\<close>

lemma q_multsr_sat_32x32_round:
  "is_s32 x \<Longrightarrow> is_s32 y \<Longrightarrow> 0 < n \<Longrightarrow>
   q_multsr_sat_32x32 x y n = clamp (- 2147483648) 2147483647 (round_shift (x * y) n)"
  by (simp add: q_multsr_sat_32x32_def mult_round_64 [simplified] sat_int32_clamp)

lemma q_multsr_sat_16x16_round:
  "is_s16 x \<Longrightarrow> is_s16 y \<Longrightarrow> 0 < n \<Longrightarrow>
   q_multsr_sat_16x16 x y n = clamp (- 32768) 32767 (round_shift (x * y) n)"
  by (simp add: q_multsr_sat_16x16_def mult_round_32 [simplified] sat_int16_clamp)

lemma q_multsr_sat_32x32_24_round:
  "is_s32 x \<Longrightarrow> is_s32 y \<Longrightarrow> 0 < n \<Longrightarrow> is_s32 (round_shift (x * y) n) \<Longrightarrow>
   q_multsr_sat_32x32_24 x y n = clamp (- 8388608) 8388607 (round_shift (x * y) n)"
  by (simp add: q_multsr_sat_32x32_24_def mult_round_64 [simplified] sat_int24_clamp s32_id)

lemma q_multsr_sat_32x32_16_round:
  "is_s32 x \<Longrightarrow> is_s32 y \<Longrightarrow> 0 < n \<Longrightarrow> is_s32 (round_shift (x * y) n) \<Longrightarrow>
   q_multsr_sat_32x32_16 x y n = clamp (- 32768) 32767 (round_shift (x * y) n)"
  by (simp add: q_multsr_sat_32x32_16_def mult_round_64 [simplified] sat_int16_clamp s32_id)

text \<open>
  Rounding is to the nearest: the result is within half a step of the exact quotient.
\<close>

lemma round_shift_nearest:
  assumes "0 < n"
  shows "\<bar>2 * (round_shift p n * 2 ^ n - p)\<bar> \<le> 2 ^ n"
proof -
  obtain m where n: "n = Suc m" using assms by (cases n) auto
  let ?q = "p + 2 ^ m" and ?d = "2 ^ n :: int"
  have d: "?d = 2 * 2 ^ m" by (simp add: n)
  have r: "round_shift p n = ?q div ?d" by (simp add: round_shift_def n)
  have near: "\<bar>2 * (t - p)\<bar> \<le> D" if "t + e = p + k" "0 \<le> e" "e < D" "D = 2 * k" for t e k D :: int
    using that by (auto simp: abs_le_iff)
  show ?thesis
    unfolding r by (rule near [OF div_mult_mod_eq [of ?q ?d] _ _ d]) simp_all
qed

section \<open>Sign extension\<close>

text \<open>A 24-bit sample in the low bits of a word: the upper byte is ignored.\<close>

lemma sign_extend_s24_value:
  "sign_extend_s24 x = (x + 8388608) mod 16777216 - 8388608"
proof -
  have "(256 * (x + 8388608)) mod (256 * 16777216) = 256 * ((x + 8388608) mod 16777216)"
    by (rule mult_mod_right [symmetric])
  then have "(x * 256 + 2147483648) mod 4294967296 = 256 * ((x + 8388608) mod 16777216)"
    by (simp add: algebra_simps)
  then show ?thesis
    by (simp add: sign_extend_s24_def drop_bit_eq_div push_bit_eq_mult s32_def)
qed

lemma sign_extend_s24_id: "- 8388608 \<le> x \<Longrightarrow> x < 8388608 \<Longrightarrow> sign_extend_s24 x = x"
  by (simp add: sign_extend_s24_value)

section \<open>Properties\<close>

text \<open>
  C20: the saturating 32-bit fractional multiply rounds to the nearest: with any shift from 1 on the
  result is the exact quotient rounded within half a step and clamped to the 32-bit range; no
  intermediate 64-bit value overflows.
\<close>

theorem q_multsr_sat_32x32_nearest:
  assumes "is_s32 x" "is_s32 y" "0 < n"
  shows "\<exists>r. q_multsr_sat_32x32 x y n = clamp (- 2147483648) 2147483647 r \<and>
    \<bar>2 * (r * 2 ^ n - x * y)\<bar> \<le> 2 ^ n"
  using q_multsr_sat_32x32_round [OF assms] round_shift_nearest [OF assms(3)] by blast

theorem q_multsr_sat_32x32_nearest_witness:
  "\<exists>r. q_multsr_sat_32x32 (- 2147483648) 2147483647 31 = clamp (- 2147483648) 2147483647 r \<and>
    \<bar>2 * (r * 2 ^ 31 - (- 2147483648) * 2147483647)\<bar> \<le> 2 ^ 31"
  using q_multsr_sat_32x32_nearest [of "- 2147483648" 2147483647 31] by simp

end
