(* ===== verification/Sof_Fifo.thy ===== *)
theory Sof_Fifo
  imports Sof_Prelude
begin

text \<open>
  The contract between a byte stream and the components on its two ends, as a locale: a
  bounded counter of bytes that \<open>put\<close> raises and \<open>get\<close> lowers. A client that stays inside the
  space and the data the stream reports is never refused, the level is the sum of what was
  written less what was read, and the capacity does not change. The audio stream of a component
  buffer is an instance (theory \<open>Sof_Buffer\<close>).
\<close>

datatype xfer = Produce int | Consume int

text \<open>What a sequence of transfers adds to the level, and whether each step stays in bounds.\<close>

fun net :: "xfer list \<Rightarrow> int" where
  "net [] = 0"
| "net (Produce n # ts) = n + net ts"
| "net (Consume n # ts) = net ts - n"

fun admissible :: "int \<Rightarrow> int \<Rightarrow> xfer list \<Rightarrow> bool" where
  "admissible cap lvl [] = True"
| "admissible cap lvl (Produce n # ts) =
     (0 \<le> n \<and> lvl + n \<le> cap \<and> admissible cap (lvl + n) ts)"
| "admissible cap lvl (Consume n # ts) =
     (0 \<le> n \<and> n \<le> lvl \<and> admissible cap (lvl - n) ts)"

fun run_xfers ::
    "('b \<Rightarrow> int \<Rightarrow> 'b option) \<Rightarrow> ('b \<Rightarrow> int \<Rightarrow> 'b option) \<Rightarrow> 'b \<Rightarrow> xfer list \<Rightarrow> 'b option" where
  "run_xfers pt gt b [] = Some b"
| "run_xfers pt gt b (Produce n # ts) = do { b' \<leftarrow> pt b n; run_xfers pt gt b' ts }"
| "run_xfers pt gt b (Consume n # ts) = do { b' \<leftarrow> gt b n; run_xfers pt gt b' ts }"

locale fifo_counter =
  fixes inv :: "'b \<Rightarrow> bool"
    and cap :: "'b \<Rightarrow> int"
    and lvl :: "'b \<Rightarrow> int"
    and put :: "'b \<Rightarrow> int \<Rightarrow> 'b option"
    and get :: "'b \<Rightarrow> int \<Rightarrow> 'b option"
  assumes lvl_bounds: "inv b \<Longrightarrow> 0 \<le> lvl b \<and> lvl b \<le> cap b"
    and put_law: "inv b \<Longrightarrow> 0 \<le> n \<Longrightarrow> lvl b + n \<le> cap b \<Longrightarrow>
      \<exists>b'. put b n = Some b' \<and> inv b' \<and> cap b' = cap b \<and> lvl b' = lvl b + n"
    and get_law: "inv b \<Longrightarrow> 0 \<le> n \<Longrightarrow> n \<le> lvl b \<Longrightarrow>
      \<exists>b'. get b n = Some b' \<and> inv b' \<and> cap b' = cap b \<and> lvl b' = lvl b - n"
begin

lemma run_admissible:
  "inv b \<Longrightarrow> admissible (cap b) (lvl b) ts \<Longrightarrow>
   \<exists>b'. run_xfers put get b ts = Some b' \<and> inv b' \<and> cap b' = cap b \<and> lvl b' = lvl b + net ts"
proof (induction ts arbitrary: b)
  case Nil
  then show ?case by simp
next
  case (Cons t ts)
  show ?case
  proof (cases t)
    case (Produce n)
    with Cons.prems obtain b1 where b1: "put b n = Some b1" "inv b1" "cap b1 = cap b" "lvl b1 = lvl b + n"
      using put_law [of b n] by auto
    with Cons.prems Produce have "admissible (cap b1) (lvl b1) ts" by simp
    from Cons.IH [OF b1(2) this] b1 Produce show ?thesis by auto
  next
    case (Consume n)
    with Cons.prems obtain b1 where b1: "get b n = Some b1" "inv b1" "cap b1 = cap b" "lvl b1 = lvl b - n"
      using get_law [of b n] by auto
    with Cons.prems Consume have "admissible (cap b1) (lvl b1) ts" by simp
    from Cons.IH [OF b1(2) this] b1 Consume show ?thesis by auto
  qed
qed

end

end
