(* ===== verification/Sof_Stream.thy ===== *)
theory Sof_Stream
  imports Sof_Format Sof_Fifo
begin

text \<open>
  The audio stream of \<open>src/include/sof/audio/audio_stream.h\<close>: a circular byte buffer with
  cached \<open>avail\<close> and \<open>free\<close> counters. Pointers are addresses. \<open>audio_stream_wrap\<close> asserts that
  one roll-over is enough, so every operation that moves a pointer may panic.
\<close>

section \<open>Definitions\<close>

record audio_stream =
  st_size :: int
  st_avail :: int
  st_free :: int
  w_ptr :: addr
  r_ptr :: addr
  st_addr :: addr
  end_addr :: addr
  frame_fmt :: int
  valid_sample_fmt :: int
  st_rate :: int
  st_channels :: int
  overrun_permitted :: bool
  underrun_permitted :: bool

text \<open>The fields of the IPC stream parameters that the buffer layer reads.\<close>

record sof_ipc_stream_params =
  p_direction :: int
  p_frame_fmt :: int
  p_buffer_fmt :: int
  p_rate :: int
  p_channels :: int
  p_chmap :: "int list"

definition audio_stream_set_params ::
    "audio_stream \<Rightarrow> sof_ipc_stream_params option \<Rightarrow> int \<times> audio_stream" where
  "audio_stream_set_params buffer params =
     (case params of
        None \<Rightarrow> (- EINVAL, buffer)
      | Some p \<Rightarrow>
          (0, buffer\<lparr>frame_fmt := p_frame_fmt p, st_rate := p_rate p, st_channels := p_channels p\<rparr>))"

definition audio_stream_frame_bytes :: "audio_stream \<Rightarrow> int" where
  "audio_stream_frame_bytes buf = get_frame_bytes (frame_fmt buf) (st_channels buf)"

definition audio_stream_sample_bytes :: "audio_stream \<Rightarrow> int" where
  "audio_stream_sample_bytes buf = get_sample_bytes (frame_fmt buf)"

definition audio_stream_period_bytes :: "audio_stream \<Rightarrow> int \<Rightarrow> int" where
  "audio_stream_period_bytes buf frames = u32 (frames * audio_stream_frame_bytes buf)"

definition audio_stream_wrap :: "audio_stream \<Rightarrow> addr \<Rightarrow> addr option" where
  "audio_stream_wrap buffer ptr =
     (let ptr' = (if ptr \<ge> end_addr buffer then st_addr buffer + (ptr - end_addr buffer) else ptr)
      in do { c_assert (ptr' \<le> end_addr buffer); Some ptr' })"

definition audio_stream_get_avail_bytes :: "audio_stream \<Rightarrow> int" where
  "audio_stream_get_avail_bytes stream =
     (if underrun_permitted stream
      then (if st_avail stream \<noteq> 0 then st_avail stream else st_size stream)
      else st_avail stream)"

definition audio_stream_get_free_bytes :: "audio_stream \<Rightarrow> int" where
  "audio_stream_get_free_bytes stream =
     (if overrun_permitted stream
      then (if st_free stream \<noteq> 0 then st_free stream else st_size stream)
      else st_free stream)"

definition audio_stream_get_avail_samples :: "audio_stream \<Rightarrow> int" where
  "audio_stream_get_avail_samples stream =
     audio_stream_get_avail_bytes stream div audio_stream_sample_bytes stream"

text \<open>A division by the frame size traps when the stream has no channels.\<close>

definition audio_stream_get_avail_frames :: "audio_stream \<Rightarrow> int option" where
  "audio_stream_get_avail_frames stream =
     (let d = audio_stream_frame_bytes stream
      in if d = 0 then None else Some (audio_stream_get_avail_bytes stream div d))"

definition audio_stream_get_free_samples :: "audio_stream \<Rightarrow> int" where
  "audio_stream_get_free_samples stream =
     audio_stream_get_free_bytes stream div audio_stream_sample_bytes stream"

definition audio_stream_get_free_frames :: "audio_stream \<Rightarrow> int option" where
  "audio_stream_get_free_frames stream =
     (let d = audio_stream_frame_bytes stream
      in if d = 0 then None else Some (audio_stream_get_free_bytes stream div d))"

definition audio_stream_can_copy_bytes :: "audio_stream \<Rightarrow> audio_stream \<Rightarrow> int \<Rightarrow> int" where
  "audio_stream_can_copy_bytes source sink bytes =
     (if audio_stream_get_avail_bytes source < bytes then - 1
      else if audio_stream_get_free_bytes sink < bytes then 1
      else 0)"

definition audio_stream_get_copy_bytes :: "audio_stream \<Rightarrow> audio_stream \<Rightarrow> int" where
  "audio_stream_get_copy_bytes source sink =
     (let avail = audio_stream_get_avail_bytes source;
          free = audio_stream_get_free_bytes sink
      in if avail > free then free else avail)"

definition audio_stream_avail_frames :: "audio_stream \<Rightarrow> audio_stream \<Rightarrow> int option" where
  "audio_stream_avail_frames source sink =
     do { src_frames \<leftarrow> audio_stream_get_avail_frames source;
          sink_frames \<leftarrow> audio_stream_get_free_frames sink;
          Some (if src_frames < sink_frames then src_frames else sink_frames) }"

text \<open>
  The available bytes computed from the pointers, with the value for equal pointers given by
  the caller: the size after a write (full), zero after a read (empty).
\<close>

definition avail_from_ptrs :: "int \<Rightarrow> audio_stream \<Rightarrow> int" where
  "avail_from_ptrs when_equal b =
     (if r_ptr b < w_ptr b then u32 (w_ptr b - r_ptr b)
      else if r_ptr b = w_ptr b then when_equal
      else u32 (st_size b - (r_ptr b - w_ptr b)))"

definition audio_stream_produce :: "audio_stream \<Rightarrow> int \<Rightarrow> audio_stream option" where
  "audio_stream_produce buffer bytes =
     do { w \<leftarrow> audio_stream_wrap buffer (w_ptr buffer + bytes);
          let b1 = buffer\<lparr>w_ptr := w\<rparr>;
          let b2 = (if bytes > audio_stream_get_free_bytes b1
                    then b1\<lparr>r_ptr := w_ptr b1\<rparr> else b1);
          let av = avail_from_ptrs (st_size b2) b2;
          Some (b2\<lparr>st_avail := av, st_free := u32 (st_size b2 - av)\<rparr>) }"

definition audio_stream_consume :: "audio_stream \<Rightarrow> int \<Rightarrow> audio_stream option" where
  "audio_stream_consume buffer bytes =
     do { r \<leftarrow> audio_stream_wrap buffer (r_ptr buffer + bytes);
          let b1 = buffer\<lparr>r_ptr := r\<rparr>;
          let av = avail_from_ptrs 0 b1;
          Some (b1\<lparr>st_avail := av, st_free := u32 (st_size b1 - av)\<rparr>) }"

definition audio_stream_reset :: "audio_stream \<Rightarrow> audio_stream" where
  "audio_stream_reset buffer =
     buffer\<lparr>w_ptr := st_addr buffer, r_ptr := st_addr buffer,
            st_free := st_size buffer, st_avail := 0\<rparr>"

definition audio_stream_init :: "audio_stream \<Rightarrow> addr \<Rightarrow> int \<Rightarrow> audio_stream" where
  "audio_stream_init buffer buff_addr sz =
     audio_stream_reset
       (buffer\<lparr>st_size := sz, st_addr := buff_addr, end_addr := buff_addr + sz\<rparr>)"

text \<open>
  The cache maintenance routines return the regions they pass to the cache driver, in order.
\<close>

definition audio_stream_invalidate :: "audio_stream \<Rightarrow> int \<Rightarrow> (addr \<times> int) list" where
  "audio_stream_invalidate buffer bytes =
     (let wraps = r_ptr buffer + bytes > end_addr buffer;
          head_size = (if wraps then u32 (end_addr buffer - r_ptr buffer) else bytes);
          tail_size = (if wraps then u32 (bytes - head_size) else 0)
      in (r_ptr buffer, head_size) # (if tail_size \<noteq> 0 then [(st_addr buffer, tail_size)] else []))"

definition audio_stream_writeback :: "audio_stream \<Rightarrow> int \<Rightarrow> (addr \<times> int) list" where
  "audio_stream_writeback buffer bytes =
     (let wraps = w_ptr buffer + bytes > end_addr buffer;
          head_size = (if wraps then u32 (end_addr buffer - w_ptr buffer) else bytes);
          tail_size = (if wraps then u32 (bytes - head_size) else 0)
      in (w_ptr buffer, head_size) # (if tail_size \<noteq> 0 then [(st_addr buffer, tail_size)] else []))"

definition audio_stream_bytes_without_wrap :: "audio_stream \<Rightarrow> addr \<Rightarrow> int option" where
  "audio_stream_bytes_without_wrap source ptr =
     do { c_assert (end_addr source \<ge> ptr); Some (s32 (end_addr source - ptr)) }"

definition audio_stream_frames_without_wrap :: "audio_stream \<Rightarrow> addr \<Rightarrow> int option" where
  "audio_stream_frames_without_wrap source ptr =
     do { b \<leftarrow> audio_stream_bytes_without_wrap source ptr;
          let bytes = u32 b;
          let frame_bytes = audio_stream_frame_bytes source;
          if frame_bytes = 0 then None else Some (bytes div frame_bytes) }"

definition audio_stream_set_zero :: "audio_stream \<Rightarrow> int \<Rightarrow> mem \<Rightarrow> int \<times> mem" where
  "audio_stream_set_zero buffer bytes m =
     (if audio_stream_get_free_bytes buffer < bytes then (1, m)
      else
        (let wraps = w_ptr buffer + bytes > end_addr buffer;
             head_size = (if wraps then u32 (end_addr buffer - w_ptr buffer) else bytes);
             tail_size = (if wraps then u32 (bytes - head_size) else 0);
             m1 = mem_set m (w_ptr buffer) 0 head_size
         in (0, if tail_size \<noteq> 0 then mem_set m1 (st_addr buffer) 0 tail_size else m1)))"

text \<open>
  \<open>audio_stream_get_frag\<close>: the address of the sample at an index from a read or write pointer.
\<close>

definition audio_stream_get_frag :: "audio_stream \<Rightarrow> addr \<Rightarrow> int \<Rightarrow> int \<Rightarrow> addr option" where
  "audio_stream_get_frag buffer ptr idx sample_size = audio_stream_wrap buffer (ptr + idx * sample_size)"

definition IPC4_TYPE_FLOAT :: int where "IPC4_TYPE_FLOAT = 4"

text \<open>Depth and valid depth in bits to the frame format codes (frame, valid).\<close>

definition audio_stream_fmt_conversion :: "int \<Rightarrow> int \<Rightarrow> int \<Rightarrow> int \<times> int" where
  "audio_stream_fmt_conversion depth valid stype =
     (let f = drop_bit 3 depth - 2;
          v = drop_bit 3 valid - 2;
          (f, v) = (if valid = 24 \<and> depth = 24
                    then (SOF_IPC_FRAME_S24_3LE, SOF_IPC_FRAME_S24_3LE) else (f, v))
      in if stype = IPC4_TYPE_FLOAT \<and> depth = 32
         then (SOF_IPC_FRAME_FLOAT, SOF_IPC_FRAME_FLOAT) else (f, v))"

section \<open>Invariant\<close>

text \<open>
  Address of the byte at offset \<open>i\<close> behind a pointer of the ring; valid for offsets up to the
  size of the buffer.
\<close>

definition ring_addr :: "audio_stream \<Rightarrow> addr \<Rightarrow> addr" where
  "ring_addr b p = (if p \<ge> end_addr b then p - st_size b else p)"

definition stream_wf :: "audio_stream \<Rightarrow> bool" where
  "stream_wf b \<longleftrightarrow>
     0 < st_size b \<and> st_size b < 2147483648 \<and> end_addr b = st_addr b + st_size b \<and>
     st_addr b \<le> r_ptr b \<and> r_ptr b < end_addr b \<and>
     st_addr b \<le> w_ptr b \<and> w_ptr b < end_addr b \<and>
     0 \<le> st_avail b \<and> st_avail b + st_free b = st_size b \<and> 0 \<le> st_free b \<and>
     w_ptr b = ring_addr b (r_ptr b + st_avail b)"

lemmas stream_wf_defs = stream_wf_def ring_addr_def

lemma stream_wf_init [sof_inv]:
  "0 < sz \<Longrightarrow> sz < 2147483648 \<Longrightarrow> stream_wf (audio_stream_init b a sz)"
  by (simp add: stream_wf_defs audio_stream_init_def audio_stream_reset_def)

lemma stream_wf_reset [sof_inv]: "stream_wf b \<Longrightarrow> stream_wf (audio_stream_reset b)"
  by (auto simp: stream_wf_defs audio_stream_reset_def)

text \<open>One roll-over is enough for a pointer less than one buffer length past the end.\<close>

lemma audio_stream_wrap_ring:
  "stream_wf b \<Longrightarrow> st_addr b \<le> p \<Longrightarrow> p < end_addr b + st_size b \<Longrightarrow>
   audio_stream_wrap b p = Some (ring_addr b p)"
  by (simp add: audio_stream_wrap_def stream_wf_defs Let_def)

lemma ring_addr_range:
  "stream_wf b \<Longrightarrow> st_addr b \<le> p \<Longrightarrow> p < end_addr b + st_size b \<Longrightarrow>
   st_addr b \<le> ring_addr b p \<and> ring_addr b p < end_addr b"
  by (auto simp: stream_wf_defs)

section \<open>Moving the pointers\<close>

lemma produce_fits:
  assumes wf: "stream_wf b" and n: "0 < n" "n \<le> st_free b"
  shows "audio_stream_produce b n =
    Some (b\<lparr>w_ptr := ring_addr b (w_ptr b + n), st_avail := st_avail b + n, st_free := st_free b - n\<rparr>)"
proof -
  have w: "audio_stream_wrap b (w_ptr b + n) = Some (ring_addr b (w_ptr b + n))"
    using wf n by (intro audio_stream_wrap_ring) (auto simp: stream_wf_defs)
  let ?b = "b\<lparr>w_ptr := ring_addr b (w_ptr b + n)\<rparr>"
  have f: "\<not> n > audio_stream_get_free_bytes ?b"
    using n by (simp add: audio_stream_get_free_bytes_def)
  have "avail_from_ptrs (st_size b) ?b = st_avail b + n"
    using wf n by (auto simp: avail_from_ptrs_def stream_wf_defs u32_id split: if_splits)
  moreover have "u32 (st_size b - (st_avail b + n)) = st_free b - n"
    using wf n by (subst u32_id) (auto simp: stream_wf_defs)
  ultimately show ?thesis using w f by (simp add: audio_stream_produce_def Let_def)
qed

lemma consume_fits:
  assumes wf: "stream_wf b" and n: "0 < n" "n \<le> st_avail b"
  shows "audio_stream_consume b n =
    Some (b\<lparr>r_ptr := ring_addr b (r_ptr b + n), st_avail := st_avail b - n, st_free := st_free b + n\<rparr>)"
proof -
  have r: "audio_stream_wrap b (r_ptr b + n) = Some (ring_addr b (r_ptr b + n))"
    using wf n by (intro audio_stream_wrap_ring) (auto simp: stream_wf_defs)
  let ?b = "b\<lparr>r_ptr := ring_addr b (r_ptr b + n)\<rparr>"
  have "avail_from_ptrs 0 ?b = st_avail b - n"
    using wf n by (auto simp: avail_from_ptrs_def stream_wf_defs u32_id split: if_splits)
  moreover have "u32 (st_size b - (st_avail b - n)) = st_free b + n"
    using wf n by (subst u32_id) (auto simp: stream_wf_defs)
  ultimately show ?thesis using r by (simp add: audio_stream_consume_def Let_def)
qed

text \<open>Writing past the free space drops the old data: the buffer is then full.\<close>

lemma produce_overwrites:
  assumes wf: "stream_wf b" and n: "audio_stream_get_free_bytes b < n" "n \<le> st_size b"
  shows "audio_stream_produce b n =
    Some (b\<lparr>w_ptr := ring_addr b (w_ptr b + n), r_ptr := ring_addr b (w_ptr b + n),
            st_avail := st_size b, st_free := 0\<rparr>)"
proof -
  have pos: "0 < n"
    using wf n by (auto simp: audio_stream_get_free_bytes_def stream_wf_def split: if_splits)
  have w: "audio_stream_wrap b (w_ptr b + n) = Some (ring_addr b (w_ptr b + n))"
    using wf n pos by (intro audio_stream_wrap_ring) (auto simp: stream_wf_defs)
  have "audio_stream_get_free_bytes (b\<lparr>w_ptr := x\<rparr>) = audio_stream_get_free_bytes b" for x
    by (simp add: audio_stream_get_free_bytes_def)
  then show ?thesis using w n by (simp add: audio_stream_produce_def avail_from_ptrs_def Let_def u32_def)
qed

text \<open>
  On a full stream that permits overruns, a write makes exactly the new bytes available.
\<close>

lemma produce_overrun_full:
  assumes wf: "stream_wf b" and o: "overrun_permitted b" "st_free b = 0"
    and n: "0 < n" "n \<le> st_size b"
  shows "audio_stream_produce b n =
    Some (b\<lparr>w_ptr := ring_addr b (w_ptr b + n), st_avail := n, st_free := st_size b - n\<rparr>)"
proof -
  have rw: "r_ptr b = w_ptr b" using wf o by (auto simp: stream_wf_defs)
  have w: "audio_stream_wrap b (w_ptr b + n) = Some (ring_addr b (w_ptr b + n))"
    using wf n by (intro audio_stream_wrap_ring) (auto simp: stream_wf_defs)
  let ?b = "b\<lparr>w_ptr := ring_addr b (w_ptr b + n)\<rparr>"
  have f: "\<not> n > audio_stream_get_free_bytes ?b"
    using n o by (simp add: audio_stream_get_free_bytes_def)
  have "avail_from_ptrs (st_size b) ?b = n"
    using wf n rw by (auto simp: avail_from_ptrs_def stream_wf_defs u32_id split: if_splits)
  moreover have "u32 (st_size b - n) = st_size b - n"
    using wf n by (subst u32_id) (auto simp: stream_wf_defs)
  ultimately show ?thesis using w f by (simp add: audio_stream_produce_def Let_def)
qed

lemma produce_shape_wf:
  "stream_wf b \<Longrightarrow> 0 < n \<Longrightarrow> n \<le> st_free b \<Longrightarrow>
   stream_wf (b\<lparr>w_ptr := ring_addr b (w_ptr b + n), st_avail := st_avail b + n, st_free := st_free b - n\<rparr>)"
  by (auto simp: stream_wf_defs split: if_splits)

lemma consume_shape_wf:
  "stream_wf b \<Longrightarrow> 0 < n \<Longrightarrow> n \<le> st_avail b \<Longrightarrow>
   stream_wf (b\<lparr>r_ptr := ring_addr b (r_ptr b + n), st_avail := st_avail b - n, st_free := st_free b + n\<rparr>)"
  by (auto simp: stream_wf_defs split: if_splits)

end
