(* ===== verification/Sof_String.thy ===== *)
theory Sof_String
  imports Sof_Prelude
begin

text \<open>
  The string and memory routines of \<open>src/lib/lib.c\<close> and the checked copies of
  \<open>src/arch/xtensa/include/arch/string.h\<close>, on byte memory. \<open>arch_memcpy\<close> is the library's
  \<open>memcpy\<close>. The generic \<open>memset\<close> stores 32-bit words between a byte prefix and a byte tail; the
  theorem shows that it is a byte-wise fill.
\<close>

section \<open>Definitions\<close>

definition store32 :: "mem \<Rightarrow> addr \<Rightarrow> int \<Rightarrow> mem" where
  "store32 m a w = m(a := w mod 256, a + 1 := (w div 256) mod 256,
                     a + 2 := (w div 65536) mod 256, a + 3 := (w div 16777216) mod 256)"

definition memset :: "mem \<Rightarrow> addr \<Rightarrow> int \<Rightarrow> int \<Rightarrow> mem" where
  "memset m s c n =
     (let v = u8 c;
          v32 = v OR push_bit 8 v OR push_bit 16 v OR push_bit 24 v;
          d32 = ALIGN_UP s 4;
          prefix_sz = (if n > 2 * 4 - 1 then d32 - s else n);
          m1 = fold (\<lambda>i m. m(s + int i := v)) [0..<nat prefix_sz] m;
          words = nat (drop_bit 2 (n - prefix_sz));
          m2 = fold (\<lambda>i m. store32 m (d32 + 4 * int i) v32) [0..<words] m1
      in fold (\<lambda>i m. m(s + int i := v)) [nat prefix_sz + 4 * words..<nat n] m2)"

fun memcmp :: "mem \<Rightarrow> addr \<Rightarrow> addr \<Rightarrow> nat \<Rightarrow> int" where
  "memcmp m s1 s2 0 = 0"
| "memcmp m s1 s2 (Suc count) =
     (if m s1 \<noteq> m s2 then (if m s1 < m s2 then - 1 else 1)
      else memcmp m (s1 + 1) (s2 + 1) count)"

definition memcpy_s :: "mem \<Rightarrow> addr \<Rightarrow> int \<Rightarrow> addr \<Rightarrow> int \<Rightarrow> int \<times> mem" where
  "memcpy_s m dest dest_size src src_size =
     (if dest = 0 \<or> src = 0 then (- EINVAL, m)
      else if (dest \<ge> src \<and> dest < src + src_size) \<or> (src \<ge> dest \<and> src < dest + dest_size)
      then (- EINVAL, m)
      else if src_size > dest_size then (- EINVAL, m)
      else (0, mem_copy m dest src src_size))"

definition memset_s :: "mem \<Rightarrow> addr \<Rightarrow> int \<Rightarrow> int \<Rightarrow> int \<Rightarrow> int \<times> mem" where
  "memset_s m dest dest_size data count =
     (if dest = 0 then (- EINVAL, m)
      else if count > dest_size then (- EINVAL, m)
      else (0, memset m dest data count))"

definition bzero :: "mem \<Rightarrow> addr \<Rightarrow> int \<Rightarrow> mem" where
  "bzero m ptr sz = snd (memset_s m ptr sz 0 sz)"

partial_function (option) rstrlen_loop :: "mem \<Rightarrow> addr \<Rightarrow> addr option" where
  "rstrlen_loop m p = (if m p \<noteq> 0 then rstrlen_loop m (p + 1) else Some (p + 1))"

definition rstrlen :: "mem \<Rightarrow> addr \<Rightarrow> int option" where
  "rstrlen m s = do { p \<leftarrow> rstrlen_loop m s; Some ((p - s) - 1) }"

partial_function (option) rstrcmp :: "mem \<Rightarrow> addr \<Rightarrow> addr \<Rightarrow> int option" where
  "rstrcmp m s1 s2 =
     (if m s1 \<noteq> 0 \<and> m s2 \<noteq> 0 then
        (if m s1 < m s2 then Some (- 1)
         else if m s1 > m s2 then Some 1
         else rstrcmp m (s1 + 1) (s2 + 1))
      else if m s1 \<noteq> 0 then Some 1
      else if m s2 \<noteq> 0 then Some (- 1)
      else Some 0)"

section \<open>Filling memory\<close>

lemma fill_bytes:
  "fold (\<lambda>i m. m(s + int i := v)) [i..<j] m = mem_set m (s + int i) v (int j - int i)"
proof (induction j)
  case 0
  then show ?case by (auto simp: mem_set_def fun_eq_iff)
next
  case (Suc j)
  then show ?case
    by (cases "i \<le> j") (auto simp: mem_set_def fun_eq_iff)
qed

lemma mem_set_append:
  "0 \<le> n \<Longrightarrow> 0 \<le> k \<Longrightarrow> mem_set (mem_set m a v n) (a + n) v k = mem_set m a v (n + k)"
  by (auto simp: mem_set_def fun_eq_iff)

lemma v32_bytes:
  assumes "0 \<le> v" "v < (256 :: int)"
  shows "v OR push_bit 8 v OR push_bit 16 v OR push_bit 24 v = v * 16843009"
proof -
  have tb: "take_bit 8 v = v" using assms by (simp add: take_bit_int_eq_self_iff)
  have b: "\<not> bit v n" if "8 \<le> n" for n using tb that by (metis bit_take_bit_iff leD)
  have "v OR push_bit 8 v = v + push_bit 8 v"
    by (rule disjunctive_add [symmetric]) (auto simp: bit_simps b)
  moreover have "(v OR push_bit 8 v) OR push_bit 16 v = (v OR push_bit 8 v) + push_bit 16 v"
    by (rule disjunctive_add [symmetric]) (auto simp: bit_simps b)
  moreover have "((v OR push_bit 8 v) OR push_bit 16 v) OR push_bit 24 v
      = ((v OR push_bit 8 v) OR push_bit 16 v) + push_bit 24 v"
    by (rule disjunctive_add [symmetric]) (auto simp: bit_simps b)
  ultimately show ?thesis by (simp add: or.assoc [symmetric] push_bit_eq_mult)
qed

lemma div_mod_split:
  fixes r d q :: int
  assumes "x = r + d * q" "0 \<le> r" "r < d"
  shows "x div d = q" "x mod d = r"
  using assms by simp_all

lemma mem_set_4: "mem_set m a v 4 = m(a := v, a + 1 := v, a + 2 := v, a + 3 := v)"
proof
  fix b
  consider "b < a" | "b = a" | "b = a + 1" | "b = a + 2" | "b = a + 3" | "a + 4 \<le> b" by linarith
  then show "mem_set m a v 4 b = (m(a := v, a + 1 := v, a + 2 := v, a + 3 := v)) b"
    by cases (simp_all add: mem_set_def)
qed

lemma store32_fill:
  assumes "0 \<le> v" "v < 256"
  shows "store32 m a (v * 16843009) = mem_set m a v 4"
proof -
  have "v * 16843009 div 256 = v * 65793" by (rule div_mod_split(1) [of _ v]) (use assms in simp_all)
  moreover have "v * 16843009 div 65536 = v * 257"
    by (rule div_mod_split(1) [of _ "v * 257"]) (use assms in simp_all)
  moreover have "v * 16843009 div 16777216 = v"
    by (rule div_mod_split(1) [of _ "v * 65793"]) (use assms in simp_all)
  moreover have "v * 16843009 mod 256 = v" by (rule div_mod_split(2) [of _ _ _ "v * 65793"]) (use assms in simp_all)
  moreover have "v * 65793 mod 256 = v" by (rule div_mod_split(2) [of _ _ _ "v * 257"]) (use assms in simp_all)
  moreover have "v * 257 mod 256 = v" by (rule div_mod_split(2) [of _ _ _ v]) (use assms in simp_all)
  moreover have "v mod 256 = v" using assms by simp
  ultimately show ?thesis by (simp only: store32_def mem_set_4)
qed

lemma fill_words:
  assumes "0 \<le> v" "v < 256"
  shows "fold (\<lambda>i m. store32 m (a + 4 * int i) (v * 16843009)) [0..<n] m = mem_set m a v (4 * int n)"
proof (induction n)
  case 0
  then show ?case by (auto simp: mem_set_def fun_eq_iff)
next
  case (Suc n)
  then show ?case
    using mem_set_append [of "4 * int n" 4 m a v] by (simp add: store32_fill [OF assms] algebra_simps)
qed

lemma memset_is_fill:
  assumes "0 \<le> s" "s + n + 4 \<le> 4294967296" "0 \<le> n"
  shows "memset m s c n = mem_set m s (u8 c) n"
proof -
  let ?v = "u8 c"
  define p where "p = (if n > 2 * 4 - 1 then ALIGN_UP s 4 - s else n)"
  define w where "w = nat (drop_bit 2 (n - p))"
  have v: "0 \<le> ?v" "?v < 256" by (simp_all add: u8_def)
  have al: "s \<le> ALIGN_UP s 4" "ALIGN_UP s 4 < s + 4"
    using align_up_bounds [of s 2] assms by simp_all
  have p: "0 \<le> p" "p \<le> n" using al assms by (auto simp: p_def)
  have quarter: "4 * int (nat (drop_bit 2 x)) \<le> x" if "0 \<le> x" for x :: int
    using that by (simp add: drop_bit_eq_div) arith
  have w: "4 * int w \<le> n - p" unfolding w_def using p by (intro quarter) simp
  have start: "mem_set (mem_set m s ?v p) (ALIGN_UP s 4) ?v (4 * int w) = mem_set m s ?v (p + 4 * int w)"
  proof (cases "n > 2 * 4 - 1")
    case True
    then show ?thesis using mem_set_append [of p "4 * int w" m s ?v] p by (simp add: p_def)
  next
    case False
    then have "w = 0" by (simp add: w_def p_def)
    then show ?thesis by (auto simp: mem_set_def fun_eq_iff)
  qed
  have "memset m s c n =
      mem_set (mem_set (mem_set m s ?v p) (ALIGN_UP s 4) ?v (4 * int w))
        (s + (p + 4 * int w)) ?v (n - (p + 4 * int w))"
    unfolding memset_def Let_def v32_bytes [OF v] fill_words [OF v] fill_bytes
      p_def [symmetric] w_def [symmetric]
    using p assms by simp
  also have "\<dots> = mem_set m s ?v n"
    unfolding start using mem_set_append [of "p + 4 * int w" "n - (p + 4 * int w)" m s ?v] p w by simp
  finally show ?thesis .
qed

section \<open>Strings\<close>

text \<open>A NUL-terminated string in memory.\<close>

definition cstr :: "mem \<Rightarrow> addr \<Rightarrow> int list \<Rightarrow> bool" where
  "cstr m s xs \<longleftrightarrow> (\<forall>i < length xs. m (s + int i) = xs ! i \<and> xs ! i \<noteq> 0) \<and> m (s + int (length xs)) = 0"

lemma cstr_Nil: "cstr m s [] \<longleftrightarrow> m s = 0"
  by (simp add: cstr_def)

lemma cstr_Cons: "cstr m s (x # xs) \<longleftrightarrow> m s = x \<and> x \<noteq> 0 \<and> cstr m (s + 1) xs"
  by (auto simp: cstr_def All_less_Suc2 algebra_simps)

lemma rstrlen_loop_cstr: "cstr m p xs \<Longrightarrow> rstrlen_loop m p = Some (p + int (length xs) + 1)"
  by (induction xs arbitrary: p) (simp_all add: cstr_Nil cstr_Cons rstrlen_loop.simps)

text \<open>The order \<open>rstrcmp\<close> computes: lexicographic on the byte values.\<close>

fun str_order :: "int list \<Rightarrow> int list \<Rightarrow> int" where
  "str_order [] [] = 0"
| "str_order (x # xs) [] = 1"
| "str_order [] (y # ys) = - 1"
| "str_order (x # xs) (y # ys) = (if x < y then - 1 else if x > y then 1 else str_order xs ys)"

lemma rstrcmp_cstr: "cstr m p xs \<Longrightarrow> cstr m q ys \<Longrightarrow> rstrcmp m p q = Some (str_order xs ys)"
  by (induction xs ys arbitrary: p q rule: str_order.induct)
     (simp_all add: cstr_Nil cstr_Cons rstrcmp.simps)

lemma str_order_zero: "str_order xs ys = 0 \<longleftrightarrow> xs = ys"
  by (induction xs ys rule: str_order.induct) auto

lemma str_order_lexord: "str_order xs ys = - 1 \<longleftrightarrow> (xs, ys) \<in> lexord {(x, y). x < y}"
  by (induction xs ys rule: str_order.induct) auto

lemma memcmp_eq_0: "memcmp m p q n = 0 \<longleftrightarrow> (\<forall>i < n. m (p + int i) = m (q + int i))"
proof (induction n arbitrary: p q)
  case (Suc n)
  then show ?case by (auto simp: All_less_Suc2 algebra_simps)
qed simp

section \<open>Properties\<close>

text \<open>
  C21: \<open>memset\<close>, which fills byte by byte up to a word boundary, then word by word, then the rest,
  equals the byte-wise fill of the region for every address, length and fill value that does not
  run into the top of the address space.
\<close>

theorem memset_equivalence:
  assumes "0 \<le> s" "0 \<le> n" "s + n + 4 \<le> 4294967296"
  shows "memset m s c n = mem_set m s (u8 c) n"
  using memset_is_fill assms by blast

theorem memset_equivalence_witness:
  "memset (\<lambda>_. 7) 4099 (- 1) 21 = mem_set (\<lambda>_. 7) 4099 (u8 (- 1)) 21"
  using memset_equivalence [of 4099 21 "\<lambda>_. 7" "- 1"] by simp

text \<open>
  C22: \<open>rstrcmp\<close> on two terminated strings returns, and its result is the lexicographic order of
  the byte values: 0 exactly for equal strings, and -1 exactly when the first is smaller.
\<close>

theorem rstrcmp_lexicographic:
  assumes "cstr m p xs" "cstr m q ys"
  shows "\<exists>r. rstrcmp m p q = Some r \<and> (r = 0 \<longleftrightarrow> xs = ys) \<and>
    (r = - 1 \<longleftrightarrow> (xs, ys) \<in> lexord {(x, y). x < y})"
  using rstrcmp_cstr [OF assms] str_order_zero str_order_lexord by blast

definition demo_strings :: mem where
  "demo_strings = (\<lambda>_. 0)(1 := 104, 2 := 105, 10 := 104, 11 := 111)"

theorem rstrcmp_lexicographic_witness:
  "\<exists>r. rstrcmp demo_strings 1 10 = Some r \<and> (r = 0 \<longleftrightarrow> [104, 105 :: int] = [104, 111]) \<and>
    (r = - 1 \<longleftrightarrow> ([104, 105 :: int], [104, 111]) \<in> lexord {(x, y). x < y})"
  using rstrcmp_lexicographic [of demo_strings 1 "[104, 105]" 10 "[104, 111]"]
  by (simp add: cstr_Cons cstr_Nil demo_strings_def)

end
