(* ===== verification/Sof_Alloc.thy ===== *)
theory Sof_Alloc
  imports Sof_String
begin

text \<open>
  The heap allocator of \<open>src/lib/alloc.c\<close> with the structures of \<open>mm_heap.h\<close>: system heaps that
  only grow, and runtime and buffer heaps built from maps of equally sized blocks. A heap is
  passed by value and returned updated; a \<open>struct mm_heap *\<close> into the memory map is a pool and an
  index. Addresses are numbers and \<open>0\<close> is \<open>NULL\<close>; address arithmetic is 32 bits wide, as on the
  DSP. The platform macros (\<open>PLATFORM_DCACHE_ALIGN\<close>, the cache aliases, the current core, whether
  the build has several cores) are the fields of the record \<open>plat\<close>. A \<open>panic()\<close> is \<open>None\<close>. The
  debug build options \<open>CONFIG_DEBUG_BLOCK_FREE\<close> and \<open>CONFIG_DEBUG_HEAP\<close> are off.
\<close>

section \<open>Data\<close>

record block_hdr =
  hdr_size :: int
  hdr_used :: int
  unaligned_ptr :: addr

record block_map =
  block_size :: int
  map_count :: int
  free_count :: int
  first_free :: int
  block :: "block_hdr list"
  base :: addr

record mm_heap =
  hp_map :: "block_map list"
  hp_heap :: addr
  hp_size :: int
  hp_caps :: int
  info_used :: int
  info_free :: int

record mm =
  mm_system :: "mm_heap list"
  mm_system_runtime :: "mm_heap list"
  mm_system_shared :: "mm_heap list"
  mm_runtime_shared :: "mm_heap list"
  mm_runtime :: "mm_heap list"
  mm_buffer :: "mm_heap list"
  heap_trace_updated :: int

record plat =
  dcache_align :: int
  multi_core :: bool
  cpu_id :: nat
  primary_core :: nat
  trace_on :: bool
  uncache_to_cache :: "addr \<Rightarrow> addr"
  cache_to_uncache :: "addr \<Rightarrow> addr"
  is_uncached :: "addr \<Rightarrow> bool"
  rfree_prepare :: "addr \<Rightarrow> addr"

datatype mem_zone =
    SOF_MEM_ZONE_SYS
  | SOF_MEM_ZONE_SYS_RUNTIME
  | SOF_MEM_ZONE_RUNTIME
  | SOF_MEM_ZONE_BUFFER
  | SOF_MEM_ZONE_RUNTIME_SHARED
  | SOF_MEM_ZONE_SYS_SHARED

datatype pool = Pool_System_Runtime | Pool_Runtime | Pool_Runtime_Shared | Pool_Buffer

definition SOF_MEM_FLAG_NO_COPY :: int where "SOF_MEM_FLAG_NO_COPY = 2"
definition SOF_MEM_FLAG_COHERENT :: int where "SOF_MEM_FLAG_COHERENT = 4"

fun pool_heaps :: "pool \<Rightarrow> mm \<Rightarrow> mm_heap list" where
  "pool_heaps Pool_System_Runtime mm = mm_system_runtime mm"
| "pool_heaps Pool_Runtime mm = mm_runtime mm"
| "pool_heaps Pool_Runtime_Shared mm = mm_runtime_shared mm"
| "pool_heaps Pool_Buffer mm = mm_buffer mm"

fun set_pool_heap :: "pool \<Rightarrow> nat \<Rightarrow> mm_heap \<Rightarrow> mm \<Rightarrow> mm" where
  "set_pool_heap Pool_System_Runtime i h mm = mm\<lparr>mm_system_runtime := (mm_system_runtime mm)[i := h]\<rparr>"
| "set_pool_heap Pool_Runtime i h mm = mm\<lparr>mm_runtime := (mm_runtime mm)[i := h]\<rparr>"
| "set_pool_heap Pool_Runtime_Shared i h mm = mm\<lparr>mm_runtime_shared := (mm_runtime_shared mm)[i := h]\<rparr>"
| "set_pool_heap Pool_Buffer i h mm = mm\<lparr>mm_buffer := (mm_buffer mm)[i := h]\<rparr>"

section \<open>Sizes and initialisation\<close>

text \<open>\<open>sizeof\<close> of the map and heap structures are parameters of the size computations.\<close>

definition block_get_size :: "int \<Rightarrow> int \<Rightarrow> block_map \<Rightarrow> int" where
  "block_get_size sizeof_map sizeof_hdr mp =
     u32 (sizeof_map + map_count mp * (block_size mp + sizeof_hdr))"

definition heap_get_size :: "int \<Rightarrow> int \<Rightarrow> int \<Rightarrow> mm_heap \<Rightarrow> int" where
  "heap_get_size sizeof_heap sizeof_map sizeof_hdr heap =
     fold (\<lambda>m sz. u32 (sz + block_get_size sizeof_map sizeof_hdr m)) (hp_map heap) (u32 sizeof_heap)"

fun set_bases :: "addr \<Rightarrow> block_map list \<Rightarrow> block_map list" where
  "set_bases b [] = []"
| "set_bases b (m # ms) = m\<lparr>base := b\<rparr> # set_bases (u32 (b + block_size m * map_count m)) ms"

definition init_heap_map :: "mm_heap list \<Rightarrow> mm_heap list" where
  "init_heap_map heaps = map (\<lambda>h. h\<lparr>hp_map := set_bases (hp_heap h) (hp_map h)\<rparr>) heaps"

text \<open>\<open>init_heap\<close>: \<open>system_heap_start\<close> is the linker symbol of the image.\<close>

definition init_heap :: "plat \<Rightarrow> addr \<Rightarrow> mm \<Rightarrow> mm option" where
  "init_heap plat system_heap_start mm =
     (if hp_heap (mm_system mm ! 0) \<noteq> system_heap_start then None
      else Some (mm\<lparr>mm_system_runtime := init_heap_map (mm_system_runtime mm),
                    mm_runtime := init_heap_map (mm_runtime mm),
                    mm_runtime_shared :=
                      (if multi_core plat then init_heap_map (mm_runtime_shared mm)
                       else mm_runtime_shared mm),
                    mm_buffer := init_heap_map (mm_buffer mm)\<rparr>))"

section \<open>Alignment\<close>

definition align_ptr :: "int \<Rightarrow> addr \<Rightarrow> block_hdr \<Rightarrow> addr \<times> block_hdr" where
  "align_ptr alignment ptr hdr =
     (if alignment \<le> 1 then ptr else ALIGN_UP ptr alignment, hdr\<lparr>unaligned_ptr := ptr\<rparr>)"

section \<open>System heap\<close>

definition rmalloc_sys :: "plat \<Rightarrow> mm_heap \<Rightarrow> int \<Rightarrow> int \<Rightarrow> (addr \<times> mm_heap) option" where
  "rmalloc_sys plat heap caps bytes =
     (if hp_caps heap AND caps \<noteq> caps then None
      else
        let r = info_used heap mod dcache_align plat;
            alignment = (if r \<noteq> 0 then dcache_align plat - r else 0)
        in if u32 (alignment + bytes) > info_free heap then None
           else
             let used1 = u32 (info_used heap + alignment);
                 ptr = u32 (hp_heap heap + used1)
             in Some (ptr, heap\<lparr>info_used := u32 (used1 + bytes),
                                info_free := u32 (info_free heap - (alignment + bytes))\<rparr>))"

section \<open>Single blocks\<close>

text \<open>The first block at or after a position whose header is not used.\<close>

fun scan_free :: "block_hdr list \<Rightarrow> int \<Rightarrow> int option" where
  "scan_free [] i = None"
| "scan_free (h # hs) i = (if hdr_used h = 0 then Some i else scan_free hs (i + 1))"

definition blocks_from :: "block_map \<Rightarrow> int \<Rightarrow> block_hdr list" where
  "blocks_from mp i = drop (nat i) (take (nat (map_count mp)) (block mp))"

definition set_map :: "mm_heap \<Rightarrow> nat \<Rightarrow> block_map \<Rightarrow> mm_heap" where
  "set_map heap level mp = heap\<lparr>hp_map := (hp_map heap)[level := mp]\<rparr>"

definition take_block :: "block_map \<Rightarrow> int \<Rightarrow> int \<Rightarrow> addr \<times> block_map" where
  "take_block mp alignment index =
     (let index = (if index < 0 then first_free mp else index);
          ptr0 = u32 (base mp + index * block_size mp);
          (ptr, hdr) = align_ptr alignment ptr0 (block mp ! nat index);
          mp1 = mp\<lparr>free_count := u16 (free_count mp - 1),
                     block := (block mp)[nat index := hdr\<lparr>hdr_size := 1, hdr_used := 1\<rparr>]\<rparr>;
          mp2 = (if index = first_free mp1
                  then (case scan_free (blocks_from mp1 (first_free mp1)) (first_free mp1) of
                          Some i \<Rightarrow> mp1\<lparr>first_free := i\<rparr>
                        | None \<Rightarrow> mp1)
                  else mp1)
      in (ptr, mp2))"

definition alloc_block_index :: "mm_heap \<Rightarrow> nat \<Rightarrow> int \<Rightarrow> int \<Rightarrow> addr \<times> mm_heap" where
  "alloc_block_index heap level alignment index =
     (let mp = hp_map heap ! level;
          (ptr, mp') = take_block mp alignment index
      in (ptr, (set_map heap level mp')
                 \<lparr>info_used := u32 (info_used heap + block_size mp),
                  info_free := u32 (info_free heap - block_size mp)\<rparr>))"

definition alloc_block :: "mm_heap \<Rightarrow> nat \<Rightarrow> int \<Rightarrow> addr \<times> mm_heap" where
  "alloc_block heap level alignment = alloc_block_index heap level alignment (- 1)"

section \<open>Contiguous blocks\<close>

text \<open>The local variables of the search loop of \<open>alloc_cont_blocks\<close>.\<close>

record cont_search =
  cs_count :: int
  cs_start :: int
  cs_blk_start :: addr
  cs_aligned :: addr
  cs_found :: int
  cs_total :: int

definition cont_step :: "block_map \<Rightarrow> int \<Rightarrow> int \<Rightarrow> block_hdr \<Rightarrow> int \<Rightarrow> cont_search \<Rightarrow> cont_search" where
  "cont_step mp bytes alignment hdr current s =
     (if hdr_used hdr \<noteq> 0 then s\<lparr>cs_found := 0, cs_count := 0, cs_total := bytes\<rparr>
      else if cs_found s = 0 then
        (let blk_start = u32 (base mp + current * block_size mp);
             s1 = s\<lparr>cs_blk_start := blk_start, cs_start := current\<rparr>
         in if alignment \<noteq> 0 then
              (let aligned = ALIGN_UP blk_start alignment;
                   s2 = s1\<lparr>cs_aligned := aligned\<rparr>
               in if blk_start AND (alignment - 1) \<noteq> 0 \<and> aligned \<ge> u32 (blk_start + block_size mp)
                  then s2
                  else s2\<lparr>cs_total := u32 (cs_total s2 + (aligned - blk_start)),
                          cs_count := cs_count s2 + 1,
                          cs_found := u32 (cs_found s2 + block_size mp)\<rparr>)
            else s1\<lparr>cs_aligned := blk_start, cs_count := cs_count s1 + 1,
                    cs_found := u32 (cs_found s1 + block_size mp)\<rparr>)
      else s\<lparr>cs_count := cs_count s + 1, cs_found := u32 (cs_found s + block_size mp)\<rparr>)"

fun cont_scan :: "block_map \<Rightarrow> int \<Rightarrow> int \<Rightarrow> block_hdr list \<Rightarrow> int \<Rightarrow> cont_search \<Rightarrow> cont_search" where
  "cont_scan mp bytes alignment [] current s = s"
| "cont_scan mp bytes alignment (hdr # hdrs) current s =
     (if \<not> cs_found s < cs_total s then s
      else cont_scan mp bytes alignment hdrs (current + 1) (cont_step mp bytes alignment hdr current s))"

text \<open>The first position from \<open>i\<close> on whose block is free, or the position past the map.\<close>

fun skip_used :: "block_hdr list \<Rightarrow> int \<Rightarrow> int" where
  "skip_used [] i = i"
| "skip_used (h # hs) i = (if hdr_used h \<noteq> 0 then skip_used hs (i + 1) else i)"

definition mark_blocks :: "addr \<Rightarrow> nat \<Rightarrow> nat \<Rightarrow> block_hdr list \<Rightarrow> block_hdr list" where
  "mark_blocks uptr start n bs =
     fold (\<lambda>i bs. bs[i := (bs ! i)\<lparr>hdr_used := 1, unaligned_ptr := uptr\<rparr>]) [start..<start + n] bs"

definition take_cont_blocks :: "block_map \<Rightarrow> int \<Rightarrow> int \<Rightarrow> (addr \<times> int \<times> block_map) option" where
  "take_cont_blocks mp bytes alignment =
     (if u32 ((map_count mp - first_free mp) * block_size mp) < bytes then None
      else
        let s = cont_scan mp bytes alignment (blocks_from mp (first_free mp)) (first_free mp)
                  \<lparr>cs_count = 0, cs_start = 0, cs_blk_start = 0, cs_aligned = 0,
                   cs_found = 0, cs_total = bytes\<rparr>
        in if cs_found s < cs_total s then None
           else
             let start = cs_start s; n = cs_count s;
                 bs1 = (block mp)[nat start := (block mp ! nat start)\<lparr>hdr_size := u16 n\<rparr>];
                 ff = (if first_free mp = start
                       then u16 (skip_used (blocks_from mp (first_free mp + n)) (first_free mp + n))
                       else first_free mp)
             in Some (cs_aligned s, n,
                  mp\<lparr>free_count := u16 (free_count mp - n), first_free := ff,
                     block := mark_blocks (cs_blk_start s) (nat start) (nat n) bs1\<rparr>))"

definition alloc_cont_blocks :: "mm_heap \<Rightarrow> nat \<Rightarrow> int \<Rightarrow> int \<Rightarrow> addr \<times> mm_heap" where
  "alloc_cont_blocks heap level bytes alignment =
     (let mp = hp_map heap ! level
      in case take_cont_blocks mp bytes alignment of
           None \<Rightarrow> (0, heap)
         | Some (ptr, n, mp') \<Rightarrow>
             (ptr, (set_map heap level mp')
                     \<lparr>info_used := u32 (info_used heap + n * block_size mp),
                      info_free := u32 (info_free heap - n * block_size mp)\<rparr>))"

section \<open>Choosing a heap\<close>

fun find_in_heap_arr :: "mm_heap list \<Rightarrow> addr \<Rightarrow> nat option" where
  "find_in_heap_arr [] ptr = None"
| "find_in_heap_arr (h # hs) ptr =
     (if ptr \<ge> hp_heap h \<and> ptr < u32 (hp_heap h + hp_size h) then Some 0
      else map_option Suc (find_in_heap_arr hs ptr))"

definition get_heap_from_ptr :: "plat \<Rightarrow> mm \<Rightarrow> addr \<Rightarrow> (pool \<times> nat) option" where
  "get_heap_from_ptr plat mm ptr =
     (case find_in_heap_arr [mm_system_runtime mm ! cpu_id plat] ptr of
        Some _ \<Rightarrow> Some (Pool_System_Runtime, cpu_id plat)
      | None \<Rightarrow>
        case find_in_heap_arr (mm_runtime mm) ptr of
          Some i \<Rightarrow> Some (Pool_Runtime, i)
        | None \<Rightarrow>
          case (if multi_core plat then find_in_heap_arr (mm_runtime_shared mm) ptr else None) of
            Some i \<Rightarrow> Some (Pool_Runtime_Shared, i)
          | None \<Rightarrow> map_option (Pair Pool_Buffer) (find_in_heap_arr (mm_buffer mm) ptr))"

fun get_heap_from_caps :: "mm_heap list \<Rightarrow> int \<Rightarrow> nat option" where
  "get_heap_from_caps [] caps = None"
| "get_heap_from_caps (h # hs) caps =
     (if hp_caps h AND caps = caps then Some 0 else map_option Suc (get_heap_from_caps hs caps))"

section \<open>Allocation from a heap\<close>

text \<open>
  The loop of \<open>get_ptr_from_heap\<close> over the maps; \<open>temp_bytes\<close> is reset to \<open>bytes\<close> on every
  \<open>continue\<close>. The result is the level of the map to allocate from.
\<close>

fun ptr_level :: "block_map list \<Rightarrow> nat \<Rightarrow> int \<Rightarrow> int \<Rightarrow> nat option" where
  "ptr_level [] i bytes alignment = None"
| "ptr_level (mp # mps) i bytes alignment =
     (let temp_bytes =
            (if alignment \<noteq> 0 \<and> u32 (base mp + block_size mp * first_free mp) mod alignment \<noteq> 0
             then s32 (bytes + alignment) else bytes)
      in if block_size mp < temp_bytes then ptr_level mps (Suc i) bytes alignment
         else if free_count mp = 0 then ptr_level mps (Suc i) bytes alignment
         else Some i)"

definition get_ptr_from_heap :: "mm_heap \<Rightarrow> int \<Rightarrow> int \<Rightarrow> (addr \<times> mm_heap) option" where
  "get_ptr_from_heap heap bytes alignment =
     (if alignment AND (alignment - 1) \<noteq> 0 then None
      else case ptr_level (hp_map heap) 0 (s32 bytes) alignment of
             None \<Rightarrow> Some (0, heap)
           | Some i \<Rightarrow> Some (alloc_block heap i alignment))"

text \<open>The inner loop of \<open>alloc_heap_buffer\<close>: a free block that holds the aligned request.\<close>

fun fit_block :: "block_map \<Rightarrow> int \<Rightarrow> int \<Rightarrow> block_hdr list \<Rightarrow> int \<Rightarrow> int option" where
  "fit_block mp bytes alignment [] j = None"
| "fit_block mp bytes alignment (hdr # hdrs) j =
     (let free_start = u32 (base mp + block_size mp * j);
          aligned = ALIGN_UP free_start alignment
      in if hdr_used hdr \<noteq> 0 then fit_block mp bytes alignment hdrs (j + 1)
         else if u32 (aligned + bytes) > u32 (free_start + block_size mp)
           then fit_block mp bytes alignment hdrs (j + 1)
         else Some j)"

fun single_level :: "block_map list \<Rightarrow> nat \<Rightarrow> int \<Rightarrow> int \<Rightarrow> (nat \<times> int) option" where
  "single_level [] i bytes alignment = None"
| "single_level (mp # mps) i bytes alignment =
     (if block_size mp < bytes \<or> free_count mp = 0 then single_level mps (Suc i) bytes alignment
      else if alignment \<le> 1 then Some (i, - 1)
      else case fit_block mp bytes alignment (blocks_from mp (first_free mp)) (first_free mp) of
             Some j \<Rightarrow> Some (i, j)
           | None \<Rightarrow> single_level mps (Suc i) bytes alignment)"

text \<open>The second loop walks the maps from the last to the first.\<close>

fun cont_levels :: "mm_heap \<Rightarrow> nat list \<Rightarrow> int \<Rightarrow> int \<Rightarrow> addr \<times> mm_heap" where
  "cont_levels heap [] bytes alignment = (0, heap)"
| "cont_levels heap (i # is) bytes alignment =
     (if block_size (hp_map heap ! i) < bytes then
        (case alloc_cont_blocks heap i bytes alignment of
           (ptr, heap') \<Rightarrow> if ptr \<noteq> 0 then (ptr, heap') else cont_levels heap' is bytes alignment)
      else cont_levels heap is bytes alignment)"

definition alloc_heap_buffer :: "mm_heap \<Rightarrow> int \<Rightarrow> int \<Rightarrow> (addr \<times> mm_heap) option" where
  "alloc_heap_buffer heap bytes alignment =
     (if alignment AND (alignment - 1) \<noteq> 0 then None
      else
        let (ptr, heap1) =
              (case single_level (hp_map heap) 0 bytes alignment of
                 Some (i, j) \<Rightarrow> alloc_block_index heap i alignment j
               | None \<Rightarrow> (0, heap))
        in if ptr \<noteq> 0 then Some (ptr, heap1)
           else
             let bytes' = u32 (bytes + alignment)
             in if hp_size heap1 < bytes' then Some (0, heap1)
                else Some (cont_levels heap1 (rev [0..<length (hp_map heap1)]) bytes' alignment))"

section \<open>Freeing\<close>

text \<open>The first map whose end lies above the pointer.\<close>

fun map_of_ptr :: "block_map list \<Rightarrow> nat \<Rightarrow> addr \<Rightarrow> nat option" where
  "map_of_ptr [] i ptr = None"
| "map_of_ptr (mp # mps) i ptr =
     (if ptr < u32 (base mp + block_size mp * map_count mp) then Some i
      else map_of_ptr mps (Suc i) ptr)"

definition clear_blocks :: "nat \<Rightarrow> nat \<Rightarrow> block_hdr list \<Rightarrow> block_hdr list" where
  "clear_blocks start n bs =
     fold (\<lambda>i bs. bs[i := \<lparr>hdr_size = 0, hdr_used = 0, unaligned_ptr = 0\<rparr>]) [start..<start + n] bs"

text \<open>
  The part of \<open>free_block\<close> on one map: the header of the block under the pointer, or of the
  block its saved unaligned pointer names. The result is the number of blocks freed and the
  updated map; a pointer that is not the start of a block panics.
\<close>

definition release_blocks :: "block_map \<Rightarrow> addr \<Rightarrow> (int \<times> block_map) option" where
  "release_blocks mp free_ptr =
     (let blk = u32 (free_ptr - base mp) div block_size mp;
          up = unaligned_ptr (block mp ! nat blk);
          (free_ptr, blk) =
            (if up \<noteq> free_ptr \<and> up \<noteq> 0
             then (up, u32 (up - base mp) div block_size mp) else (free_ptr, blk))
      in if u32 (base mp + block_size mp * blk) \<noteq> free_ptr then None
         else
           let n = hdr_size (block mp ! nat blk);
               heap_is_full = (free_count mp = 0);
               mp1 = mp\<lparr>block := clear_blocks (nat blk) (nat n) (block mp),
                        free_count := u16 (free_count mp + n)\<rparr>
           in Some (n, if blk < first_free mp1 \<or> heap_is_full
                       then mp1\<lparr>first_free := u16 blk\<rparr> else mp1))"

definition free_in_heap :: "mm_heap \<Rightarrow> addr \<Rightarrow> mm_heap option" where
  "free_in_heap heap free_ptr =
     (case map_of_ptr (hp_map heap) 0 free_ptr of
        None \<Rightarrow> Some heap
      | Some level \<Rightarrow>
          do { (n, mp') \<leftarrow> release_blocks (hp_map heap ! level) free_ptr;
               let bs = n * block_size (hp_map heap ! level);
               Some ((set_map heap level mp')\<lparr>info_used := u32 (info_used heap - bs),
                                              info_free := u32 (info_free heap + bs)\<rparr>) })"

definition free_block :: "plat \<Rightarrow> mm \<Rightarrow> addr \<Rightarrow> mm option" where
  "free_block plat mm ptr =
     (let cached_ptr = uncache_to_cache plat ptr;
          uncached_ptr = cache_to_uncache plat ptr
      in case get_heap_from_ptr plat mm cached_ptr of
           Some (pl, i) \<Rightarrow>
             map_option (\<lambda>h. set_pool_heap pl i h mm) (free_in_heap (pool_heaps pl mm ! i) cached_ptr)
         | None \<Rightarrow>
             case get_heap_from_ptr plat mm uncached_ptr of
               None \<Rightarrow> Some mm
             | Some (pl, i) \<Rightarrow>
                 map_option (\<lambda>h. set_pool_heap pl i h mm)
                   (free_in_heap (pool_heaps pl mm ! i) uncached_ptr))"

definition rfree_unlocked :: "plat \<Rightarrow> mm \<Rightarrow> addr \<Rightarrow> mm option" where
  "rfree_unlocked plat mm ptr =
     (if ptr = 0 then Some mm
      else
        let ptr = rfree_prepare plat ptr;
            heap = (if multi_core plat
                    then (if is_uncached plat ptr then mm_system_shared mm ! 0
                          else mm_system mm ! cpu_id plat)
                    else mm_system mm ! 0)
        in if ptr \<ge> hp_heap heap \<and> ptr < hp_heap heap + hp_size heap then None
           else do { mm' \<leftarrow> free_block plat mm ptr; Some (mm'\<lparr>heap_trace_updated := 1\<rparr>) })"

definition rfree :: "plat \<Rightarrow> mm \<Rightarrow> addr \<Rightarrow> mm option" where
  "rfree plat mm ptr = rfree_unlocked plat mm ptr"

section \<open>Allocation interface\<close>

definition heap_trace_all :: "int \<Rightarrow> mm \<Rightarrow> mm" where
  "heap_trace_all force mm = mm\<lparr>heap_trace_updated := 0\<rparr>"

definition DEBUG_TRACE_PTR :: "plat \<Rightarrow> addr \<Rightarrow> mm \<Rightarrow> mm" where
  "DEBUG_TRACE_PTR plat ptr mm = (if trace_on plat \<and> ptr = 0 then heap_trace_all 0 mm else mm)"

definition rmalloc_sys_runtime :: "plat \<Rightarrow> mm \<Rightarrow> int \<Rightarrow> nat \<Rightarrow> int \<Rightarrow> (addr \<times> mm) option" where
  "rmalloc_sys_runtime plat mm caps core bytes =
     (let cpu_heap = mm_system_runtime mm ! core
      in if hp_caps cpu_heap AND caps \<noteq> caps then None
         else do { (ptr, h) \<leftarrow> get_ptr_from_heap cpu_heap bytes (dcache_align plat);
                   Some (ptr, set_pool_heap Pool_System_Runtime core h mm) })"

definition rmalloc_runtime :: "plat \<Rightarrow> mm \<Rightarrow> int \<Rightarrow> int \<Rightarrow> (addr \<times> mm) option" where
  "rmalloc_runtime plat mm caps bytes =
     (case (case get_heap_from_caps (mm_runtime mm) caps of
              Some i \<Rightarrow> Some (Pool_Runtime, i)
            | None \<Rightarrow> map_option (Pair Pool_Buffer) (get_heap_from_caps (mm_buffer mm) caps)) of
        None \<Rightarrow> Some (0, mm)
      | Some (pl, i) \<Rightarrow>
          do { (ptr, h) \<leftarrow> get_ptr_from_heap (pool_heaps pl mm ! i) bytes (dcache_align plat);
               Some (ptr, set_pool_heap pl i h mm) })"

definition rmalloc_runtime_shared :: "plat \<Rightarrow> mm \<Rightarrow> int \<Rightarrow> int \<Rightarrow> (addr \<times> mm) option" where
  "rmalloc_runtime_shared plat mm caps bytes =
     (case get_heap_from_caps (mm_runtime_shared mm) caps of
        None \<Rightarrow> Some (0, mm)
      | Some i \<Rightarrow>
          do { (ptr, h) \<leftarrow> get_ptr_from_heap (mm_runtime_shared mm ! i) bytes (dcache_align plat);
               Some (ptr, set_pool_heap Pool_Runtime_Shared i h mm) })"

definition malloc_unlocked :: "plat \<Rightarrow> mm \<Rightarrow> mem_zone \<Rightarrow> int \<Rightarrow> int \<Rightarrow> (addr \<times> mm) option" where
  "malloc_unlocked plat mm zone caps bytes =
     do { (ptr, mm') \<leftarrow>
            (case zone of
               SOF_MEM_ZONE_SYS \<Rightarrow>
                 do { (p, h) \<leftarrow> rmalloc_sys plat (mm_system mm ! cpu_id plat) caps bytes;
                      Some (p, mm\<lparr>mm_system := (mm_system mm)[cpu_id plat := h]\<rparr>) }
             | SOF_MEM_ZONE_SYS_RUNTIME \<Rightarrow> rmalloc_sys_runtime plat mm caps (cpu_id plat) bytes
             | SOF_MEM_ZONE_RUNTIME \<Rightarrow> rmalloc_runtime plat mm caps bytes
             | SOF_MEM_ZONE_RUNTIME_SHARED \<Rightarrow>
                 (if multi_core plat then rmalloc_runtime_shared plat mm caps bytes
                  else rmalloc_runtime plat mm caps bytes)
             | SOF_MEM_ZONE_SYS_SHARED \<Rightarrow>
                 (if multi_core plat
                  then do { (p, h) \<leftarrow> rmalloc_sys plat (mm_system_shared mm ! 0) caps bytes;
                            Some (p, mm\<lparr>mm_system_shared := (mm_system_shared mm)[0 := h]\<rparr>) }
                  else do { (p, h) \<leftarrow> rmalloc_sys plat (mm_system mm ! 0) caps bytes;
                            Some (p, mm\<lparr>mm_system := (mm_system mm)[0 := h]\<rparr>) })
             | SOF_MEM_ZONE_BUFFER \<Rightarrow> None);
          Some (ptr, mm'\<lparr>heap_trace_updated := 1\<rparr>) }"

definition rmalloc :: "plat \<Rightarrow> mm \<Rightarrow> mem_zone \<Rightarrow> int \<Rightarrow> int \<Rightarrow> (addr \<times> mm) option" where
  "rmalloc plat mm zone caps bytes =
     do { (ptr, mm') \<leftarrow> malloc_unlocked plat mm zone caps bytes;
          Some (ptr, DEBUG_TRACE_PTR plat ptr mm') }"

definition rzalloc ::
    "plat \<Rightarrow> mm \<Rightarrow> mem \<Rightarrow> mem_zone \<Rightarrow> int \<Rightarrow> int \<Rightarrow> (addr \<times> mm \<times> mem) option" where
  "rzalloc plat mm m zone caps bytes =
     do { (ptr, mm') \<leftarrow> rmalloc plat mm zone caps bytes;
          Some (ptr, mm', if ptr \<noteq> 0 then bzero m ptr bytes else m) }"

definition rzalloc_core_sys :: "plat \<Rightarrow> mm \<Rightarrow> mem \<Rightarrow> nat \<Rightarrow> int \<Rightarrow> (addr \<times> mm \<times> mem) option" where
  "rzalloc_core_sys plat mm m core bytes =
     do { (ptr, h) \<leftarrow> rmalloc_sys plat (mm_system mm ! core) 0 bytes;
          Some (ptr, mm\<lparr>mm_system := (mm_system mm)[core := h]\<rparr>,
                if ptr \<noteq> 0 then bzero m ptr bytes else m) }"

text \<open>
  \<open>_balloc_unlocked\<close>: try each buffer heap with the capabilities in turn. The list is the
  remaining heaps and \<open>i\<close> the index of the first of them in \<open>memmap->buffer\<close>.
\<close>

fun balloc_heaps :: "mm_heap list \<Rightarrow> nat \<Rightarrow> mm \<Rightarrow> int \<Rightarrow> int \<Rightarrow> int \<Rightarrow> (addr \<times> mm) option" where
  "balloc_heaps [] i mm caps bytes alignment = Some (0, mm)"
| "balloc_heaps (h # hs) i mm caps bytes alignment =
     (if hp_caps h AND caps = caps
      then do { (ptr, h') \<leftarrow> alloc_heap_buffer h bytes alignment;
                let mm' = set_pool_heap Pool_Buffer i h' mm;
                if ptr \<noteq> 0 then Some (ptr, mm')
                else balloc_heaps hs (Suc i) mm' caps bytes alignment }
      else balloc_heaps hs (Suc i) mm caps bytes alignment)"

definition balloc_unlocked ::
    "plat \<Rightarrow> mm \<Rightarrow> int \<Rightarrow> int \<Rightarrow> int \<Rightarrow> int \<Rightarrow> (addr \<times> mm) option" where
  "balloc_unlocked plat mm flags caps bytes alignment =
     do { (ptr, mm') \<leftarrow> balloc_heaps (mm_buffer mm) 0 mm caps bytes alignment;
          if ptr = 0 then Some (ptr, mm')
          else if flags AND SOF_MEM_FLAG_COHERENT \<noteq> 0 \<and> multi_core plat
          then Some (cache_to_uncache plat ptr, mm')
          else Some (uncache_to_cache plat ptr, mm') }"

definition rballoc_align ::
    "plat \<Rightarrow> mm \<Rightarrow> int \<Rightarrow> int \<Rightarrow> int \<Rightarrow> int \<Rightarrow> (addr \<times> mm) option" where
  "rballoc_align plat mm flags caps bytes alignment =
     do { (ptr, mm') \<leftarrow> balloc_unlocked plat mm flags caps bytes alignment;
          Some (ptr, DEBUG_TRACE_PTR plat ptr mm') }"

definition rballoc :: "plat \<Rightarrow> mm \<Rightarrow> int \<Rightarrow> int \<Rightarrow> int \<Rightarrow> (addr \<times> mm) option" where
  "rballoc plat mm flags caps bytes = rballoc_align plat mm flags caps bytes (dcache_align plat)"

definition rbrealloc_align ::
    "plat \<Rightarrow> mm \<Rightarrow> mem \<Rightarrow> addr \<Rightarrow> int \<Rightarrow> int \<Rightarrow> int \<Rightarrow> int \<Rightarrow> int \<Rightarrow> (addr \<times> mm \<times> mem) option" where
  "rbrealloc_align plat mm m ptr flags caps bytes old_bytes alignment =
     (if bytes = 0 then Some (0, mm, m)
      else
        do { let copy_bytes = min bytes old_bytes;
             (new_ptr, mm1) \<leftarrow> balloc_unlocked plat mm flags caps bytes alignment;
             let m' = (if new_ptr \<noteq> 0 \<and> ptr \<noteq> 0 \<and> flags AND SOF_MEM_FLAG_NO_COPY = 0
                       then snd (memcpy_s m new_ptr copy_bytes ptr copy_bytes) else m);
             mm2 \<leftarrow> (if new_ptr \<noteq> 0 then rfree_unlocked plat mm1 ptr else Some mm1);
             Some (new_ptr, DEBUG_TRACE_PTR plat ptr mm2, m') })"

definition rbrealloc ::
    "plat \<Rightarrow> mm \<Rightarrow> mem \<Rightarrow> addr \<Rightarrow> int \<Rightarrow> int \<Rightarrow> int \<Rightarrow> int \<Rightarrow> (addr \<times> mm \<times> mem) option" where
  "rbrealloc plat mm m ptr flags caps bytes old_bytes =
     rbrealloc_align plat mm m ptr flags caps bytes old_bytes (dcache_align plat)"

definition free_heap :: "plat \<Rightarrow> mm \<Rightarrow> mem_zone \<Rightarrow> mm option" where
  "free_heap plat mm zone =
     (if cpu_id plat = primary_core plat \<or> zone \<noteq> SOF_MEM_ZONE_SYS then None
      else
        let h = mm_system mm ! cpu_id plat
        in Some (mm\<lparr>mm_system := (mm_system mm)[cpu_id plat :=
                      h\<lparr>info_used := 0, info_free := hp_size h\<rparr>]\<rparr>))"

text \<open>\<open>heap_info\<close> returns the error code and the counters (used, free) it copies out.\<close>

definition heap_info :: "plat \<Rightarrow> mm \<Rightarrow> mem_zone \<Rightarrow> nat \<Rightarrow> int \<times> (int \<times> int) option" where
  "heap_info plat mm zone index =
     (let heaps =
            (case zone of
               SOF_MEM_ZONE_SYS \<Rightarrow> mm_system mm
             | SOF_MEM_ZONE_SYS_RUNTIME \<Rightarrow> mm_system_runtime mm
             | SOF_MEM_ZONE_RUNTIME \<Rightarrow> mm_runtime mm
             | SOF_MEM_ZONE_BUFFER \<Rightarrow> mm_buffer mm
             | SOF_MEM_ZONE_SYS_SHARED \<Rightarrow> (if multi_core plat then mm_system_shared mm else [])
             | SOF_MEM_ZONE_RUNTIME_SHARED \<Rightarrow> (if multi_core plat then mm_runtime_shared mm else []))
      in if index \<ge> length heaps then (- EINVAL, None)
         else (0, Some (info_used (heaps ! index), info_free (heaps ! index))))"

end
