(* ===== verification/Sof_Alloc_Map.thy ===== *)
theory Sof_Alloc_Map
  imports Sof_Alloc
begin

text \<open>
  The invariant of a block map and its preservation by the three operations that change a map:
  taking one block, taking a run of blocks, releasing an allocation. An allocation is an
  extent: a start block and a number of blocks, all of them marked used and carrying the
  address of the start block.
\<close>

section \<open>Counting free blocks\<close>

definition nfree :: "block_hdr list \<Rightarrow> nat" where
  "nfree bs = length (filter (\<lambda>h. hdr_used h = 0) bs)"

lemma nfree_simps [simp]:
  "nfree [] = 0" "nfree (h # bs) = (if hdr_used h = 0 then Suc (nfree bs) else nfree bs)"
  by (simp_all add: nfree_def)

lemma nfree_append: "nfree (as @ bs) = nfree as + nfree bs"
  by (simp add: nfree_def)

lemma nfree_le: "nfree bs \<le> length bs"
  by (simp add: nfree_def)

lemma nfree_update:
  "i < length bs \<Longrightarrow>
   nfree (bs[i := h]) + (if hdr_used (bs ! i) = 0 then 1 else 0) =
   nfree bs + (if hdr_used h = 0 then 1 else 0)"
proof (induction bs arbitrary: i)
  case (Cons b bs)
  show ?case
  proof (cases i)
    case (Suc j)
    then show ?thesis using Cons.IH [of j] Cons.prems by (simp split: if_splits)
  qed simp
qed simp

lemma nfree_0: "nfree bs = 0 \<longleftrightarrow> (\<forall>i < length bs. hdr_used (bs ! i) \<noteq> 0)"
  by (auto simp: nfree_def filter_empty_conv all_set_conv_all_nth)

lemma nfree_pos: "i < length bs \<Longrightarrow> hdr_used (bs ! i) = 0 \<Longrightarrow> 0 < nfree bs"
  using nfree_0 [of bs] by auto

section \<open>Scanning for blocks\<close>

lemma scan_free_Some:
  "scan_free hs i = Some j \<Longrightarrow>
   i \<le> j \<and> nat (j - i) < length hs \<and> hdr_used (hs ! nat (j - i)) = 0 \<and>
   (\<forall>k < nat (j - i). hdr_used (hs ! k) \<noteq> 0)"
proof (induction hs arbitrary: i)
  case (Cons h hs)
  show ?case
  proof (cases "hdr_used h = 0")
    case True
    with Cons.prems show ?thesis by auto
  next
    case False
    with Cons.prems have "scan_free hs (i + 1) = Some j" by simp
    from Cons.IH [OF this] have IH: "i + 1 \<le> j" "nat (j - (i + 1)) < length hs"
        "hdr_used (hs ! nat (j - (i + 1))) = 0" "\<forall>k < nat (j - (i + 1)). hdr_used (hs ! k) \<noteq> 0"
      by auto
    then have "nat (j - i) = Suc (nat (j - (i + 1)))" by linarith
    with IH False show ?thesis by (auto simp: All_less_Suc2)
  qed
qed simp

lemma scan_free_None: "scan_free hs i = None \<Longrightarrow> k < length hs \<Longrightarrow> hdr_used (hs ! k) \<noteq> 0"
proof (induction hs arbitrary: i k)
  case (Cons h hs)
  then show ?case by (cases k) (auto split: if_splits)
qed simp

lemma skip_used_spec:
  "i \<le> skip_used hs i \<and> nat (skip_used hs i - i) \<le> length hs \<and>
   (nat (skip_used hs i - i) < length hs \<longrightarrow> hdr_used (hs ! nat (skip_used hs i - i)) = 0) \<and>
   (\<forall>k < nat (skip_used hs i - i). hdr_used (hs ! k) \<noteq> 0)"
proof (induction hs arbitrary: i)
  case (Cons h hs)
  show ?case
  proof (cases "hdr_used h = 0")
    case True
    then show ?thesis by simp
  next
    case False
    have IH: "i + 1 \<le> skip_used hs (i + 1)" "nat (skip_used hs (i + 1) - (i + 1)) \<le> length hs"
        "nat (skip_used hs (i + 1) - (i + 1)) < length hs \<longrightarrow>
           hdr_used (hs ! nat (skip_used hs (i + 1) - (i + 1))) = 0"
        "\<forall>k < nat (skip_used hs (i + 1) - (i + 1)). hdr_used (hs ! k) \<noteq> 0"
      using Cons.IH [of "i + 1"] by auto
    moreover have "nat (skip_used hs (i + 1) - i) = Suc (nat (skip_used hs (i + 1) - (i + 1)))"
      using IH(1) by linarith
    ultimately show ?thesis using False by (auto simp: All_less_Suc2)
  qed
qed simp

section \<open>The invariant of a map\<close>

definition no_hdr :: block_hdr where
  "no_hdr = \<lparr>hdr_size = 0, hdr_used = 0, unaligned_ptr = 0\<rparr>"

definition blk_addr :: "block_map \<Rightarrow> nat \<Rightarrow> addr" where
  "blk_addr mp i = base mp + int i * block_size mp"

text \<open>
  Sizes fit their C types and the map ends 64 KiB below the top of the address space, so that
  aligning an address up never wraps.
\<close>

definition map_shape :: "block_map \<Rightarrow> bool" where
  "map_shape mp \<longleftrightarrow>
     0 < block_size mp \<and> block_size mp < 65536 \<and> 0 \<le> map_count mp \<and> map_count mp < 65536 \<and>
     0 < base mp \<and> base mp + map_count mp * block_size mp \<le> 4294901760 \<and>
     length (block mp) = nat (map_count mp)"

text \<open>The counters describe the headers: \<open>free_count\<close> counts the free ones, \<open>first_free\<close> is
  the first of them whenever there is one, and a free header is clear.\<close>

definition map_wf :: "block_map \<Rightarrow> bool" where
  "map_wf mp \<longleftrightarrow> map_shape mp \<and>
     free_count mp = int (nfree (block mp)) \<and>
     0 \<le> first_free mp \<and> first_free mp \<le> map_count mp \<and>
     (\<forall>i < nat (first_free mp). hdr_used (block mp ! i) \<noteq> 0) \<and>
     (free_count mp \<noteq> 0 \<longrightarrow>
        first_free mp < map_count mp \<and> hdr_used (block mp ! nat (first_free mp)) = 0) \<and>
     (\<forall>h \<in> set (block mp). hdr_used h = 0 \<longrightarrow> h = no_hdr)"

definition own :: "block_map \<Rightarrow> nat \<Rightarrow> nat \<Rightarrow> bool" where
  "own mp s n \<longleftrightarrow> 0 < n \<and> s + n \<le> length (block mp) \<and>
     (\<forall>i. s \<le> i \<and> i < s + n \<longrightarrow> block mp ! i =
        \<lparr>hdr_size = (if i = s then int n else 0), hdr_used = 1, unaligned_ptr = blk_addr mp s\<rparr>)"

text \<open>Every used block belongs to an extent.\<close>

definition owned :: "block_map \<Rightarrow> bool" where
  "owned mp \<longleftrightarrow> (\<forall>i < length (block mp). hdr_used (block mp ! i) \<noteq> 0 \<longrightarrow>
     (\<exists>s n. own mp s n \<and> s \<le> i \<and> i < s + n))"

definition map_inv :: "block_map \<Rightarrow> bool" where
  "map_inv mp \<longleftrightarrow> map_wf mp \<and> owned mp"

lemma blk_addr_inj: "map_shape mp \<Longrightarrow> blk_addr mp s = blk_addr mp t \<longleftrightarrow> s = t"
  by (auto simp: blk_addr_def map_shape_def)

lemma blk_addr_bounds:
  assumes "map_shape mp" "i < length (block mp)"
  shows "0 < blk_addr mp i" "blk_addr mp i + block_size mp \<le> 4294901760"
    "blk_addr mp i + block_size mp \<le> base mp + map_count mp * block_size mp"
proof -
  have "(int i + 1) * block_size mp \<le> map_count mp * block_size mp"
    using assms by (intro mult_right_mono) (auto simp: map_shape_def)
  then show b: "blk_addr mp i + block_size mp \<le> base mp + map_count mp * block_size mp"
    by (simp add: blk_addr_def algebra_simps)
  then show "blk_addr mp i + block_size mp \<le> 4294901760" using assms by (simp add: map_shape_def)
  show "0 < blk_addr mp i" using assms by (simp add: blk_addr_def map_shape_def add_pos_nonneg)
qed

lemma ownD:
  assumes "own mp s n"
  shows "0 < n" "s + n \<le> length (block mp)" "hdr_size (block mp ! s) = int n"
    "s \<le> i \<Longrightarrow> i < s + n \<Longrightarrow> hdr_used (block mp ! i) \<noteq> 0"
    "s \<le> i \<Longrightarrow> i < s + n \<Longrightarrow> unaligned_ptr (block mp ! i) = blk_addr mp s"
  using assms by (auto simp: own_def)

text \<open>Two extents that share a block are the same extent.\<close>

lemma own_unique:
  assumes "map_shape mp" "own mp s n" "own mp t k" "s \<le> i" "i < s + n" "t \<le> i" "i < t + k"
  shows "s = t \<and> n = k"
proof -
  have "blk_addr mp s = blk_addr mp t"
    using ownD(5) [OF assms(2,4,5)] ownD(5) [OF assms(3,6,7)] by simp
  then have "s = t" using assms(1) by (simp add: blk_addr_inj)
  with ownD(3) [OF assms(2)] ownD(3) [OF assms(3)] show ?thesis by simp
qed

section \<open>Taking and returning an extent\<close>

definition same_geometry :: "block_map \<Rightarrow> block_map \<Rightarrow> bool" where
  "same_geometry mp mp' \<longleftrightarrow> block_size mp' = block_size mp \<and> map_count mp' = map_count mp \<and>
     base mp' = base mp \<and> length (block mp') = length (block mp)"

text \<open>\<open>occupied mp mp' s n\<close>: the headers of \<open>mp'\<close> are those of \<open>mp\<close> with the free blocks
  \<open>s, \<dots>, s + n - 1\<close> turned into an allocation.\<close>

definition occupied :: "block_map \<Rightarrow> block_map \<Rightarrow> nat \<Rightarrow> nat \<Rightarrow> bool" where
  "occupied mp mp' s n \<longleftrightarrow> same_geometry mp mp' \<and> 0 < n \<and> s + n \<le> length (block mp) \<and>
     (\<forall>j. s \<le> j \<and> j < s + n \<longrightarrow> hdr_used (block mp ! j) = 0) \<and>
     (\<forall>j < length (block mp). block mp' ! j =
        (if s \<le> j \<and> j < s + n
         then \<lparr>hdr_size = (if j = s then int n else 0), hdr_used = 1, unaligned_ptr = blk_addr mp s\<rparr>
         else block mp ! j))"

lemma same_geometry_simps:
  assumes "same_geometry mp mp'"
  shows "blk_addr mp' = blk_addr mp" "map_shape mp' = map_shape mp"
  using assms by (auto simp: same_geometry_def blk_addr_def map_shape_def fun_eq_iff)

lemma nfree_card: "nfree bs = card {i. i < length bs \<and> hdr_used (bs ! i) = 0}"
  by (simp add: nfree_def length_filter_conv_card)

lemma occupiedD:
  assumes "occupied mp mp' s n"
  shows "same_geometry mp mp'" "length (block mp') = length (block mp)"
    "0 < n" "s + n \<le> length (block mp)"
    "s \<le> j \<Longrightarrow> j < s + n \<Longrightarrow> hdr_used (block mp ! j) = 0"
    "s \<le> j \<Longrightarrow> j < s + n \<Longrightarrow> block mp' ! j =
       \<lparr>hdr_size = (if j = s then int n else 0), hdr_used = 1, unaligned_ptr = blk_addr mp s\<rparr>"
    "j < length (block mp) \<Longrightarrow> \<not> (s \<le> j \<and> j < s + n) \<Longrightarrow> block mp' ! j = block mp ! j"
  using assms unfolding occupied_def same_geometry_def by auto

lemma occupied_used:
  assumes "occupied mp mp' s n" "i < length (block mp)"
  shows "hdr_used (block mp' ! i) \<noteq> 0 \<longleftrightarrow>
    hdr_used (block mp ! i) \<noteq> 0 \<or> (s \<le> i \<and> i < s + n)"
  using occupiedD(5-7) [OF assms(1), of i] assms(2) by (cases "s \<le> i \<and> i < s + n") auto

lemma occupied_nfree:
  assumes "occupied mp mp' s n"
  shows "nfree (block mp) = nfree (block mp') + n"
proof -
  let ?F = "\<lambda>bs. {i. i < length bs \<and> hdr_used (bs ! i) = 0}"
  have "?F (block mp) = ?F (block mp') \<union> {s..<s + n}" and "?F (block mp') \<inter> {s..<s + n} = {}"
    using occupied_used [OF assms] occupiedD [OF assms] by auto
  then show ?thesis by (simp add: nfree_card card_Un_disjoint)
qed

lemma occupied_own:
  assumes "occupied mp mp' s n" "map_shape mp"
  shows "own mp' t k \<longleftrightarrow> own mp t k \<or> (t = s \<and> k = n)"
proof
  assume o: "own mp' t k"
  show "own mp t k \<or> (t = s \<and> k = n)"
  proof (cases "\<exists>i. t \<le> i \<and> i < t + k \<and> s \<le> i \<and> i < s + n")
    case True
    then obtain i where i: "t \<le> i" "i < t + k" "s \<le> i" "i < s + n" by blast
    have "own mp' s n" using occupiedD [OF assms(1)] same_geometry_simps [of mp mp']
      by (auto simp: own_def)
    then show ?thesis
      using own_unique [OF _ o, of s n i] i assms same_geometry_simps [OF occupiedD(1) [OF assms(1)]]
      by simp
  next
    case False
    then have "\<forall>i. t \<le> i \<and> i < t + k \<longrightarrow> block mp' ! i = block mp ! i"
      using assms o by (auto simp: occupied_def own_def same_geometry_def)
    with o assms same_geometry_simps [of mp mp'] show ?thesis
      by (auto simp: own_def occupied_def same_geometry_def)
  qed
next
  assume "own mp t k \<or> (t = s \<and> k = n)"
  then show "own mp' t k"
  proof
    assume o: "own mp t k"
    then have "\<forall>i. t \<le> i \<and> i < t + k \<longrightarrow> block mp' ! i = block mp ! i"
      using assms by (auto simp: occupied_def own_def)
    with o assms same_geometry_simps [of mp mp'] show "own mp' t k"
      by (auto simp: own_def occupied_def same_geometry_def)
  next
    assume "t = s \<and> k = n"
    with assms same_geometry_simps [of mp mp'] show "own mp' t k"
      by (auto simp: own_def occupied_def same_geometry_def)
  qed
qed

lemma occupied_owned:
  assumes "occupied mp mp' s n" "map_shape mp"
  shows "owned mp' \<longleftrightarrow> owned mp"
proof -
  show ?thesis
    unfolding owned_def occupiedD(2) [OF assms(1)]
    using occupied_own [OF assms] occupied_used [OF assms(1)] occupiedD(5) [OF assms(1)] by metis
qed

text \<open>The counters of a well-formed map with a free block are functions of its headers.\<close>

lemma map_wf_unique:
  assumes "map_wf a" "map_wf b" "same_geometry a b" "block a = block b" "nfree (block a) \<noteq> 0"
  shows "a = b"
proof -
  have fc: "free_count a = free_count b" using assms by (simp add: map_wf_def)
  have le: "nat (first_free x) \<le> nat (first_free y)"
    if "map_wf x" "map_wf y" "block x = block y" "nfree (block y) \<noteq> 0" for x y
  proof (rule ccontr)
    assume "\<not> ?thesis"
    then have "nat (first_free y) < nat (first_free x)" by linarith
    then show False using that unfolding map_wf_def by (metis of_nat_eq_0_iff)
  qed
  have "nat (first_free a) = nat (first_free b)"
    using le [of a b] le [of b a] assms by simp
  then have "first_free a = first_free b" using assms by (simp add: map_wf_def eq_nat_nat_iff)
  with fc assms show ?thesis by (simp add: same_geometry_def)
qed

lemma map_wfD:
  assumes "map_wf mp"
  shows "map_shape mp" "free_count mp = int (nfree (block mp))"
    "0 \<le> first_free mp" "first_free mp \<le> map_count mp"
    "i < nat (first_free mp) \<Longrightarrow> hdr_used (block mp ! i) \<noteq> 0"
    "nfree (block mp) \<noteq> 0 \<Longrightarrow> first_free mp < map_count mp"
    "nfree (block mp) \<noteq> 0 \<Longrightarrow> hdr_used (block mp ! nat (first_free mp)) = 0"
    "j < length (block mp) \<Longrightarrow> hdr_used (block mp ! j) = 0 \<Longrightarrow> block mp ! j = no_hdr"
    "length (block mp) = nat (map_count mp)" "0 \<le> map_count mp"
  using assms by (auto simp: map_wf_def map_shape_def)

lemma occupied_wf:
  assumes "map_wf mp" "occupied mp mp' s n" "free_count mp' = free_count mp - int n"
    "0 \<le> first_free mp'" "first_free mp' \<le> map_count mp"
    "\<forall>i < nat (first_free mp'). hdr_used (block mp' ! i) \<noteq> 0"
    "nfree (block mp') \<noteq> 0 \<Longrightarrow>
       first_free mp' < map_count mp \<and> hdr_used (block mp' ! nat (first_free mp')) = 0"
  shows "map_wf mp'"
proof -
  have "h = no_hdr" if h: "h \<in> set (block mp')" "hdr_used h = 0" for h
  proof -
    obtain j where j: "j < length (block mp)" "h = block mp' ! j"
      using h(1) occupiedD(2) [OF assms(2)] unfolding in_set_conv_nth by metis
    then have "h = block mp ! j"
      using that occupied_used [OF assms(2) j(1)] occupiedD(7) [OF assms(2)] by auto
    with j h map_wfD(8) [OF assms(1) j(1)] show ?thesis by simp
  qed
  with assms occupied_nfree [OF assms(2)] occupiedD(1) [OF assms(2)] same_geometry_simps [of mp mp']
  show ?thesis by (auto simp: map_wf_def same_geometry_def)
qed

text \<open>A free block is not below \<open>first_free\<close>.\<close>

lemma first_free_le:
  assumes "map_wf mp" "i < length (block mp)" "hdr_used (block mp ! i) = 0"
  shows "first_free mp \<le> int i"
  using map_wfD(3) [OF assms(1)] map_wfD(5) [OF assms(1), of i] assms(3) by linarith


section \<open>Taking one block\<close>

definition align_to :: "int \<Rightarrow> addr \<Rightarrow> addr" where
  "align_to alignment ptr = (if alignment \<le> 1 then ptr else ALIGN_UP ptr alignment)"

definition taken :: "block_map \<Rightarrow> nat \<Rightarrow> int \<Rightarrow> block_map" where
  "taken mp i ff = mp\<lparr>free_count := free_count mp - 1, first_free := ff,
     block := (block mp)[i := \<lparr>hdr_size = 1, hdr_used = 1, unaligned_ptr = blk_addr mp i\<rparr>]\<rparr>"

definition take_target :: "block_map \<Rightarrow> int \<Rightarrow> int" where
  "take_target mp index = (if index < 0 then first_free mp else index)"

definition next_free :: "block_map \<Rightarrow> nat \<Rightarrow> int" where
  "next_free mp i =
     (if int i = first_free mp
      then (case scan_free (blocks_from (taken mp i (first_free mp)) (first_free mp)) (first_free mp) of
              Some j \<Rightarrow> j | None \<Rightarrow> first_free mp)
      else first_free mp)"

lemma take_block_eq:
  assumes "map_wf mp" "take_target mp index = int i"
    "i < length (block mp)" "hdr_used (block mp ! i) = 0"
  shows "take_block mp alignment index =
    (align_to alignment (blk_addr mp i), taken mp i (next_free mp i))"
proof -
  note shape = map_wfD(1) [OF assms(1)]
  have "0 < nfree (block mp)" using nfree_pos assms by blast
  moreover have "int (nfree (block mp)) < 65536"
    using nfree_le [of "block mp"] shape unfolding map_shape_def by linarith
  ultimately have fc: "u16 (free_count mp - 1) = free_count mp - 1"
    using map_wfD(2) [OF assms(1)] by (simp add: u16_id)
  have ptr: "u32 (base mp + int i * block_size mp) = blk_addr mp i"
    using blk_addr_bounds [OF shape assms(3)] shape
    by (simp add: u32_id blk_addr_def map_shape_def)
  have hdr: "h\<lparr>unaligned_ptr := p, hdr_size := 1, hdr_used := 1\<rparr> =
      \<lparr>hdr_size = 1, hdr_used = 1, unaligned_ptr = p\<rparr>" for h :: block_hdr and p
    by (cases h) simp
  show ?thesis
  proof (cases "first_free mp = int i")
    case True
    then show ?thesis
      unfolding take_block_def take_target_def [symmetric] assms(2)
      by (simp add: fc ptr hdr align_ptr_def align_to_def taken_def next_free_def blocks_from_def
          Let_def split: option.split)
  next
    case False
    then show ?thesis
      unfolding take_block_def take_target_def [symmetric] assms(2)
      by (simp add: fc ptr hdr align_ptr_def align_to_def taken_def next_free_def Let_def)
  qed
qed

lemma taken_occupied:
  assumes "i < length (block mp)" "hdr_used (block mp ! i) = 0"
  shows "occupied mp (taken mp i f) i 1"
  using assms
  by (auto simp: occupied_def same_geometry_def taken_def blk_addr_def nth_list_update less_Suc_eq
      dest: le_antisym)

lemma blocks_from_nth:
  assumes "map_shape mp" "0 \<le> f" "k < length (blocks_from mp f)"
  shows "blocks_from mp f ! k = block mp ! (nat f + k)" "nat f + k < length (block mp)"
  using assms by (auto simp: blocks_from_def map_shape_def)

lemma length_blocks_from:
  "map_shape mp \<Longrightarrow> length (blocks_from mp f) = length (block mp) - nat f"
  by (auto simp: blocks_from_def map_shape_def)

lemma taken_wf:
  assumes "map_wf mp" "i < length (block mp)" "hdr_used (block mp ! i) = 0"
  shows "map_wf (taken mp i (next_free mp i))"
proof -
  let ?mp' = "taken mp i (next_free mp i)"
  note occ = taken_occupied [OF assms(2,3), of "next_free mp i"]
  note wf = map_wfD [OF assms(1)]
  have len: "length (block ?mp') = length (block mp)" by (simp add: taken_def)
  have keep: "hdr_used (block ?mp' ! k) \<noteq> 0 \<longleftrightarrow> hdr_used (block mp ! k) \<noteq> 0 \<or> k = i"
    if "k < length (block mp)" for k
    using occupied_used [OF occ that] by auto
  show ?thesis
  proof (cases "int i = first_free mp")
    case False
    then have "next_free mp i = first_free mp" by (simp add: next_free_def)
    moreover have "0 < nfree (block mp)" using nfree_pos assms by blast
    ultimately show ?thesis
      using assms wf False keep by (intro occupied_wf [OF assms(1) occ]) (auto simp: taken_def nth_list_update)
  next
    case True
    define hs where "hs = blocks_from (taken mp i (first_free mp)) (first_free mp)"
    have hs: "length hs = length (block mp) - i" "k < length hs \<Longrightarrow> hs ! k = block ?mp' ! (i + k)" for k
      using wf(9) by (auto simp: hs_def blocks_from_def taken_def True [symmetric])
    show ?thesis
    proof (cases "scan_free hs (first_free mp)")
      case None
      have "hdr_used (block ?mp' ! k) \<noteq> 0" if "k < length (block mp)" for k
      proof (cases "k < i")
        case True
        then show ?thesis using that keep [OF that] wf(5) [of k] \<open>int i = first_free mp\<close> by simp
      next
        case False
        then show ?thesis using that scan_free_None [OF None, of "k - i"] hs by simp
      qed
      then have "nfree (block ?mp') = 0" unfolding nfree_0 len by blast
      moreover have "next_free mp i = int i" using None True by (simp add: next_free_def hs_def)
      ultimately show ?thesis
        using wf True keep assms(2) by (intro occupied_wf [OF assms(1) occ]) (auto simp: taken_def)
    next
      case (Some j)
      then have nf: "next_free mp i = j" using True by (simp add: next_free_def hs_def)
      note sc = scan_free_Some [OF Some, folded True]
      have used: "hdr_used (block ?mp' ! k) \<noteq> 0" if "k < nat j" for k
      proof (cases "k < i")
        case True
        then show ?thesis using keep [of k] wf(5) [of k] assms(2) \<open>int i = first_free mp\<close> by simp
      next
        case False
        then have "hdr_used (hs ! (k - i)) \<noteq> 0" "k - i < length hs"
          using that sc by (auto simp: hs)
        then show ?thesis using False hs(2) [of "k - i"] by simp
      qed
      have "i + nat (j - int i) = nat j" using sc by linarith
      then have "hdr_used (block ?mp' ! nat j) = 0"
        using sc hs(2) [of "nat (j - int i)"] by simp
      moreover have "j < map_count mp" "0 \<le> j" using sc hs(1) wf(9,10) by linarith+
      ultimately show ?thesis
        using used nf by (intro occupied_wf [OF assms(1) occ]) (auto simp: taken_def)
    qed
  qed
qed

section \<open>Releasing an allocation\<close>

lemma length_clear_blocks [simp]: "length (clear_blocks s n bs) = length bs"
  using length_update_range [of "\<lambda>_. no_hdr" s "s + n" bs] by (simp add: clear_blocks_def no_hdr_def)

lemma nth_clear_blocks:
  "j < length bs \<Longrightarrow> clear_blocks s n bs ! j = (if s \<le> j \<and> j < s + n then no_hdr else bs ! j)"
  using nth_update_range [of j bs "\<lambda>_. no_hdr" s "s + n"] by (simp add: clear_blocks_def no_hdr_def)

definition released :: "block_map \<Rightarrow> nat \<Rightarrow> nat \<Rightarrow> block_map" where
  "released mp s n = mp\<lparr>block := clear_blocks s n (block mp), free_count := free_count mp + int n,
     first_free := (if int s < first_free mp \<or> free_count mp = 0 then int s else first_free mp)\<rparr>"

lemma released_occupied:
  assumes "own mp s n"
  shows "occupied (released mp s n) mp s n"
proof -
  let ?mp' = "released mp s n"
  have geo: "same_geometry ?mp' mp" by (simp add: same_geometry_def released_def)
  have nth: "block ?mp' ! j = (if s \<le> j \<and> j < s + n then no_hdr else block mp ! j)"
    if "j < length (block mp)" for j
    using that by (simp add: released_def nth_clear_blocks)
  have len: "length (block ?mp') = length (block mp)" using geo by (simp add: same_geometry_def)
  show ?thesis
    unfolding occupied_def len
  proof (intro conjI allI impI)
    show "same_geometry ?mp' mp" by (rule geo)
    show "0 < n" "s + n \<le> length (block mp)" using ownD [OF assms] by auto
    fix j assume "s \<le> j \<and> j < s + n"
    then show "hdr_used (block ?mp' ! j) = 0"
      using nth [of j] ownD(2) [OF assms] by (simp add: no_hdr_def)
  next
    fix j assume "j < length (block mp)"
    then show "block mp ! j = (if s \<le> j \<and> j < s + n
         then \<lparr>hdr_size = (if j = s then int n else 0), hdr_used = 1, unaligned_ptr = blk_addr ?mp' s\<rparr>
         else block ?mp' ! j)"
      using nth [of j] assms same_geometry_simps(1) [OF geo] by (simp add: own_def)
  qed
qed

lemma released_wf:
  assumes "map_wf mp" "own mp s n"
  shows "map_wf (released mp s n)"
proof -
  let ?mp' = "released mp s n"
  note occ = released_occupied [OF assms(2)] and wf = map_wfD [OF assms(1)]
  have len: "length (block ?mp') = length (block mp)" using occupiedD(2) [OF occ] by simp
  have used: "hdr_used (block ?mp' ! k) \<noteq> 0 \<longleftrightarrow> hdr_used (block mp ! k) \<noteq> 0 \<and> \<not> (s \<le> k \<and> k < s + n)"
    if "k < length (block mp)" for k
    using occupied_used [OF occ, of k] occupiedD(5) [OF occ, of k] that len by auto
  have below: "hdr_used (block ?mp' ! k) \<noteq> 0" if k: "k < nat (first_free ?mp')" for k
  proof -
    have "k < s" "k < length (block mp)"
      using k wf(3,4,9) ownD(2) [OF assms(2)] by (auto simp: released_def split: if_splits)
    moreover from k have "k < nat (first_free mp) \<or> nfree (block mp) = 0"
      using wf(2,3) by (simp add: released_def split: if_splits) linarith+
    then have "hdr_used (block mp ! k) \<noteq> 0"
      using calculation wf(5) [of k] unfolding nfree_0 by blast
    ultimately show ?thesis using used by simp
  qed
  have at: "first_free ?mp' < map_count mp \<and> hdr_used (block ?mp' ! nat (first_free ?mp')) = 0"
  proof (cases "int s < first_free mp \<or> free_count mp = 0")
    case True
    then have "first_free ?mp' = int s" by (simp add: released_def)
    moreover have "s < length (block mp)" using ownD(1,2) [OF assms(2)] by linarith
    ultimately show ?thesis using used [of s] ownD(1) [OF assms(2)] wf(9) by simp
  next
    case False
    then have ff: "first_free ?mp' = first_free mp" "nfree (block mp) \<noteq> 0"
      using wf(2) by (auto simp: released_def)
    then have "nat (first_free mp) < length (block mp)" using wf(3,6,9) by simp
    then show ?thesis using used [of "nat (first_free mp)"] wf(6,7) ff by simp
  qed
  have clear: "h = no_hdr" if "h \<in> set (block ?mp')" "hdr_used h = 0" for h
  proof -
    from that(1) obtain j where "j < length (block mp)" "h = block ?mp' ! j"
      unfolding in_set_conv_nth len by metis
    then show ?thesis using that(2) wf(8) [of j]
      by (simp add: released_def nth_clear_blocks split: if_splits)
  qed
  have "same_geometry ?mp' mp" by (simp add: same_geometry_def released_def)
  then have shape: "map_shape ?mp'" using same_geometry_simps wf(1) by blast
  have "free_count ?mp' = int (nfree (block ?mp'))"
    using occupied_nfree [OF occ] wf(2) by (simp add: released_def)
  moreover have "0 \<le> first_free ?mp'" "map_count ?mp' = map_count mp" using wf(3) by (auto simp: released_def)
  ultimately show ?thesis using shape below at clear by (auto simp: map_wf_def)
qed

lemma block_index:
  assumes "map_shape mp" "i < length (block mp)" "blk_addr mp i \<le> ptr" "ptr < blk_addr mp i + block_size mp"
  shows "u32 (ptr - base mp) div block_size mp = int i"
proof -
  define r where "r = ptr - blk_addr mp i"
  have r: "0 \<le> r" "r < block_size mp" "ptr - base mp = r + int i * block_size mp"
    using assms by (auto simp: r_def blk_addr_def)
  have "0 \<le> int i * block_size mp" using assms(1) by (simp add: map_shape_def)
  then have "u32 (ptr - base mp) = ptr - base mp"
    using blk_addr_bounds(2) [OF assms(1,2)] assms(1,4) r by (intro u32_id) (auto simp: map_shape_def)
  then show ?thesis using r by simp
qed

lemma release_blocks_released:
  assumes "map_wf mp" "own mp s n" "s \<le> i" "i < s + n"
    "blk_addr mp i \<le> ptr" "ptr < blk_addr mp i + block_size mp"
  shows "release_blocks mp ptr = Some (int n, released mp s n)"
proof -
  note wf = map_wfD [OF assms(1)] and own = ownD [OF assms(2)]
  have i: "i < length (block mp)" "s < length (block mp)" using assms(3,4) own(1,2) by auto
  note bs = blk_addr_bounds [OF wf(1) i(2)]
  have up: "unaligned_ptr (block mp ! i) = blk_addr mp s" using own(5) assms(3,4) by blast
  have idx: "u32 (ptr - base mp) div block_size mp = int i"
    by (rule block_index [OF wf(1) i(1) assms(5,6)])
  have start: "u32 (blk_addr mp s - base mp) div block_size mp = int s"
    using wf(1) by (intro block_index [OF wf(1) i(2)]) (auto simp: map_shape_def)
  have eq: "ptr = blk_addr mp s \<Longrightarrow> i = s" using start idx by simp
  have addr: "u32 (base mp + block_size mp * int s) = blk_addr mp s"
    using bs wf(1) by (simp add: u32_id blk_addr_def map_shape_def mult.commute)
  have "nfree (block (released mp s n)) \<le> length (block mp)"
    using nfree_le [of "block (released mp s n)"] occupiedD(2) [OF released_occupied [OF assms(2)]] by simp
  then have fc: "u16 (free_count mp + int n) = free_count mp + int n" "u16 (int s) = int s"
    using occupied_nfree [OF released_occupied [OF assms(2)]] wf(1,2) i(2)
    by (auto simp: u16_id map_shape_def)
  show ?thesis
  proof (cases "ptr = blk_addr mp s")
    case True
    with eq have "i = s" by simp
    then show ?thesis
      unfolding release_blocks_def idx using True up by (simp add: addr own(3) fc Let_def released_def)
  next
    case False
    then show ?thesis
      unfolding release_blocks_def idx using bs(1)
      by (simp add: up start addr own(3) fc Let_def released_def)
  qed
qed

section \<open>Alignment of a block address\<close>

definition align_ok :: "int \<Rightarrow> bool" where
  "align_ok alignment \<longleftrightarrow> alignment = 0 \<or> (\<exists>k \<le> 16. alignment = 2 ^ k)"

lemma align_to_zero: "align_to 0 a = a"
  by (simp add: align_to_def)

lemma align_to_ok:
  assumes "align_ok al" "0 \<le> a" "a \<le> 4294901760"
  shows "a \<le> align_to al a" "al \<noteq> 0 \<Longrightarrow> al dvd align_to al a" "align_to al a < a + 65536"
    "al \<noteq> 0 \<Longrightarrow> ALIGN_UP a al = align_to al a" "al \<noteq> 0 \<Longrightarrow> align_to al a < a + al"
    "al \<noteq> 0 \<Longrightarrow> a AND (al - 1) = 0 \<Longrightarrow> align_to al a = a"
proof -
  have pow: "\<exists>k \<le> 16. al = 2 ^ k" if "al \<noteq> 0" using assms(1) that by (auto simp: align_ok_def)
  have top: "a + 2 ^ k \<le> 4294967296" if "k \<le> 16" for k :: nat
    using assms(3) power_increasing [OF that, of "2 :: int"] by simp
  have eq: "ALIGN_UP a al = align_to al a" if "al \<noteq> 0"
  proof -
    obtain k where k: "k \<le> 16" "al = 2 ^ k" using pow \<open>al \<noteq> 0\<close> by blast
    show ?thesis
    proof (cases "k = 0")
      case True
      then show ?thesis using align_up_aligned [OF assms(2) top [of 0]] k by (simp add: align_to_def)
    next
      case False
      then have "1 < (2 :: int) ^ k" by simp
      then show ?thesis using k by (simp add: align_to_def)
    qed
  qed
  show "al \<noteq> 0 \<Longrightarrow> ALIGN_UP a al = align_to al a" by (rule eq)
  have *: "a \<le> align_to al a \<and> al dvd align_to al a \<and> align_to al a < a + al \<and> al \<le> 65536 \<and>
      (a AND (al - 1) = 0 \<longrightarrow> align_to al a = a)" if "al \<noteq> 0"
  proof -
    obtain k where k: "k \<le> 16" "al = 2 ^ k" using pow \<open>al \<noteq> 0\<close> by blast
    have "(2 :: int) ^ k \<le> 65536" using power_increasing [OF k(1), of "2 :: int"] by simp
    moreover have "ALIGN_UP a (2 ^ k) = align_to al a" using eq that k by simp
    ultimately show ?thesis
      using align_up_bounds [OF assms(2) top [OF k(1)]] align_up_dvd [OF assms(2) top [OF k(1)]]
        align_up_aligned [OF assms(2) top [OF k(1)]] k(2)
      by (auto simp: and_low_bits dvd_eq_mod_eq_0)
  qed
  show "a \<le> align_to al a" using * by (cases "al = 0") (auto simp: align_to_zero)
  show "align_to al a < a + 65536" using * by (cases "al = 0") (auto simp: align_to_zero)
  show "al \<noteq> 0 \<Longrightarrow> al dvd align_to al a" "al \<noteq> 0 \<Longrightarrow> align_to al a < a + al"
    "al \<noteq> 0 \<Longrightarrow> a AND (al - 1) = 0 \<Longrightarrow> align_to al a = a" using * by auto
qed

end
