(* ===== verification/Sof_Extents.thy ===== *)
theory Sof_Extents
  imports Sof_Prelude
begin

text \<open>
  The interface of an allocator that hands out runs of blocks: what a client may rely on,
  whatever the blocks and the way they are searched. An extent \<open>(s, n)\<close> is the blocks
  \<open>s, \<dots>, s + n - 1\<close>; \<open>holds h p e\<close> says that the address \<open>p\<close> lies in the allocated extent \<open>e\<close>.
\<close>

type_synonym extent = "nat \<times> nat"

definition ext_blocks :: "extent \<Rightarrow> nat set" where
  "ext_blocks e = {fst e..<fst e + snd e}"

datatype 'r alloc_req = Get 'r | Put addr

fun run_reqs ::
  "('r \<Rightarrow> 'h \<Rightarrow> (addr \<times> 'h) option) \<Rightarrow> (addr \<Rightarrow> 'h \<Rightarrow> 'h option) \<Rightarrow> 'r alloc_req list \<Rightarrow> 'h \<Rightarrow> 'h option"
where
  "run_reqs get put [] h = Some h"
| "run_reqs get put (Get r # rs) h =
     (case get r h of None \<Rightarrow> run_reqs get put rs h | Some (p, h') \<Rightarrow> run_reqs get put rs h')"
| "run_reqs get put (Put p # rs) h =
     (case put p h of None \<Rightarrow> None | Some h' \<Rightarrow> run_reqs get put rs h')"

text \<open>A disciplined client makes valid requests and frees only addresses it holds.\<close>

fun disciplined ::
  "('r \<Rightarrow> bool) \<Rightarrow> ('h \<Rightarrow> addr \<Rightarrow> extent \<Rightarrow> bool) \<Rightarrow> ('r \<Rightarrow> 'h \<Rightarrow> (addr \<times> 'h) option) \<Rightarrow>
   (addr \<Rightarrow> 'h \<Rightarrow> 'h option) \<Rightarrow> 'r alloc_req list \<Rightarrow> 'h \<Rightarrow> bool"
where
  "disciplined valid holds get put [] h = True"
| "disciplined valid holds get put (Get r # rs) h = (valid r \<and>
     (case get r h of None \<Rightarrow> disciplined valid holds get put rs h
      | Some (p, h') \<Rightarrow> disciplined valid holds get put rs h'))"
| "disciplined valid holds get put (Put p # rs) h = ((\<exists>e. holds h p e) \<and>
     (case put p h of None \<Rightarrow> False | Some h' \<Rightarrow> disciplined valid holds get put rs h'))"

text \<open>Allocate a list of requests, collecting the addresses that were handed out.\<close>

fun get_all :: "('r \<Rightarrow> 'h \<Rightarrow> (addr \<times> 'h) option) \<Rightarrow> 'r list \<Rightarrow> 'h \<Rightarrow> addr list \<times> 'h" where
  "get_all get [] h = ([], h)"
| "get_all get (r # rs) h =
     (case get r h of
        None \<Rightarrow> get_all get rs h
      | Some (p, h') \<Rightarrow> (case get_all get rs h' of (ps, h'') \<Rightarrow> (p # ps, h'')))"

locale block_allocator =
  fixes inv :: "'h \<Rightarrow> bool"
    and holds :: "'h \<Rightarrow> addr \<Rightarrow> extent \<Rightarrow> bool"
    and valid :: "'r \<Rightarrow> bool"
    and get :: "'r \<Rightarrow> 'h \<Rightarrow> (addr \<times> 'h) option"
    and put :: "addr \<Rightarrow> 'h \<Rightarrow> 'h option"
  assumes holds_apart: "inv h \<Longrightarrow> holds h p e \<Longrightarrow> holds h q f \<Longrightarrow> ext_blocks e \<inter> ext_blocks f \<noteq> {} \<Longrightarrow> e = f"
    and get_inv: "inv h \<Longrightarrow> valid r \<Longrightarrow> get r h = Some (p, h') \<Longrightarrow> inv h'"
    and get_holds: "inv h \<Longrightarrow> valid r \<Longrightarrow> get r h = Some (p, h') \<Longrightarrow>
      \<exists>e. (\<forall>q. \<not> holds h q e) \<and> holds h' p e \<and> (\<forall>q f. f \<noteq> e \<longrightarrow> holds h' q f = holds h q f)"
    and put_inv: "inv h \<Longrightarrow> holds h p e \<Longrightarrow> \<exists>h'. put p h = Some h' \<and> inv h' \<and>
      (\<forall>q f. holds h' q f \<longleftrightarrow> holds h q f \<and> f \<noteq> e)"
    and put_get: "inv h \<Longrightarrow> valid r \<Longrightarrow> get r h = Some (p, h') \<Longrightarrow> put p h' = Some h"
begin

text \<open>A disciplined client never reaches the panic of a bad free, and the invariant holds all along.\<close>

lemma run_safe:
  "inv h \<Longrightarrow> disciplined valid holds get put rs h \<Longrightarrow> \<exists>h'. run_reqs get put rs h = Some h' \<and> inv h'"
proof (induction rs arbitrary: h)
  case (Cons r rs)
  then show ?case
    by (cases r) (auto split: option.splits dest: get_inv put_inv)
qed simp

text \<open>A new allocation shares no block with one that is still held.\<close>

lemma get_fresh:
  assumes "inv h" "valid r" "get r h = Some (p, h')"
  shows "\<exists>e. holds h' p e \<and> (\<forall>q f. holds h q f \<longrightarrow> holds h' q f \<and> ext_blocks e \<inter> ext_blocks f = {})"
proof -
  obtain e where e: "\<forall>q. \<not> holds h q e" "holds h' p e" "\<forall>q f. f \<noteq> e \<longrightarrow> holds h' q f = holds h q f"
    using get_holds [OF assms] by blast
  have "holds h' q f \<and> ext_blocks e \<inter> ext_blocks f = {}" if "holds h q f" for q f
    using that e holds_apart [OF get_inv [OF assms], of p e q f] by metis
  with e(2) show ?thesis by blast
qed

text \<open>Freeing in the reverse order of allocation restores the allocator exactly.\<close>

lemma undo_all:
  "inv h \<Longrightarrow> \<forall>r \<in> set rs. valid r \<Longrightarrow> get_all get rs h = (ps, h') \<Longrightarrow>
   run_reqs get put (map Put (rev ps)) h' = Some h"
proof (induction rs arbitrary: h ps h')
  case (Cons r rs)
  have app: "run_reqs get put (as @ bs) x = Option.bind (run_reqs get put as x) (run_reqs get put bs)"
    for as bs x
    by (induction get put as x rule: run_reqs.induct) (auto split: option.splits)
  show ?case
  proof (cases "get r h")
    case None
    then show ?thesis using Cons by simp
  next
    case (Some x)
    then obtain p h1 qs where x: "get r h = Some (p, h1)" "get_all get rs h1 = (qs, h')" "ps = p # qs"
      using Cons.prems by (cases x) (auto split: prod.splits)
    then have "run_reqs get put (map Put (rev qs)) h' = Some h1"
      using Cons.IH [of h1] get_inv [of h r p h1] Cons.prems by simp
    then show ?thesis using x Cons.prems put_get [of h r p h1] by (simp add: app)
  qed
qed simp

end

end
