(* ===== verification/Sof_Alloc_Run.thy ===== *)
theory Sof_Alloc_Run
  imports Sof_Alloc_Map Sof_Extents
begin

text \<open>
  The search of \<open>alloc_cont_blocks\<close> for a run of free blocks: it finds a run exactly when there
  is one, and what it takes is an allocation of the map.
\<close>

section \<open>Searching for a run of blocks\<close>

definition free_run :: "block_map \<Rightarrow> nat \<Rightarrow> nat \<Rightarrow> bool" where
  "free_run mp s e \<longleftrightarrow> (\<forall>j. s \<le> j \<and> j < e \<longrightarrow> hdr_used (block mp ! j) = 0)"

definition pad :: "block_map \<Rightarrow> int \<Rightarrow> nat \<Rightarrow> int" where
  "pad mp alignment s = align_to alignment (blk_addr mp s) - blk_addr mp s"

text \<open>A request fits in the blocks from \<open>s\<close> up to \<open>e\<close> when they are free, the first one contains
  an aligned address and the bytes fit behind that address.\<close>

definition fits :: "block_map \<Rightarrow> int \<Rightarrow> int \<Rightarrow> nat \<Rightarrow> nat \<Rightarrow> bool" where
  "fits mp bytes alignment s e \<longleftrightarrow> s < e \<and> e \<le> length (block mp) \<and> free_run mp s e \<and>
     pad mp alignment s < block_size mp \<and> bytes + pad mp alignment s \<le> int (e - s) * block_size mp"

definition run_at :: "block_map \<Rightarrow> int \<Rightarrow> int \<Rightarrow> nat \<Rightarrow> nat \<Rightarrow> cont_search \<Rightarrow> bool" where
  "run_at mp bytes alignment s c cs \<longleftrightarrow> s < c \<and> free_run mp s c \<and> pad mp alignment s < block_size mp \<and>
     cs_start cs = int s \<and> cs_count cs = int (c - s) \<and> cs_found cs = int (c - s) * block_size mp \<and>
     cs_blk_start cs = blk_addr mp s \<and> cs_aligned cs = align_to alignment (blk_addr mp s) \<and>
     cs_total cs = bytes + pad mp alignment s \<and>
     (\<forall>t < c. free_run mp t c \<and> pad mp alignment t < block_size mp \<longrightarrow> s \<le> t)"

definition no_run :: "block_map \<Rightarrow> int \<Rightarrow> int \<Rightarrow> nat \<Rightarrow> cont_search \<Rightarrow> bool" where
  "no_run mp bytes alignment c cs \<longleftrightarrow> cs_found cs = 0 \<and> cs_count cs = 0 \<and> cs_total cs = bytes \<and>
     (\<forall>t < c. \<not> (free_run mp t c \<and> pad mp alignment t < block_size mp))"

definition scan_inv :: "block_map \<Rightarrow> int \<Rightarrow> int \<Rightarrow> nat \<Rightarrow> cont_search \<Rightarrow> bool" where
  "scan_inv mp bytes alignment c cs \<longleftrightarrow>
     (no_run mp bytes alignment c cs \<or> (\<exists>s. run_at mp bytes alignment s c cs)) \<and>
     (cs_found cs < cs_total cs \<longrightarrow> (\<forall>t e. e \<le> c \<longrightarrow> \<not> fits mp bytes alignment t e))"

lemma free_run_Suc: "t \<le> c \<Longrightarrow> free_run mp t (Suc c) \<longleftrightarrow> free_run mp t c \<and> hdr_used (block mp ! c) = 0"
  by (auto simp: free_run_def less_Suc_eq)

lemma pad_nonneg:
  assumes "map_shape mp" "align_ok al" "s < length (block mp)"
  shows "0 \<le> pad mp al s"
  using align_to_ok(1) [OF assms(2), of "blk_addr mp s"] blk_addr_bounds [OF assms(1,3)] assms(1)
  by (simp add: pad_def map_shape_def)

text \<open>One iteration of the loop, by its three outcomes.\<close>

lemma cont_step_used:
  "hdr_used h \<noteq> 0 \<Longrightarrow>
   cont_step mp bytes al h c s = s\<lparr>cs_found := 0, cs_count := 0, cs_total := bytes\<rparr>"
  by (simp add: cont_step_def)

lemma cont_step_start:
  assumes "map_shape mp" "align_ok al" "c < length (block mp)" "0 \<le> bytes" "bytes \<le> 4294836224"
    "hdr_used h = 0" "cs_found s = 0" "cs_total s = bytes"
  shows "cont_step mp bytes al h (int c) s =
    (if pad mp al c < block_size mp
     then s\<lparr>cs_blk_start := blk_addr mp c, cs_start := int c, cs_aligned := align_to al (blk_addr mp c),
            cs_total := bytes + pad mp al c, cs_count := cs_count s + 1, cs_found := block_size mp\<rparr>
     else s\<lparr>cs_blk_start := blk_addr mp c, cs_start := int c, cs_aligned := align_to al (blk_addr mp c)\<rparr>)"
proof -
  define a where "a = blk_addr mp c"
  have sh: "0 < block_size mp" "block_size mp < 65536" using assms(1) by (auto simp: map_shape_def)
  have a: "0 \<le> a" "a \<le> 4294901760" "u32 (base mp + int c * block_size mp) = a"
      "u32 (a + block_size mp) = a + block_size mp"
    using blk_addr_bounds [OF assms(1,3)] sh by (auto simp: a_def u32_id blk_addr_def [symmetric])
  note al = align_to_ok [OF assms(2) a(1,2)]
  have pd: "pad mp al c = align_to al a - a" by (simp add: pad_def a_def)
  have tot: "u32 (bytes + (align_to al a - a)) = bytes + (align_to al a - a)"
    using al(1,3) assms(4,5) by (intro u32_id) auto
  have sz: "u32 (block_size mp) = block_size mp" using sh by (simp add: u32_id)
  show ?thesis
  proof (cases "al = 0")
    case True
    then have "pad mp al c = 0" using pd by (simp add: align_to_zero)
    with True show ?thesis unfolding cont_step_def
      using assms(6-8) sz sh by (cases s) (simp add: a(3) align_to_zero Let_def a_def [symmetric])
  next
    case False
    have skip: "a AND (al - 1) \<noteq> 0 \<and> align_to al a \<ge> a + block_size mp \<longleftrightarrow> \<not> pad mp al c < block_size mp"
      using al(6) [OF False] sh pd by auto
    show ?thesis unfolding cont_step_def a(3)
      using assms False sz tot skip pd by (simp add: a(4) al(4) Let_def a_def [symmetric])
  qed
qed

lemma cont_step_continue:
  assumes "map_shape mp" "c < length (block mp)" "hdr_used h = 0" "run_at mp bytes al s c cs"
  shows "cont_step mp bytes al h (int c) cs =
    cs\<lparr>cs_count := int (Suc c - s), cs_found := int (Suc c - s) * block_size mp\<rparr>"
proof -
  have sh: "0 < block_size mp" "s < c" "cs_found cs = int (c - s) * block_size mp"
      "cs_count cs = int (c - s)"
    using assms by (auto simp: map_shape_def run_at_def)
  have pos: "0 < int (c - s) * block_size mp" using sh by simp
  have eq: "int (c - s) * block_size mp + block_size mp = int (Suc c - s) * block_size mp"
    using sh(2) by (simp add: algebra_simps of_nat_diff)
  have "int (Suc c - s) * block_size mp \<le> (int c + 1) * block_size mp"
    using sh(1,2) by (intro mult_right_mono) auto
  also have "\<dots> \<le> blk_addr mp c + block_size mp" using assms(1) by (simp add: blk_addr_def map_shape_def algebra_simps)
  finally have "u32 (int (c - s) * block_size mp + block_size mp) = int (Suc c - s) * block_size mp"
    using blk_addr_bounds(2) [OF assms(1,2)] pos sh(1) eq by (simp add: u32_id)
  then show ?thesis using assms(3) sh pos by (simp add: cont_step_def)
qed

text \<open>Once a run has been started, starting later does not help.\<close>

lemma fits_earlier:
  assumes "map_shape mp" "align_ok al" "fits mp bytes al t e" "s \<le> t" "pad mp al s < block_size mp"
  shows "bytes + pad mp al s \<le> int (e - s) * block_size mp"
proof (cases "s = t")
  case True
  then show ?thesis using assms(3) unfolding fits_def by blast
next
  case False
  have te: "t < e" "e \<le> length (block mp)" "bytes + pad mp al t \<le> int (e - t) * block_size mp"
    using assms(3) by (auto simp: fits_def)
  have "(int (e - t) + 1) * block_size mp \<le> int (e - s) * block_size mp"
    using False assms(1,4) te(1) by (intro mult_right_mono) (auto simp: map_shape_def)
  moreover have "0 \<le> pad mp al t" using pad_nonneg assms(1,2) te by simp
  ultimately show ?thesis using te(3) assms(5) by (simp add: algebra_simps)
qed

lemma cont_step_inv_used:
  assumes "hdr_used (block mp ! c) \<noteq> 0" "\<And>t e. e \<le> c \<Longrightarrow> \<not> fits mp bytes al t e"
  shows "scan_inv mp bytes al (Suc c) (cont_step mp bytes al (block mp ! c) (int c) s)"
proof -
  have nf: "\<not> free_run mp t (Suc c)" if "t < Suc c" for t
    using assms(1) that free_run_Suc [of t c mp] by auto
  then have "\<not> fits mp bytes al t e" if "e \<le> Suc c" for t e
    using assms(2) [of e t] that by (cases "e = Suc c") (auto simp: fits_def)
  then show ?thesis using nf by (simp add: scan_inv_def no_run_def cont_step_used [OF assms(1)])
qed

lemma cont_step_inv_idle:
  assumes "map_shape mp" "align_ok al" "c < length (block mp)" "0 < bytes" "bytes \<le> 4294836224"
    "hdr_used (block mp ! c) = 0" "\<And>t e. e \<le> c \<Longrightarrow> \<not> fits mp bytes al t e" "no_run mp bytes al c s"
  shows "scan_inv mp bytes al (Suc c) (cont_step mp bytes al (block mp ! c) (int c) s)"
proof -
  let ?s' = "cont_step mp bytes al (block mp ! c) (int c) s"
  from assms(8) have z: "cs_found s = 0" "cs_total s = bytes" "cs_count s = 0"
    and none: "\<And>t. t < c \<Longrightarrow> \<not> (free_run mp t c \<and> pad mp al t < block_size mp)"
    by (auto simp: no_run_def)
  note step = cont_step_start [OF assms(1-3) less_imp_le [OF assms(4)] assms(5,6) z(1,2)]
  have only: "t = c" if "t < Suc c" "free_run mp t (Suc c)" "pad mp al t < block_size mp" for t
    using none [of t] that by (cases "t = c") (auto simp: free_run_Suc)
  have fit: "pad mp al c < block_size mp \<and> bytes + pad mp al c \<le> block_size mp"
    if "fits mp bytes al t e" "e \<le> Suc c" for t e
  proof -
    have "e = Suc c" using assms(7) [of e t] that by (cases "e = Suc c") auto
    moreover from this have "t = c" using only [of t] that(1) by (auto simp: fits_def)
    ultimately show ?thesis using that(1) by (auto simp: fits_def)
  qed
  show ?thesis
  proof (cases "pad mp al c < block_size mp")
    case True
    then have "run_at mp bytes al c (Suc c) ?s'"
      using only assms(6) z(3) by (auto simp: run_at_def step free_run_def dest: le_antisym)
    then show ?thesis using fit True by (fastforce simp: scan_inv_def step)
  next
    case False
    then have "no_run mp bytes al (Suc c) ?s'"
      using only z by (auto simp: no_run_def step)
    then show ?thesis using fit False by (auto simp: scan_inv_def)
  qed
qed

lemma cont_step_inv_run:
  assumes "map_shape mp" "align_ok al" "c < length (block mp)"
    "hdr_used (block mp ! c) = 0" "\<And>t e. e \<le> c \<Longrightarrow> \<not> fits mp bytes al t e" "run_at mp bytes al st c s"
  shows "scan_inv mp bytes al (Suc c) (cont_step mp bytes al (block mp ! c) (int c) s)"
proof -
  let ?s' = "cont_step mp bytes al (block mp ! c) (int c) s"
  note step = cont_step_continue [OF assms(1,3,4,6)]
  have st: "st < c" "free_run mp st c" "pad mp al st < block_size mp" "cs_total s = bytes + pad mp al st"
    using assms(6) by (auto simp: run_at_def)
  have first: "st \<le> t" if "t < Suc c" "free_run mp t (Suc c)" "pad mp al t < block_size mp" for t
    using assms(6) that st(1) by (cases "t = c") (auto simp: run_at_def free_run_Suc)
  have "free_run mp st (Suc c)" using st assms(4) by (simp add: free_run_Suc)
  then have "run_at mp bytes al st (Suc c) ?s'"
    using assms(6) first st(1) unfolding run_at_def step by simp
  moreover have "bytes + pad mp al st \<le> int (Suc c - st) * block_size mp"
    if f: "fits mp bytes al t e" "e \<le> Suc c" for t e
  proof -
    have e: "e = Suc c" using assms(5) [of e t] f by (cases "e = Suc c") auto
    then have "st \<le> t" using first [of t] f(1) by (auto simp: fits_def)
    then show ?thesis using fits_earlier [OF assms(1,2) f(1) _ st(3)] e by simp
  qed
  then have "cs_found ?s' < cs_total ?s' \<Longrightarrow> e \<le> Suc c \<Longrightarrow> \<not> fits mp bytes al t e" for t e
    using st(4) by (force simp: step)
  ultimately show ?thesis unfolding scan_inv_def by blast
qed

lemma cont_step_inv:
  assumes "map_shape mp" "align_ok al" "c < length (block mp)" "0 < bytes" "bytes \<le> 4294836224"
    "scan_inv mp bytes al c s" "cs_found s < cs_total s"
  shows "scan_inv mp bytes al (Suc c) (cont_step mp bytes al (block mp ! c) (int c) s)"
proof -
  have old: "\<not> fits mp bytes al t e" if "e \<le> c" for t e
    using assms(6,7) that by (auto simp: scan_inv_def)
  consider "hdr_used (block mp ! c) \<noteq> 0" | "hdr_used (block mp ! c) = 0" "no_run mp bytes al c s"
    | st where "hdr_used (block mp ! c) = 0" "run_at mp bytes al st c s"
    using assms(6) by (auto simp: scan_inv_def)
  then show ?thesis
    using cont_step_inv_used cont_step_inv_idle cont_step_inv_run assms old by cases metis+
qed

text \<open>The loop stops with a run that is long enough, or at the end of the map.\<close>

lemma cont_scan_inv:
  assumes "map_shape mp" "align_ok al" "0 < bytes" "bytes \<le> 4294836224"
    "scan_inv mp bytes al c s" "c \<le> length (block mp)"
  shows "\<exists>c'. c' \<le> length (block mp) \<and>
    scan_inv mp bytes al c' (cont_scan mp bytes al (drop c (block mp)) (int c) s) \<and>
    (let s' = cont_scan mp bytes al (drop c (block mp)) (int c) s
     in cs_found s' < cs_total s' \<longrightarrow> c' = length (block mp))"
  using assms(5,6)
proof (induction "length (block mp) - c" arbitrary: c s)
  case 0
  then show ?case by (auto simp: Let_def)
next
  case (Suc n)
  then have c: "c < length (block mp)" by linarith
  then have dr: "drop c (block mp) = block mp ! c # drop (Suc c) (block mp)" by (simp add: Cons_nth_drop_Suc)
  show ?case
  proof (cases "cs_found s < cs_total s")
    case False
    then show ?thesis using Suc.prems dr by (auto simp: Let_def)
  next
    case True
    have "scan_inv mp bytes al (Suc c) (cont_step mp bytes al (block mp ! c) (int c) s)"
      using cont_step_inv assms c Suc.prems True by blast
    from Suc.hyps(1) [OF _ this] Suc.hyps(2) c True show ?thesis by (simp add: dr add.commute)
  qed
qed

section \<open>Taking a run\<close>

text \<open>Taking blocks after the first free one leaves \<open>first_free\<close> alone.\<close>

lemma occupied_later_wf:
  assumes "map_wf mp" "occupied mp mp' s n" "free_count mp' = free_count mp - int n"
    "first_free mp' = first_free mp" "first_free mp < int s"
  shows "map_wf mp'"
proof -
  note wf = map_wfD [OF assms(1)] and occ = occupiedD [OF assms(2)]
  have "s < length (block mp)" using occ(3,4) by linarith
  then have "nat (first_free mp) < length (block mp)" "nfree (block mp) \<noteq> 0"
    using assms(5) wf(3) nfree_pos [of s "block mp"] occ(3) occ(5) [of s] by auto
  then have "hdr_used (block mp' ! nat (first_free mp)) = 0"
    using wf(3,7) occupied_used [OF assms(2), of "nat (first_free mp)"] assms(5) by auto
  then show ?thesis
    using wf occupied_used [OF assms(2)] assms(4,5) \<open>nfree (block mp) \<noteq> 0\<close>
    by (intro occupied_wf [OF assms(1-3)]) auto
qed

definition run_taken :: "block_map \<Rightarrow> nat \<Rightarrow> nat \<Rightarrow> int \<Rightarrow> block_map" where
  "run_taken mp s n f = mp\<lparr>free_count := free_count mp - int n, first_free := f,
     block := mark_blocks (blk_addr mp s) s n
       ((block mp)[s := (block mp ! s)\<lparr>hdr_size := int n\<rparr>])\<rparr>"

definition run_next_free :: "block_map \<Rightarrow> nat \<Rightarrow> nat \<Rightarrow> int" where
  "run_next_free mp s n =
     (if first_free mp = int s
      then skip_used (blocks_from mp (int (s + n))) (int (s + n)) else first_free mp)"

lemma length_mark_blocks [simp]: "length (mark_blocks u s n bs) = length bs"
  using length_update_range [of "\<lambda>h. h\<lparr>hdr_used := 1, unaligned_ptr := u\<rparr>" s "s + n" bs]
  by (simp add: mark_blocks_def)

lemma nth_mark_blocks:
  "j < length bs \<Longrightarrow> mark_blocks u s n bs ! j =
   (if s \<le> j \<and> j < s + n then (bs ! j)\<lparr>hdr_used := 1, unaligned_ptr := u\<rparr> else bs ! j)"
  using nth_update_range [of j bs "\<lambda>h. h\<lparr>hdr_used := 1, unaligned_ptr := u\<rparr>" s "s + n"]
  by (simp add: mark_blocks_def)

lemma run_taken_counters:
  "free_count (run_taken mp s n f) = free_count mp - int n" "first_free (run_taken mp s n f) = f"
  by (simp_all add: run_taken_def)

lemma run_taken_occupied:
  assumes "map_wf mp" "0 < n" "s + n \<le> length (block mp)" "free_run mp s (s + n)"
  shows "occupied mp (run_taken mp s n f) s n"
proof -
  let ?mp' = "run_taken mp s n f"
  have free: "block mp ! j = no_hdr" if "s \<le> j" "j < s + n" for j
    using assms that map_wfD(8) [OF assms(1), of j] by (simp add: free_run_def)
  have "block ?mp' ! j = (if s \<le> j \<and> j < s + n
       then \<lparr>hdr_size = (if j = s then int n else 0), hdr_used = 1, unaligned_ptr = blk_addr mp s\<rparr>
       else block mp ! j)" if "j < length (block mp)" for j
    using that assms(2) free [of j]
    by (cases "j = s") (auto simp: run_taken_def nth_mark_blocks nth_list_update no_hdr_def)
  then show ?thesis using assms(2-4)
    by (simp add: occupied_def same_geometry_def run_taken_def free_run_def)
qed

lemma run_taken_wf:
  assumes "map_wf mp" "0 < n" "s + n \<le> length (block mp)" "free_run mp s (s + n)"
  shows "map_wf (run_taken mp s n (run_next_free mp s n))"
proof -
  let ?f = "run_next_free mp s n"
  let ?mp' = "run_taken mp s n ?f"
  note occ = run_taken_occupied [OF assms, of ?f] and wf = map_wfD [OF assms(1)]
  note used = occupied_used [OF occ]
  have s: "s < length (block mp)" "hdr_used (block mp ! s) = 0" using assms by (auto simp: free_run_def)
  show ?thesis
  proof (cases "first_free mp = int s")
    case False
    then have f: "?f = first_free mp" "first_free mp < int s"
      using first_free_le [OF assms(1) s] by (auto simp: run_next_free_def)
    show ?thesis
      by (rule occupied_later_wf [OF assms(1) occ run_taken_counters(1)])
        (simp_all add: run_taken_counters f)
  next
    case True
    define hs where "hs = blocks_from mp (int (s + n))"
    have hs: "length hs = length (block mp) - (s + n)" "k < length hs \<Longrightarrow> hs ! k = block mp ! (s + n + k)" for k
      using wf(9) by (auto simp: hs_def blocks_from_def nat_int_add simp del: of_nat_add)
    define d where "d = nat (skip_used hs (int (s + n)) - int (s + n))"
    have d: "?f = int (s + n + d)" "d \<le> length hs" "d < length hs \<longrightarrow> hdr_used (hs ! d) = 0"
        "\<And>k. k < d \<Longrightarrow> hdr_used (hs ! k) \<noteq> 0"
      using skip_used_spec [of "int (s + n)" hs] True by (auto simp: d_def run_next_free_def hs_def)
    have below: "hdr_used (block ?mp' ! k) \<noteq> 0" if k: "k < s + n + d" for k
    proof -
      have len: "k < length (block mp)" using k d(2) hs(1) assms(3) by linarith
      have "hdr_used (block mp ! k) \<noteq> 0 \<or> s \<le> k \<and> k < s + n"
      proof (cases "k < s + n")
        case True
        then show ?thesis using wf(5) [of k] \<open>first_free mp = int s\<close> by (cases "k < s") auto
      next
        case False
        then have "k - (s + n) < d" "s + n + (k - (s + n)) = k" using k by auto
        then show ?thesis using d(2,4) hs(2) [of "k - (s + n)"] by fastforce
      qed
      then show ?thesis using used [OF len] by blast
    qed
    have full: "nfree (block ?mp') = 0" if "d = length hs"
    proof -
      have "s + n + d = length (block ?mp')" using that hs(1) assms(3) occupiedD(2) [OF occ] by linarith
      then show ?thesis unfolding nfree_0 using below by metis
    qed
    have at: "hdr_used (block ?mp' ! (s + n + d)) = 0" if "d < length hs"
      using d(3) that hs used [of "s + n + d"] by simp
    have len: "s + n + d \<le> length (block mp)" using d(2) hs(1) assms(3) by linarith
    have ff: "first_free ?mp' = int (s + n + d)" by (simp only: run_taken_counters d(1))
    show ?thesis
    proof (rule occupied_wf [OF assms(1) occ run_taken_counters(1)])
      show "0 \<le> first_free ?mp'" "first_free ?mp' \<le> map_count mp"
        unfolding ff using len wf(9,10) by simp_all
      show "\<forall>i < nat (first_free ?mp'). hdr_used (block ?mp' ! i) \<noteq> 0"
        unfolding ff nat_int using below by blast
      assume "nfree (block ?mp') \<noteq> 0"
      then have "d < length hs" using full d(2) by linarith
      then show "first_free ?mp' < map_count mp \<and> hdr_used (block ?mp' ! nat (first_free ?mp')) = 0"
        unfolding ff nat_int using at hs(1) wf(9) by linarith
    qed
  qed
qed

text \<open>The search as \<open>alloc_cont_blocks\<close> starts it.\<close>

definition cont_result :: "block_map \<Rightarrow> int \<Rightarrow> int \<Rightarrow> cont_search" where
  "cont_result mp bytes alignment =
     cont_scan mp bytes alignment (blocks_from mp (first_free mp)) (first_free mp)
       \<lparr>cs_count = 0, cs_start = 0, cs_blk_start = 0, cs_aligned = 0, cs_found = 0, cs_total = bytes\<rparr>"

lemma cont_result_spec:
  assumes "map_wf mp" "align_ok al" "0 < bytes" "bytes \<le> 4294836224"
  shows "\<exists>c \<le> length (block mp). scan_inv mp bytes al c (cont_result mp bytes al) \<and>
    (cs_found (cont_result mp bytes al) < cs_total (cont_result mp bytes al) \<longrightarrow> c = length (block mp))"
proof -
  note wf = map_wfD [OF assms(1)]
  define f where "f = nat (first_free mp)"
  have f: "first_free mp = int f" "f \<le> length (block mp)" using wf(3,4,9,10) by (auto simp: f_def)
  have nr: "\<not> free_run mp t f" if "t < f" for t
    using wf(5) [of t] that f(1) by (auto simp: free_run_def)
  have "scan_inv mp bytes al f
      \<lparr>cs_count = 0, cs_start = 0, cs_blk_start = 0, cs_aligned = 0, cs_found = 0, cs_total = bytes\<rparr>"
    (is "scan_inv _ _ _ _ ?s")
  proof -
    have "no_run mp bytes al f ?s" using nr by (simp add: no_run_def)
    moreover have "\<not> fits mp bytes al t e" if "e \<le> f" for t e
      using wf(5) [of t] that f(1) by (auto simp: fits_def free_run_def)
    ultimately show ?thesis by (simp add: scan_inv_def)
  qed
  moreover have "blocks_from mp (first_free mp) = drop f (block mp)"
    using wf(9) by (simp add: blocks_from_def f(1))
  ultimately show ?thesis
    using cont_scan_inv [OF wf(1) assms(2-4) _ f(2)] unfolding cont_result_def f(1) Let_def by metis
qed

text \<open>The search starts at \<open>first_free\<close>: no free block is below it, so the size check before the
  loop refuses only what cannot be satisfied.\<close>

lemma fits_room:
  assumes "map_wf mp" "align_ok al" "fits mp bytes al s e"
  shows "bytes \<le> (map_count mp - first_free mp) * block_size mp"
proof -
  note wf = map_wfD [OF assms(1)]
  have se: "s < e" "e \<le> length (block mp)" "hdr_used (block mp ! s) = 0"
      "bytes + pad mp al s \<le> int (e - s) * block_size mp"
    using assms(3) by (auto simp: fits_def free_run_def)
  have "first_free mp \<le> int s" using first_free_le [OF assms(1)] se by simp
  then have "int (e - s) * block_size mp \<le> (map_count mp - first_free mp) * block_size mp"
    using se wf(1,9) by (intro mult_right_mono) (auto simp: map_shape_def)
  moreover have "0 \<le> pad mp al s" using pad_nonneg [OF wf(1) assms(2)] se by simp
  ultimately show ?thesis using se(4) by linarith
qed

lemma room_u32:
  assumes "map_wf mp"
  shows "u32 ((map_count mp - first_free mp) * block_size mp) = (map_count mp - first_free mp) * block_size mp"
proof -
  note wf = map_wfD [OF assms]
  have "(map_count mp - first_free mp) * block_size mp \<le> map_count mp * block_size mp"
    using wf(1,3) by (intro mult_right_mono) (auto simp: map_shape_def)
  moreover have "0 \<le> (map_count mp - first_free mp) * block_size mp"
    using wf(1,4) by (simp add: map_shape_def)
  moreover have "map_count mp * block_size mp < 4294967296" using wf(1) unfolding map_shape_def by linarith
  ultimately show ?thesis by (intro u32_id) linarith+
qed

lemma take_cont_blocks_None:
  assumes "map_wf mp" "align_ok al" "0 < bytes" "bytes \<le> 4294836224"
  shows "take_cont_blocks mp bytes al = None \<longleftrightarrow> (\<nexists>s e. fits mp bytes al s e)"
proof -
  let ?r = "cont_result mp bytes al"
  obtain c where c: "c \<le> length (block mp)" "scan_inv mp bytes al c ?r"
      "cs_found ?r < cs_total ?r \<longrightarrow> c = length (block mp)"
    using cont_result_spec [OF assms] by blast
  have eq: "take_cont_blocks mp bytes al = None \<longleftrightarrow>
      (map_count mp - first_free mp) * block_size mp < bytes \<or> cs_found ?r < cs_total ?r"
    by (simp add: take_cont_blocks_def room_u32 [OF assms(1)] cont_result_def Let_def)
  have yes: "\<exists>s e. fits mp bytes al s e" if found: "\<not> cs_found ?r < cs_total ?r"
  proof -
    obtain s where "run_at mp bytes al s c ?r"
      using c(2) found assms(3) by (auto simp: scan_inv_def no_run_def)
    then have "fits mp bytes al s c" using found c(1) by (auto simp: run_at_def fits_def)
    then show ?thesis by blast
  qed
  have no: "\<not> fits mp bytes al s e" if "cs_found ?r < cs_total ?r" for s e
    using c that unfolding scan_inv_def fits_def by blast
  have "\<not> fits mp bytes al s e" if "(map_count mp - first_free mp) * block_size mp < bytes" for s e
    using fits_room [OF assms(1,2), of bytes s e] that by linarith
  with yes no show ?thesis unfolding eq by blast
qed

lemma take_cont_blocks_Some:
  assumes "map_wf mp" "align_ok al" "0 < bytes" "bytes \<le> 4294836224"
    "take_cont_blocks mp bytes al = Some (ptr, k, mp')"
  obtains s n where "k = int n" "0 < n" "fits mp bytes al s (s + n)" "ptr = align_to al (blk_addr mp s)"
    "mp' = run_taken mp s n (run_next_free mp s n)"
proof -
  note wf = map_wfD [OF assms(1)]
  let ?r = "cont_result mp bytes al"
  obtain c where c: "c \<le> length (block mp)" "scan_inv mp bytes al c ?r"
    using cont_result_spec [OF assms(1-4)] by blast
  have found: "\<not> cs_found ?r < cs_total ?r" and room: "\<not> (map_count mp - first_free mp) * block_size mp < bytes"
    using assms(5) by (auto simp: take_cont_blocks_def room_u32 [OF assms(1)] cont_result_def Let_def split: if_splits)
  then obtain s where run: "run_at mp bytes al s c ?r"
    using c(2) assms(3) by (auto simp: scan_inv_def no_run_def)
  define n where "n = c - s"
  have sn: "c = s + n" "0 < n" using run by (auto simp: n_def run_at_def)
  have fit: "fits mp bytes al s (s + n)" using run found c(1) by (auto simp: run_at_def fits_def sn(1))
  have small: "map_count mp < 65536" using wf(1) by (simp add: map_shape_def)
  have le: "s + n \<le> length (block mp)" "free_run mp s (s + n)" using fit by (auto simp: fits_def)
  have "int n \<le> free_count mp"
    using occupied_nfree [OF run_taken_occupied [OF assms(1) sn(2) le, of 0]] wf(2) by simp
  moreover have "free_count mp \<le> map_count mp" using nfree_le [of "block mp"] wf(2,9,10) by simp
  ultimately have u: "u16 (free_count mp - int n) = free_count mp - int n" "u16 (int n) = int n"
    using small by (auto simp: u16_id)
  have "map_wf (run_taken mp s n (run_next_free mp s n))" by (rule run_taken_wf [OF assms(1) sn(2) le])
  then have "0 \<le> run_next_free mp s n \<and> run_next_free mp s n \<le> map_count mp"
    by (simp add: map_wf_def run_taken_def)
  then have v: "u16 (skip_used (blocks_from mp (int s + int n)) (int s + int n)) = run_next_free mp s n"
    if "first_free mp = int s" using that small by (simp add: run_next_free_def u16_id)
  have r: "cs_start ?r = int s" "cs_count ?r = int n" "cs_aligned ?r = align_to al (blk_addr mp s)"
      "cs_blk_start ?r = blk_addr mp s"
    using run by (auto simp: run_at_def n_def)
  have "take_cont_blocks mp bytes al =
      Some (align_to al (blk_addr mp s), int n, run_taken mp s n (run_next_free mp s n))"
    using found room v
    by (simp add: take_cont_blocks_def room_u32 [OF assms(1)] cont_result_def [symmetric] Let_def r u
        run_taken_def) (simp add: run_next_free_def)
  with that [of n s] sn(2) fit assms(5) show thesis by simp
qed

section \<open>The block map as an allocator of extents\<close>

definition holds_ext :: "block_map \<Rightarrow> addr \<Rightarrow> extent \<Rightarrow> bool" where
  "holds_ext mp p e \<longleftrightarrow> own mp (fst e) (snd e) \<and>
     blk_addr mp (fst e) \<le> p \<and> p < blk_addr mp (fst e + snd e)"

definition put_ext :: "addr \<Rightarrow> block_map \<Rightarrow> block_map option" where
  "put_ext p mp = map_option snd (release_blocks mp p)"

definition get_run :: "int \<times> int \<Rightarrow> block_map \<Rightarrow> (addr \<times> block_map) option" where
  "get_run r mp = map_option (\<lambda>(p, n, mp'). (p, mp')) (take_cont_blocks mp (fst r) (snd r))"

definition valid_request :: "int \<times> int \<Rightarrow> bool" where
  "valid_request r \<longleftrightarrow> 0 < fst r \<and> fst r \<le> 4294836224 \<and> align_ok (snd r)"

text \<open>The single-block path: one map of the loop of \<open>alloc_heap_buffer\<close>.\<close>

definition get_one :: "int \<times> int \<Rightarrow> block_map \<Rightarrow> (addr \<times> block_map) option" where
  "get_one r mp = (case single_level [mp] 0 (fst r) (snd r) of
     None \<Rightarrow> None | Some (i, j) \<Rightarrow> Some (take_block mp (snd r) j))"

lemma blk_addr_add: "blk_addr mp (s + n) = blk_addr mp s + int n * block_size mp"
  by (simp add: blk_addr_def algebra_simps)

lemma containing_block:
  assumes "map_shape mp" "blk_addr mp s \<le> p" "p < blk_addr mp (s + n)"
  obtains i where "s \<le> i" "i < s + n" "blk_addr mp i \<le> p" "p < blk_addr mp i + block_size mp"
proof -
  define i where "i = nat ((p - base mp) div block_size mp)"
  have sz: "0 < block_size mp" using assms(1) by (simp add: map_shape_def)
  have "int s * block_size mp \<le> p - base mp" using assms(2) by (simp add: blk_addr_def)
  then have lo: "int s \<le> (p - base mp) div block_size mp"
    using zdiv_mono1 [OF _ sz, of "int s * block_size mp"] sz by simp
  have "(p - base mp) div block_size mp * block_size mp < int (s + n) * block_size mp"
    using assms(3) round_down_bounds [OF sz, of "p - base mp"] unfolding blk_addr_def by linarith
  then have hi: "(p - base mp) div block_size mp < int (s + n)" using sz by simp
  have i: "int i = (p - base mp) div block_size mp" using lo by (simp add: i_def)
  have "int i * block_size mp \<le> p - base mp" "p - base mp < int i * block_size mp + block_size mp"
    unfolding i using round_down_bounds [OF sz, of "p - base mp"] by linarith+
  then show thesis using that [of i] lo hi i by (simp add: blk_addr_def)
qed

lemma put_ext_released:
  assumes "map_wf mp" "holds_ext mp p (s, n)"
  shows "put_ext p mp = Some (released mp s n)"
proof -
  obtain i where "s \<le> i" "i < s + n" "blk_addr mp i \<le> p" "p < blk_addr mp i + block_size mp"
    using containing_block [OF map_wfD(1) [OF assms(1)], of s p n] assms(2) by (auto simp: holds_ext_def)
  then show ?thesis
    using release_blocks_released [OF assms(1), of s n i p] assms(2) by (simp add: put_ext_def holds_ext_def)
qed

lemma occupied_holds:
  assumes "map_shape mp" "occupied mp mp' s n"
  shows "holds_ext mp' p e \<longleftrightarrow> holds_ext mp p e \<or>
    (e = (s, n) \<and> blk_addr mp s \<le> p \<and> p < blk_addr mp (s + n))"
    "\<not> holds_ext mp p (s, n)"
proof -
  show "\<not> holds_ext mp p (s, n)"
    using occupiedD(3) [OF assms(2)] occupiedD(5) [OF assms(2), of s] ownD(4) [of mp s n s]
    by (auto simp: holds_ext_def)
  show "holds_ext mp' p e \<longleftrightarrow> holds_ext mp p e \<or>
      (e = (s, n) \<and> blk_addr mp s \<le> p \<and> p < blk_addr mp (s + n))"
    using occupied_own [OF assms(2,1), of "fst e" "snd e"] same_geometry_simps(1) [OF occupiedD(1) [OF assms(2)]]
    by (auto simp: holds_ext_def)
qed

lemma occupied_blocks_eq:
  assumes "occupied a m s n" "occupied b m s n" "map_wf a" "map_wf b"
  shows "a = b"
proof -
  have geo: "same_geometry a b"
    using occupiedD(1) [OF assms(1)] occupiedD(1) [OF assms(2)] by (simp add: same_geometry_def)
  have "block a ! j = block b ! j" if "j < length (block a)" for j
  proof (cases "s \<le> j \<and> j < s + n")
    case True
    then show ?thesis
      using map_wfD(8) [OF assms(3), of j] map_wfD(8) [OF assms(4), of j] geo that
        occupiedD(5) [OF assms(1), of j] occupiedD(5) [OF assms(2), of j] by (simp add: same_geometry_def)
  next
    case False
    then show ?thesis
      using occupiedD(7) [OF assms(1), of j] occupiedD(7) [OF assms(2), of j] geo that
      by (simp add: same_geometry_def)
  qed
  then have "block a = block b" using geo by (intro nth_equalityI) (auto simp: same_geometry_def)
  moreover have "nfree (block a) \<noteq> 0" using occupied_nfree [OF assms(1)] occupiedD(3) [OF assms(1)] by simp
  ultimately show ?thesis using map_wf_unique assms(3,4) geo by blast
qed

text \<open>Any operation that occupies an extent and hands out an address of its first block obeys the
  allocator's laws.\<close>

lemma occupied_put:
  assumes "map_wf mp" "occupied mp mp' s n" "map_wf mp'" "holds_ext mp' p (s, n)"
  shows "put_ext p mp' = Some mp"
proof -
  have "own mp' s n" using assms(4) by (simp add: holds_ext_def)
  then have "released mp' s n = mp"
    using occupied_blocks_eq [OF released_occupied _ released_wf] assms by blast
  then show ?thesis using put_ext_released [OF assms(3,4)] by simp
qed

lemma map_inv_wf: "map_inv mp \<Longrightarrow> map_wf mp" "map_inv mp \<Longrightarrow> map_shape mp"
  by (auto simp: map_inv_def map_wf_def)

lemma take_cont_occupied:
  assumes "map_wf mp" "valid_request r" "take_cont_blocks mp (fst r) (snd r) = Some (p, k, mp')"
  obtains s n where "k = int n" "fits mp (fst r) (snd r) s (s + n)" "p = align_to (snd r) (blk_addr mp s)"
    "occupied mp mp' s n" "map_wf mp'" "holds_ext mp' p (s, n)"
proof -
  from assms(3) obtain s n where f: "0 < n" "fits mp (fst r) (snd r) s (s + n)" "p = align_to (snd r) (blk_addr mp s)"
      "mp' = run_taken mp s n (run_next_free mp s n)"
    and k: "k = int n"
    using take_cont_blocks_Some assms(1,2) by (metis valid_request_def)
  have le: "s + n \<le> length (block mp)" "free_run mp s (s + n)" using f(2) by (auto simp: fits_def)
  have occ: "occupied mp mp' s n" "map_wf mp'"
    using run_taken_occupied [OF assms(1) f(1) le] run_taken_wf [OF assms(1) f(1) le] f(4) by auto
  have sh: "map_shape mp" "s < length (block mp)" using map_wfD(1) [OF assms(1)] le f(1) by auto
  have "0 \<le> pad mp (snd r) s" "pad mp (snd r) s < block_size mp"
    using pad_nonneg [OF sh(1) _ sh(2)] f(2) assms(2) by (auto simp: valid_request_def fits_def)
  moreover have "block_size mp \<le> int n * block_size mp" using f(1) sh(1) by (simp add: map_shape_def)
  ultimately have "blk_addr mp s \<le> p" "p < blk_addr mp (s + n)"
    unfolding f(3) pad_def blk_addr_add by linarith+
  then have "holds_ext mp' p (s, n)" using occupied_holds(1) [OF sh(1) occ(1)] by simp
  with that [of n s] f occ k show thesis by simp
qed

lemma get_run_occupied:
  assumes "map_wf mp" "valid_request r" "get_run r mp = Some (p, mp')"
  obtains s n where "fits mp (fst r) (snd r) s (s + n)" "p = align_to (snd r) (blk_addr mp s)"
    "occupied mp mp' s n" "map_wf mp'" "holds_ext mp' p (s, n)"
proof -
  from assms(3) obtain k where "take_cont_blocks mp (fst r) (snd r) = Some (p, k, mp')"
    by (auto simp: get_run_def)
  from take_cont_occupied [OF assms(1,2) this] that show thesis by blast
qed

text \<open>The inner loop finds the first free block that holds the aligned request.\<close>

lemma fit_block_Some:
  assumes "map_shape mp" "align_ok al" "al \<noteq> 0" "0 \<le> bytes" "bytes \<le> block_size mp"
  shows "c \<le> length (block mp) \<Longrightarrow> fit_block mp bytes al (drop c (block mp)) (int c) = Some j \<Longrightarrow>
    \<exists>i. j = int i \<and> c \<le> i \<and> i < length (block mp) \<and> hdr_used (block mp ! i) = 0 \<and>
        bytes + pad mp al i \<le> block_size mp"
proof (induction "length (block mp) - c" arbitrary: c)
  case (Suc d)
  then have c: "c < length (block mp)" by linarith
  then have dr: "drop c (block mp) = block mp ! c # drop (Suc c) (block mp)" by (simp add: Cons_nth_drop_Suc)
  define a where "a = blk_addr mp c"
  have a: "0 < a" "a + block_size mp \<le> 4294901760" using blk_addr_bounds [OF assms(1) c] by (auto simp: a_def)
  have sz: "0 < block_size mp" using assms(1) by (simp add: map_shape_def)
  have ptr: "u32 (base mp + block_size mp * int c) = a"
    using a sz by (simp add: u32_id a_def blk_addr_def mult.commute)
  have al: "ALIGN_UP a al = align_to al a" "a \<le> align_to al a" "align_to al a < a + 65536"
    using align_to_ok [OF assms(2), of a] a sz assms(3) by auto
  have u: "u32 (align_to al a + bytes) = align_to al a + bytes" "u32 (a + block_size mp) = a + block_size mp"
    using a al sz assms(4,5) by (auto simp: u32_id)
  show ?case
  proof (cases "hdr_used (block mp ! c) = 0 \<and> align_to al a + bytes \<le> a + block_size mp")
    case True
    then have "j = int c" using Suc.prems(2) by (simp add: dr ptr al(1) u Let_def)
    then show ?thesis using True c by (auto simp: pad_def a_def)
  next
    case False
    have sc: "int (Suc c) = int c + 1" by simp
    from False have "fit_block mp bytes al (drop (Suc c) (block mp)) (int (Suc c)) = Some j"
      using Suc.prems(2) unfolding sc by (auto simp: dr ptr al(1) u Let_def split: if_splits)
    moreover have "d = length (block mp) - Suc c" using Suc.hyps(2) by linarith
    ultimately obtain i where
      "j = int i" "Suc c \<le> i" "i < length (block mp)" "hdr_used (block mp ! i) = 0"
      "bytes + pad mp al i \<le> block_size mp" using Suc.hyps(1) [of "Suc c"] c by auto
    then show ?thesis by (intro exI [of _ i]) simp
  qed
qed simp

lemma get_one_occupied:
  assumes "map_wf mp" "valid_request r" "get_one r mp = Some (p, mp')"
  obtains i where "fits mp (fst r) (snd r) i (i + 1)" "p = align_to (snd r) (blk_addr mp i)"
    "occupied mp mp' i 1" "map_wf mp'" "holds_ext mp' p (i, 1)"
proof -
  note wf = map_wfD [OF assms(1)]
  obtain bytes al where r: "r = (bytes, al)" by (cases r)
  have v: "0 < bytes" "align_ok al" using assms(2) by (auto simp: r valid_request_def)
  from assms(3) obtain j where j: "take_block mp al j = (p, mp')" "bytes \<le> block_size mp" "free_count mp \<noteq> 0"
      "if al \<le> 1 then j = - 1
       else fit_block mp bytes al (blocks_from mp (first_free mp)) (first_free mp) = Some j"
    by (auto simp: get_one_def r split: if_splits option.splits)
  have ff: "first_free mp = int (nat (first_free mp))" "nat (first_free mp) < length (block mp)"
      "hdr_used (block mp ! nat (first_free mp)) = 0"
    using wf(2,3,6,7,9) j(3) by auto
  obtain i where i: "take_target mp j = int i" "i < length (block mp)" "hdr_used (block mp ! i) = 0"
      "bytes + pad mp al i \<le> block_size mp"
  proof (cases "al \<le> 1")
    case True
    then show thesis using that [of "nat (first_free mp)"] ff j(2,4)
      by (simp add: take_target_def pad_def align_to_def)
  next
    case False
    have "blocks_from mp (first_free mp) = drop (nat (first_free mp)) (block mp)"
      using wf(9) by (simp add: blocks_from_def)
    then show thesis
      using fit_block_Some [OF wf(1) v(2) _ _ j(2), of "nat (first_free mp)" j] ff(1,2) j(4) False v(1) that
      by (auto simp: take_target_def)
  qed
  have occ: "occupied mp mp' i 1" "map_wf mp'" "p = align_to al (blk_addr mp i)"
    using take_block_eq [OF assms(1) i(1-3)] taken_occupied [OF i(2,3)] taken_wf [OF assms(1) i(2,3)] j(1) by auto
  have pd: "0 \<le> pad mp al i" using pad_nonneg [OF wf(1) v(2) i(2)] .
  then have "fits mp bytes al i (i + 1)" using i v(1) by (auto simp: fits_def free_run_Suc free_run_def less_Suc_eq)
  moreover have "blk_addr mp i \<le> p" "p < blk_addr mp (i + 1)"
    using pd i(4) v(1) unfolding occ(3) pad_def blk_addr_add by simp_all
  then have "holds_ext mp' p (i, 1)" using occupied_holds(1) [OF wf(1) occ(1)] by simp
  ultimately show thesis using that [of i] occ r by simp
qed

lemma holds_apart_ext:
  assumes "map_shape mp" "holds_ext mp p e" "holds_ext mp q f" "ext_blocks e \<inter> ext_blocks f \<noteq> {}"
  shows "e = f"
proof -
  obtain i where "fst e \<le> i" "i < fst e + snd e" "fst f \<le> i" "i < fst f + snd f"
    using assms(4) unfolding ext_blocks_def by (metis IntE atLeastLessThan_iff ex_in_conv)
  then show ?thesis using own_unique [OF assms(1)] assms(2,3) by (metis holds_ext_def prod.collapse)
qed

lemma put_ext_laws:
  assumes "map_inv mp" "holds_ext mp p e"
  shows "\<exists>mp'. put_ext p mp = Some mp' \<and> map_inv mp' \<and>
    (\<forall>q f. holds_ext mp' q f \<longleftrightarrow> holds_ext mp q f \<and> f \<noteq> e)"
proof -
  obtain s n where e: "e = (s, n)" by (cases e)
  note wf = map_inv_wf [OF assms(1)]
  have own: "own mp s n" using assms(2) by (simp add: holds_ext_def e)
  note occ = released_occupied [OF own] and wf' = released_wf [OF wf(1) own]
  have "map_inv (released mp s n)"
    using occupied_owned [OF occ] wf' assms(1) map_wfD(1) [OF wf'] by (simp add: map_inv_def)
  moreover have "holds_ext (released mp s n) q f \<longleftrightarrow> holds_ext mp q f \<and> f \<noteq> e" for q f
    using occupied_holds [OF map_wfD(1) [OF wf'] occ] e by metis
  ultimately show ?thesis using put_ext_released [OF wf(1)] assms(2) e by auto
qed

lemma occupied_laws:
  assumes "map_inv mp" "occupied mp mp' s n" "map_wf mp'" "holds_ext mp' p (s, n)"
  shows "map_inv mp'" "put_ext p mp' = Some mp"
    "\<exists>e. (\<forall>q. \<not> holds_ext mp q e) \<and> holds_ext mp' p e \<and> (\<forall>q f. f \<noteq> e \<longrightarrow> holds_ext mp' q f = holds_ext mp q f)"
proof -
  note wf = map_inv_wf [OF assms(1)]
  show "map_inv mp'" using occupied_owned [OF assms(2) wf(2)] assms(1,3) by (simp add: map_inv_def)
  show "put_ext p mp' = Some mp" using occupied_put [OF wf(1) assms(2-4)] .
  show "\<exists>e. (\<forall>q. \<not> holds_ext mp q e) \<and> holds_ext mp' p e \<and> (\<forall>q f. f \<noteq> e \<longrightarrow> holds_ext mp' q f = holds_ext mp q f)"
    using occupied_holds [OF wf(2) assms(2)] assms(4) by (intro exI [of _ "(s, n)"]) auto
qed

lemma get_run_laws:
  assumes "map_inv mp" "valid_request r" "get_run r mp = Some (p, mp')"
  shows "map_inv mp'" "put_ext p mp' = Some mp"
    "\<exists>e. (\<forall>q. \<not> holds_ext mp q e) \<and> holds_ext mp' p e \<and> (\<forall>q f. f \<noteq> e \<longrightarrow> holds_ext mp' q f = holds_ext mp q f)"
  by (rule get_run_occupied [OF map_inv_wf(1) [OF assms(1)] assms(2,3)]; rule occupied_laws [OF assms(1)]; assumption)+

lemma get_one_laws:
  assumes "map_inv mp" "valid_request r" "get_one r mp = Some (p, mp')"
  shows "map_inv mp'" "put_ext p mp' = Some mp"
    "\<exists>e. (\<forall>q. \<not> holds_ext mp q e) \<and> holds_ext mp' p e \<and> (\<forall>q f. f \<noteq> e \<longrightarrow> holds_ext mp' q f = holds_ext mp q f)"
  by (rule get_one_occupied [OF map_inv_wf(1) [OF assms(1)] assms(2,3)]; rule occupied_laws [OF assms(1)]; assumption)+

text \<open>Both ways of taking blocks make the map an allocator of extents.\<close>

interpretation run_allocator: block_allocator map_inv holds_ext valid_request get_run put_ext
proof (unfold_locales, goal_cases)
  case (1 mp p e q f)
  then show ?case using holds_apart_ext [OF map_inv_wf(2)] by simp
next
  case 2
  then show ?case by (rule get_run_laws(1))
next
  case 3
  then show ?case by (rule get_run_laws(3))
next
  case 4
  then show ?case by (rule put_ext_laws)
next
  case 5
  then show ?case by (rule get_run_laws(2))
qed

interpretation one_allocator: block_allocator map_inv holds_ext valid_request get_one put_ext
proof (unfold_locales, goal_cases)
  case (1 mp p e q f)
  then show ?case using holds_apart_ext [OF map_inv_wf(2)] by simp
next
  case 2
  then show ?case by (rule get_one_laws(1))
next
  case 3
  then show ?case by (rule get_one_laws(3))
next
  case 4
  then show ?case by (rule put_ext_laws)
next
  case 5
  then show ?case by (rule get_one_laws(2))
qed

end
