(* ===== verification/Sof_Alloc_Heap.thy ===== *)
theory Sof_Alloc_Heap
  imports Sof_Alloc_Run
begin

text \<open>
  The runtime and buffer heaps: several block maps in address order with the byte counters of
  \<open>struct mm_info\<close>. The allocation functions on a heap keep its invariant, return memory that
  holds the request, and \<open>free_block\<close> undoes them exactly.
\<close>

section \<open>The invariant of a heap\<close>

definition map_end :: "block_map \<Rightarrow> addr" where
  "map_end mp = base mp + map_count mp * block_size mp"

definition map_bytes :: "block_map \<Rightarrow> int" where
  "map_bytes mp = map_count mp * block_size mp"

definition free_bytes :: "block_map \<Rightarrow> int" where
  "free_bytes mp = free_count mp * block_size mp"

definition heap_inv :: "mm_heap \<Rightarrow> bool" where
  "heap_inv heap \<longleftrightarrow> (\<forall>mp \<in> set (hp_map heap). map_inv mp) \<and>
     sorted_wrt (\<lambda>a b. map_end a \<le> base b) (hp_map heap) \<and>
     info_free heap = sum_list (map free_bytes (hp_map heap)) \<and>
     info_used heap = sum_list (map (\<lambda>mp. map_bytes mp - free_bytes mp) (hp_map heap)) \<and>
     sum_list (map map_bytes (hp_map heap)) < 4294967296"

text \<open>The map at a level is replaced and \<open>bytes\<close> more are in use.\<close>

definition recount :: "mm_heap \<Rightarrow> nat \<Rightarrow> block_map \<Rightarrow> int \<Rightarrow> mm_heap" where
  "recount heap level mp' bytes = (set_map heap level mp')
     \<lparr>info_used := info_used heap + bytes, info_free := info_free heap - bytes\<rparr>"

lemma sum_list_map_update:
  fixes f :: "'a \<Rightarrow> int"
  shows "i < length xs \<Longrightarrow> sum_list (map f (xs[i := y])) = sum_list (map f xs) - f (xs ! i) + f y"
  by (induction xs arbitrary: i) (auto split: nat.split simp: nth_Cons')

lemma map_bytes_bounds:
  assumes "map_inv mp"
  shows "0 \<le> free_bytes mp" "free_bytes mp \<le> map_bytes mp"
proof -
  note wf = map_wfD [OF map_inv_wf(1) [OF assms]]
  show "0 \<le> free_bytes mp" using wf(1,2) by (simp add: free_bytes_def map_shape_def)
  have "free_count mp \<le> map_count mp" using wf(2,9,10) nfree_le [of "block mp"] by simp
  then show "free_bytes mp \<le> map_bytes mp"
    using wf(1) by (simp add: free_bytes_def map_bytes_def map_shape_def mult_right_mono)
qed

lemma heap_inv_counts:
  assumes "heap_inv heap"
  shows "0 \<le> info_used heap" "0 \<le> info_free heap" "info_used heap + info_free heap < 4294967296"
proof -
  have mb: "map_inv mp" if "mp \<in> set (hp_map heap)" for mp using assms that by (simp add: heap_inv_def)
  have eq: "info_free heap = sum_list (map free_bytes (hp_map heap))"
      "info_used heap = sum_list (map (\<lambda>mp. map_bytes mp - free_bytes mp) (hp_map heap))"
      "sum_list (map map_bytes (hp_map heap)) < 4294967296"
    using assms by (auto simp: heap_inv_def)
  show "0 \<le> info_free heap" unfolding eq using map_bytes_bounds(1) mb by (intro sum_list_nonneg) auto
  show "0 \<le> info_used heap" unfolding eq using map_bytes_bounds(2) mb by (intro sum_list_nonneg) auto
  show "info_used heap + info_free heap < 4294967296"
    using eq(3) by (simp add: eq(1,2) sum_list_subtractf)
qed

text \<open>A change of one map that keeps its invariant, its place and the byte count keeps the heap's.\<close>

lemma recount_inv:
  assumes "heap_inv heap" "level < length (hp_map heap)" "map_inv mp'"
    "same_geometry (hp_map heap ! level) mp'" "free_bytes mp' = free_bytes (hp_map heap ! level) - bytes"
  shows "heap_inv (recount heap level mp' bytes)"
proof -
  let ?mp = "hp_map heap ! level"
  have geo: "map_bytes mp' = map_bytes ?mp" "map_end mp' = map_end ?mp" "base mp' = base ?mp"
    using assms(4) by (auto simp: same_geometry_def map_bytes_def map_end_def)
  have sorted: "sorted_wrt (\<lambda>a b. map_end a \<le> base b) ((hp_map heap)[level := mp'])"
    using assms(1,2) geo unfolding heap_inv_def sorted_wrt_iff_nth_less
    by (auto simp: nth_list_update)
  have "\<forall>mp \<in> set ((hp_map heap)[level := mp']). map_inv mp"
    using assms(1,3) set_update_subset_insert [of "hp_map heap" level mp'] by (auto simp: heap_inv_def)
  with sorted assms(1,2,5) geo show ?thesis
    by (simp add: heap_inv_def recount_def set_map_def sum_list_map_update)
qed

section \<open>One allocation\<close>

definition heap_taken :: "mm_heap \<Rightarrow> nat \<Rightarrow> int \<Rightarrow> int \<Rightarrow> addr \<Rightarrow> mm_heap \<Rightarrow> bool" where
  "heap_taken heap level bytes alignment p heap' \<longleftrightarrow> level < length (hp_map heap) \<and>
     (\<exists>mp' s n. occupied (hp_map heap ! level) mp' s n \<and> map_wf mp' \<and>
        fits (hp_map heap ! level) bytes alignment s (s + n) \<and>
        p = align_to alignment (blk_addr (hp_map heap ! level) s) \<and> holds_ext mp' p (s, n) \<and>
        heap' = recount heap level mp' (int n * block_size (hp_map heap ! level)))"

lemma heap_inv_level:
  "heap_inv heap \<Longrightarrow> level < length (hp_map heap) \<Longrightarrow> map_inv (hp_map heap ! level)"
  by (simp add: heap_inv_def)

lemma occupied_free_bytes:
  assumes "map_wf mp" "map_wf mp'" "occupied mp mp' s n"
  shows "free_bytes mp' = free_bytes mp - int n * block_size mp"
  using occupied_nfree [OF assms(3)] map_wfD(2) [OF assms(1)] map_wfD(2) [OF assms(2)]
    occupiedD(1) [OF assms(3)]
  by (simp add: free_bytes_def same_geometry_def algebra_simps)

lemma heap_taken_inv:
  assumes "heap_inv heap" "heap_taken heap level bytes al p heap'"
  shows "heap_inv heap'"
proof -
  from assms(2) obtain mp' s n where l: "level < length (hp_map heap)"
    and o: "occupied (hp_map heap ! level) mp' s n" "map_wf mp'" "holds_ext mp' p (s, n)"
    and h: "heap' = recount heap level mp' (int n * block_size (hp_map heap ! level))"
    by (auto simp: heap_taken_def)
  note inv = heap_inv_level [OF assms(1) l]
  show ?thesis unfolding h
    by (rule recount_inv [OF assms(1) l occupied_laws(1) [OF inv o] occupiedD(1) [OF o(1)]
          occupied_free_bytes [OF map_inv_wf(1) [OF inv] o(2,1)]])
qed

text \<open>The memory returned is aligned, lies inside the map and holds the request.\<close>

lemma heap_taken_memory:
  assumes "heap_inv heap" "heap_taken heap level bytes al p heap'" "align_ok al" "0 < bytes"
  shows "al \<noteq> 0 \<Longrightarrow> al dvd p" "base (hp_map heap ! level) \<le> p"
    "p + bytes \<le> map_end (hp_map heap ! level)" "0 < p"
proof -
  let ?mp = "hp_map heap ! level"
  from assms(2) obtain s n where l: "level < length (hp_map heap)"
    and f: "fits ?mp bytes al s (s + n)" and p: "p = align_to al (blk_addr ?mp s)"
    by (auto simp: heap_taken_def)
  note wf = map_wfD [OF map_inv_wf(1) [OF heap_inv_level [OF assms(1) l]]]
  have s: "s < length (block ?mp)" "s + n \<le> length (block ?mp)" "0 < n" using f by (auto simp: fits_def)
  note b = blk_addr_bounds [OF wf(1) s(1)]
  have sz: "0 < block_size ?mp" using wf(1) by (simp add: map_shape_def)
  note al = align_to_ok [OF assms(3), of "blk_addr ?mp s"]
  show "al \<noteq> 0 \<Longrightarrow> al dvd p" unfolding p using al(2) b sz by simp
  have lo: "blk_addr ?mp s \<le> p" unfolding p using al(1) b sz by simp
  then show "0 < p" using b by linarith
  have "0 \<le> int s * block_size ?mp" using sz by simp
  then show "base ?mp \<le> p" using lo by (simp add: blk_addr_def)
  have "p + bytes \<le> blk_addr ?mp s + int n * block_size ?mp" using f p by (simp add: fits_def pad_def)
  also have "\<dots> = base ?mp + int (s + n) * block_size ?mp" by (simp add: blk_addr_def algebra_simps)
  also have "\<dots> \<le> map_end ?mp"
    using s(2) wf(9,10) sz by (simp add: map_end_def mult_right_mono)
  finally show "p + bytes \<le> map_end ?mp" .
qed

section \<open>Freeing an allocation\<close>

lemma map_end_u32:
  assumes "map_inv mp"
  shows "u32 (base mp + block_size mp * map_count mp) = map_end mp"
proof -
  have sh: "map_shape mp" using map_inv_wf(2) [OF assms] .
  then have "0 \<le> map_count mp * block_size mp" by (simp add: map_shape_def)
  then show ?thesis using sh by (simp add: u32_id map_end_def map_shape_def mult.commute)
qed

lemma map_of_ptr_level:
  assumes "\<forall>mp \<in> set mps. map_inv mp" "sorted_wrt (\<lambda>a b. map_end a \<le> base b) mps"
    "level < length mps" "base (mps ! level) \<le> p" "p < map_end (mps ! level)"
  shows "map_of_ptr mps i p = Some (i + level)"
  using assms
proof (induction mps arbitrary: i level)
  case (Cons mp mps)
  show ?case
  proof (cases level)
    case 0
    then show ?thesis using Cons.prems map_end_u32 [of mp] by simp
  next
    case (Suc l)
    then have "map_end mp \<le> p" using Cons.prems by (fastforce dest: nth_mem)
    then show ?thesis using Cons.IH [of l "Suc i"] Cons.prems Suc map_end_u32 [of mp] by simp
  qed
qed simp

lemma heap_taken_free:
  assumes "heap_inv heap" "heap_taken heap level bytes al p heap'" "align_ok al" "0 < bytes"
  shows "free_in_heap heap' p = Some heap"
proof -
  let ?mp = "hp_map heap ! level"
  from assms(2) obtain mp' s n where l: "level < length (hp_map heap)"
    and o: "occupied ?mp mp' s n" "map_wf mp'" "holds_ext mp' p (s, n)"
    and h: "heap' = recount heap level mp' (int n * block_size ?mp)"
    by (auto simp: heap_taken_def)
  note mem = heap_taken_memory [OF assms] and inv' = heap_taken_inv [OF assms(1,2)]
  have geo: "block_size mp' = block_size ?mp" "base mp' = base ?mp" "map_end mp' = map_end ?mp"
    using occupiedD(1) [OF o(1)] by (auto simp: same_geometry_def map_end_def)
  have maps: "hp_map heap' = (hp_map heap)[level := mp']" by (simp add: h recount_def set_map_def)
  have lvl: "map_of_ptr (hp_map heap') 0 p = Some level"
    using map_of_ptr_level [of "hp_map heap'" level p 0] inv' mem(2,3) assms(4) l geo
    by (simp add: heap_inv_def maps)
  have own: "own mp' s n" using o(3) by (simp add: holds_ext_def)
  have rel: "released mp' s n = ?mp"
    using occupied_put [OF map_inv_wf(1) [OF heap_inv_level [OF assms(1) l]] o] put_ext_released [OF o(2,3)] by simp
  obtain i where "s \<le> i" "i < s + n" "blk_addr mp' i \<le> p" "p < blk_addr mp' i + block_size mp'"
    using containing_block [OF map_wfD(1) [OF o(2)], of s p n] o(3) by (auto simp: holds_ext_def)
  then have "release_blocks mp' p = Some (int n, ?mp)"
    using release_blocks_released [OF o(2) own] rel by simp
  then show ?thesis
    using l lvl heap_inv_counts [OF assms(1)]
    by (simp add: free_in_heap_def maps geo h recount_def set_map_def u32_id)
qed

text \<open>What a client of the heap sees of an allocation.\<close>

lemma heap_taken_result:
  assumes "heap_inv heap" "heap_taken heap level bytes al p heap'" "align_ok al" "0 < bytes"
  shows "p \<noteq> 0 \<and> heap_inv heap' \<and> free_in_heap heap' p = Some heap \<and> (al \<noteq> 0 \<longrightarrow> al dvd p) \<and>
    (\<exists>mp \<in> set (hp_map heap). base mp \<le> p \<and> p + bytes \<le> map_end mp)"
proof -
  have "hp_map heap ! level \<in> set (hp_map heap)" using assms(2) by (simp add: heap_taken_def)
  then show ?thesis
    using heap_taken_memory [OF assms] heap_taken_inv [OF assms(1,2)] heap_taken_free [OF assms] by auto
qed

section \<open>The allocation functions\<close>

lemma recount_u32:
  assumes "heap_inv heap" "level < length (hp_map heap)" "map_wf mp'" "occupied (hp_map heap ! level) mp' s n"
    "bytes = int n * block_size (hp_map heap ! level)"
  shows "(set_map heap level mp')\<lparr>info_used := u32 (info_used heap + bytes),
      info_free := u32 (info_free heap - bytes)\<rparr> = recount heap level mp' bytes"
proof -
  let ?mp = "hp_map heap ! level"
  note inv = heap_inv_level [OF assms(1,2)]
  have "0 \<le> bytes" using map_inv_wf(2) [OF inv] assms(5) by (simp add: map_shape_def)
  have "heap_inv (recount heap level mp' bytes)"
  proof (rule recount_inv [OF assms(1,2)])
    show "map_inv mp'"
      using occupied_owned [OF assms(4) map_inv_wf(2) [OF inv]] inv assms(3) by (simp add: map_inv_def)
    show "same_geometry ?mp mp'" using occupiedD(1) [OF assms(4)] .
    show "free_bytes mp' = free_bytes ?mp - bytes"
      using occupied_free_bytes [OF map_inv_wf(1) [OF inv] assms(3,4)] assms(5) by simp
  qed
  from heap_inv_counts [OF this] heap_inv_counts [OF assms(1)] \<open>0 \<le> bytes\<close> show ?thesis
    by (simp add: recount_def u32_id)
qed

lemma single_level_Some:
  "single_level mps i bytes al = Some (l, j) \<Longrightarrow>
   \<exists>k. l = i + k \<and> k < length mps \<and> get_one (bytes, al) (mps ! k) = Some (take_block (mps ! k) al j)"
proof (induction mps arbitrary: i)
  case (Cons mp mps)
  show ?case
  proof (cases "single_level [mp] i bytes al")
    case None
    then have "single_level mps (Suc i) bytes al = Some (l, j)"
      using Cons.prems by (auto split: if_splits option.splits)
    from Cons.IH [OF this] show ?thesis by (metis Suc_less_eq add_Suc_shift length_Cons nth_Cons_Suc)
  next
    case (Some x)
    then have "l = i" "get_one (bytes, al) mp = Some (take_block mp al j)"
      using Cons.prems by (auto simp: get_one_def split: if_splits option.splits)
    then show ?thesis by (intro exI [of _ 0]) simp
  qed
qed simp

lemma alloc_block_taken:
  assumes "heap_inv heap" "valid_request (bytes, al)" "level < length (hp_map heap)"
    "get_one (bytes, al) (hp_map heap ! level) = Some (take_block (hp_map heap ! level) al j)"
    "alloc_block_index heap level al j = (p, heap')"
  shows "heap_taken heap level bytes al p heap'"
proof -
  let ?mp = "hp_map heap ! level"
  obtain mp' where tb: "take_block ?mp al j = (p, mp')"
    and h: "heap' = (set_map heap level mp')\<lparr>info_used := u32 (info_used heap + block_size ?mp),
                  info_free := u32 (info_free heap - block_size ?mp)\<rparr>"
    using assms(5) by (auto simp: alloc_block_index_def Let_def split: prod.splits)
  obtain i where i: "fits ?mp bytes al i (i + 1)" "p = align_to al (blk_addr ?mp i)" "occupied ?mp mp' i 1"
      "map_wf mp'" "holds_ext mp' p (i, 1)"
    using get_one_occupied [OF map_inv_wf(1) [OF heap_inv_level [OF assms(1,3)]] assms(2), of p mp'] assms(4) tb
    by auto
  have "heap' = recount heap level mp' (block_size ?mp)"
    unfolding h by (rule recount_u32 [OF assms(1,3) i(4,3)]) simp
  then show ?thesis using i assms(3) unfolding heap_taken_def
    by (intro conjI exI [of _ mp'] exI [of _ i] exI [of _ 1]) simp_all
qed

lemma alloc_cont_taken:
  assumes "heap_inv heap" "valid_request (bytes, al)" "level < length (hp_map heap)"
    "alloc_cont_blocks heap level bytes al = (p, heap')"
  shows "(p = 0 \<and> heap' = heap) \<or> heap_taken heap level bytes al p heap'"
proof (cases "take_cont_blocks (hp_map heap ! level) bytes al")
  case None
  then show ?thesis using assms(4) by (simp add: alloc_cont_blocks_def)
next
  case (Some x)
  let ?mp = "hp_map heap ! level"
  obtain k mp' where x: "take_cont_blocks ?mp bytes al = Some (p, k, mp')"
    and h: "heap' = (set_map heap level mp')\<lparr>info_used := u32 (info_used heap + k * block_size ?mp),
                  info_free := u32 (info_free heap - k * block_size ?mp)\<rparr>"
    using Some assms(4) by (cases x) (auto simp: alloc_cont_blocks_def Let_def)
  note wf = map_inv_wf(1) [OF heap_inv_level [OF assms(1,3)]]
  obtain s n where o: "k = int n" "fits ?mp bytes al s (s + n)" "p = align_to al (blk_addr ?mp s)"
      "occupied ?mp mp' s n" "map_wf mp'" "holds_ext mp' p (s, n)"
    using take_cont_occupied [OF wf assms(2)] x by (metis fst_conv snd_conv)
  have "heap' = recount heap level mp' (int n * block_size ?mp)"
    unfolding h o(1) by (rule recount_u32 [OF assms(1,3) o(5,4)]) simp
  then show ?thesis using o assms(3) unfolding heap_taken_def by blast
qed

lemma cont_levels_taken:
  assumes "heap_inv heap" "valid_request (bytes, al)"
  shows "\<forall>i \<in> set ls. i < length (hp_map heap) \<Longrightarrow> cont_levels heap ls bytes al = (p, heap') \<Longrightarrow>
    (p = 0 \<and> heap' = heap) \<or> (\<exists>level. heap_taken heap level bytes al p heap')"
proof (induction ls)
  case (Cons i ls)
  show ?case
  proof (cases "block_size (hp_map heap ! i) < bytes")
    case False
    then show ?thesis using Cons by simp
  next
    case True
    obtain q h where q: "alloc_cont_blocks heap i bytes al = (q, h)" by fastforce
    with alloc_cont_taken [OF assms, of i] Cons.prems(1)
    have "(q = 0 \<and> h = heap) \<or> heap_taken heap i bytes al q h" by simp
    moreover have "q \<noteq> 0" if "heap_taken heap i bytes al q h"
      using heap_taken_memory(4) [OF assms(1) that] assms(2) by (simp add: valid_request_def)
    ultimately show ?thesis using Cons True q by (auto split: if_splits)
  qed
qed simp

lemma align_ok_power: "align_ok al \<Longrightarrow> al AND (al - 1) = 0"
  by (auto simp: align_ok_def pow2_and_pred)

lemma align_ok_range: "align_ok al \<Longrightarrow> 0 \<le> al \<and> al \<le> 65536"
  using power_increasing [of _ 16 "2 :: int"] by (auto simp: align_ok_def)

text \<open>A heap step that satisfied a larger request satisfied the smaller one.\<close>

lemma heap_taken_smaller:
  assumes "heap_taken heap level bytes al p heap'" "bytes' \<le> bytes"
  shows "heap_taken heap level bytes' al p heap'"
proof -
  have "fits mp bytes al s e \<Longrightarrow> fits mp bytes' al s e" for mp s e
    using assms(2) by (auto simp: fits_def)
  then show ?thesis using assms(1) unfolding heap_taken_def by blast
qed

lemma alloc_heap_buffer_taken:
  assumes "heap_inv heap" "align_ok al" "0 < bytes" "bytes + al \<le> 4294836224"
  obtains p heap' where "alloc_heap_buffer heap bytes al = Some (p, heap')"
    "(p = 0 \<and> heap' = heap) \<or> (\<exists>level. heap_taken heap level bytes al p heap')"
proof -
  note al = align_ok_range [OF assms(2)]
  have v: "valid_request (bytes, al)" "valid_request (bytes + al, al)"
    using assms al by (auto simp: valid_request_def)
  have u: "u32 (bytes + al) = bytes + al" using assms(3,4) al by (simp add: u32_id)
  define cont where "cont = cont_levels heap (rev [0..<length (hp_map heap)]) (bytes + al) al"
  obtain q h where c: "cont = (q, h)" by fastforce
  have cont: "(q = 0 \<and> h = heap) \<or> (\<exists>level. heap_taken heap level bytes al q h)"
    using cont_levels_taken [OF assms(1) v(2), of "rev [0..<length (hp_map heap)]" q h] c
      heap_taken_smaller [of heap _ "bytes + al" al q h bytes] al by (auto simp: cont_def)
  show thesis
  proof (cases "single_level (hp_map heap) 0 bytes al")
    case None
    then have "alloc_heap_buffer heap bytes al =
        Some (if hp_size heap < bytes + al then (0, heap) else (q, h))"
      using c by (simp add: alloc_heap_buffer_def align_ok_power [OF assms(2)] u cont_def Let_def)
    with cont that show thesis by (auto split: if_splits)
  next
    case (Some x)
    obtain l j where x: "x = (l, j)" by (cases x)
    obtain p heap' where a: "alloc_block_index heap l al j = (p, heap')" by fastforce
    have "heap_taken heap l bytes al p heap'"
      using single_level_Some [OF Some [unfolded x]] alloc_block_taken [OF assms(1) v(1) _ _ a] by auto
    moreover from heap_taken_memory(4) [OF assms(1) this assms(2,3)]
    have "alloc_heap_buffer heap bytes al = Some (p, heap')"
      using Some x a by (simp add: alloc_heap_buffer_def align_ok_power [OF assms(2)] Let_def)
    ultimately show thesis using that by blast
  qed
qed

lemma get_one_first:
  assumes "map_wf mp" "align_ok al" "0 < bytes" "free_count mp \<noteq> 0"
    "bytes + pad mp al (nat (first_free mp)) \<le> block_size mp"
  shows "get_one (bytes, al) mp = Some (take_block mp al (- 1))"
proof -
  note wf = map_wfD [OF assms(1)]
  define f where "f = nat (first_free mp)"
  have f: "first_free mp = int f" "f < length (block mp)" "hdr_used (block mp ! f) = 0"
    using wf(2,3,6,7,9) assms(4) by (auto simp: f_def)
  define a where "a = blk_addr mp f"
  have a: "0 < a" "a + block_size mp \<le> 4294901760" "0 < block_size mp"
    using blk_addr_bounds [OF wf(1) f(2)] wf(1) by (auto simp: a_def map_shape_def)
  have pd: "0 \<le> pad mp al f" "bytes + pad mp al f \<le> block_size mp" "pad mp al f = align_to al a - a"
    using pad_nonneg [OF wf(1) assms(2) f(2)] assms(5) by (auto simp: f(1) pad_def a_def)
  show ?thesis
  proof (cases "al \<le> 1")
    case True
    then show ?thesis using pd assms(4) by (simp add: get_one_def)
  next
    case False
    have "blocks_from mp (first_free mp) = block mp ! f # drop (Suc f) (block mp)"
      using f(1,2) wf(9) by (simp add: blocks_from_def Cons_nth_drop_Suc)
    moreover have "u32 (base mp + block_size mp * int f) = a"
      using a by (simp add: u32_id a_def blk_addr_def mult.commute)
    moreover have "ALIGN_UP a al = align_to al a" using align_to_ok(4) [OF assms(2), of a] a False by simp
    moreover have "u32 (align_to al a + bytes) = align_to al a + bytes" "u32 (a + block_size mp) = a + block_size mp"
      using a pd assms(3) by (auto simp: u32_id)
    ultimately have "fit_block mp bytes al (blocks_from mp (first_free mp)) (first_free mp) = Some (int f)"
      using f(3) pd by (simp add: f(1) Let_def)
    moreover have "take_block mp al (int f) = take_block mp al (- 1)" by (simp add: take_block_def f(1))
    ultimately show ?thesis using False pd assms(4) by (simp add: get_one_def)
  qed
qed

lemma pad_le:
  assumes "map_wf mp" "align_ok al" "f < length (block mp)"
  shows "pad mp al f \<le> (if al \<noteq> 0 \<and> blk_addr mp f mod al \<noteq> 0 then al else 0)"
proof (cases "al = 0")
  case True
  then show ?thesis by (simp add: pad_def align_to_zero)
next
  case False
  note wf = map_wfD [OF assms(1)]
  have a: "0 \<le> blk_addr mp f" "blk_addr mp f \<le> 4294901760"
    using blk_addr_bounds [OF wf(1) assms(3)] wf(1) by (auto simp: map_shape_def)
  have "blk_addr mp f AND (al - 1) = blk_addr mp f mod al"
    using assms(2) False by (auto simp: align_ok_def and_low_bits)
  then show ?thesis using align_to_ok(5,6) [OF assms(2) a] False by (auto simp: pad_def)
qed

lemma ptr_level_Some:
  assumes "ptr_level mps i bytes al = Some l" "\<forall>mp \<in> set mps. map_inv mp" "align_ok al"
    "0 < bytes" "bytes + al < 2147483648"
  shows "\<exists>k. l = i + k \<and> k < length mps \<and>
    get_one (bytes, al) (mps ! k) = Some (take_block (mps ! k) al (- 1))"
  using assms(1,2)
proof (induction mps arbitrary: i)
  case (Cons mp mps)
  note al = align_ok_range [OF assms(3)]
  have s: "s32 (bytes + al) = bytes + al" using assms(4,5) al by (intro s32_id) auto
  note wf = map_wfD [OF map_inv_wf(1), of mp]
  show ?case
  proof (cases "ptr_level [mp] i bytes al")
    case None
    then have "ptr_level mps (Suc i) bytes al = Some l"
      using Cons.prems by (auto simp: Let_def split: if_splits)
    from Cons.IH [OF this] Cons.prems(2) obtain k where "l = Suc i + k" "k < length mps"
        "get_one (bytes, al) (mps ! k) = Some (take_block (mps ! k) al (- 1))" by auto
    then show ?thesis by (intro exI [of _ "Suc k"]) simp
  next
    case (Some x)
    have inv: "map_inv mp" using Cons.prems(2) by simp
    have l: "l = i" "free_count mp \<noteq> 0" using Cons.prems(1) Some by (auto simp: Let_def split: if_splits)
    define f where "f = nat (first_free mp)"
    have f: "first_free mp = int f" "f < length (block mp)" using wf [OF inv] l(2) by (auto simp: f_def)
    have "u32 (base mp + block_size mp * first_free mp) = blk_addr mp f"
      using blk_addr_bounds [OF wf(1) [OF inv] f(2)] wf(1) [OF inv] f(1)
      by (simp add: u32_id blk_addr_def map_shape_def mult.commute)
    then have "bytes + (if al \<noteq> 0 \<and> blk_addr mp f mod al \<noteq> 0 then al else 0) \<le> block_size mp"
      using Some s by (auto simp: Let_def split: if_splits)
    then have "bytes + pad mp al f \<le> block_size mp" using pad_le [OF map_inv_wf(1) [OF inv] assms(3) f(2)] by linarith
    then have "get_one (bytes, al) mp = Some (take_block mp al (- 1))"
      using get_one_first [OF map_inv_wf(1) [OF inv] assms(3,4) l(2)] by (simp add: f_def)
    then show ?thesis using l by (intro exI [of _ 0]) simp
  qed
qed simp

lemma get_ptr_from_heap_taken:
  assumes "heap_inv heap" "align_ok al" "0 < bytes" "bytes + al < 2147483648"
  obtains p heap' where "get_ptr_from_heap heap bytes al = Some (p, heap')"
    "(p = 0 \<and> heap' = heap) \<or> (\<exists>level. heap_taken heap level bytes al p heap')"
proof -
  note al = align_ok_range [OF assms(2)]
  have s: "s32 bytes = bytes" using assms(3,4) al by (intro s32_id) auto
  have v: "valid_request (bytes, al)" using assms al by (auto simp: valid_request_def)
  show thesis
  proof (cases "ptr_level (hp_map heap) 0 bytes al")
    case None
    then show thesis using that [of 0 heap] by (simp add: get_ptr_from_heap_def align_ok_power [OF assms(2)] s)
  next
    case (Some l)
    obtain p heap' where a: "alloc_block_index heap l al (- 1) = (p, heap')" by fastforce
    have "heap_taken heap l bytes al p heap'"
      using ptr_level_Some [OF Some _ assms(2-4)] assms(1) alloc_block_taken [OF assms(1) v _ _ a]
      by (auto simp: heap_inv_def)
    then show thesis using that [of p heap'] Some a
      by (auto simp: get_ptr_from_heap_def align_ok_power [OF assms(2)] s alloc_block_def)
  qed
qed

section \<open>Properties\<close>

definition demo_map :: "int \<Rightarrow> int \<Rightarrow> nat \<Rightarrow> block_map" where
  "demo_map b sz n = \<lparr>block_size = sz, map_count = int n, free_count = int n, first_free = 0,
     block = replicate n no_hdr, base = b\<rparr>"

definition demo_heap :: mm_heap where
  "demo_heap = \<lparr>hp_map = [demo_map 4096 64 4, demo_map 4352 384 3], hp_heap = 4096, hp_size = 1408,
     hp_caps = 1, info_used = 0, info_free = 1408\<rparr>"

lemma nfree_replicate [simp]: "nfree (replicate n no_hdr) = n"
  by (induction n) (auto simp: no_hdr_def)

lemma demo_map_inv:
  "0 < sz \<Longrightarrow> sz < 65536 \<Longrightarrow> n < 65536 \<Longrightarrow> 0 < b \<Longrightarrow> b + int n * sz \<le> 4294901760 \<Longrightarrow>
   map_inv (demo_map b sz n)"
  by (auto simp: map_inv_def map_wf_def map_shape_def owned_def demo_map_def no_hdr_def [THEN arg_cong, of hdr_used])

lemma demo_heap_inv: "heap_inv demo_heap"
  by (simp add: heap_inv_def demo_heap_def demo_map_inv) (simp add: demo_map_def map_end_def free_bytes_def map_bytes_def)

lemma align_ok_demo: "align_ok 256" "align_ok 0"
  by (auto simp: align_ok_def intro!: exI [of _ 8])





text \<open>
  C24: the search of \<open>alloc_cont_blocks\<close> is complete: on a well-formed map it fails exactly when
  no run of free blocks, starting in a block that contains an aligned address, holds the request
  behind that address.
\<close>

theorem alloc_cont_blocks_complete:
  assumes "map_wf mp" "align_ok alignment" "0 < bytes" "bytes \<le> 4294836224"
  shows "take_cont_blocks mp bytes alignment = None \<longleftrightarrow> (\<nexists>s e. fits mp bytes alignment s e)"
  by (rule take_cont_blocks_None [OF assms])

theorem alloc_cont_blocks_complete_witness:
  "take_cont_blocks (demo_map 4352 384 3) 800 256 = None \<longleftrightarrow>
     (\<nexists>s e. fits (demo_map 4352 384 3) 800 256 s e)"
  using alloc_cont_blocks_complete [OF map_inv_wf(1) align_ok_demo(1), of "demo_map 4352 384 3" 800]
  by (simp add: demo_map_inv)

text \<open>
  C9: a new allocation of contiguous blocks shares no block with an allocation that is still held,
  and every held allocation stays held.
\<close>

theorem held_allocations_disjoint:
  assumes "map_inv mp" "valid_request r" "get_run r mp = Some (p, mp')"
  shows "\<exists>e. holds_ext mp' p e \<and>
    (\<forall>q f. holds_ext mp q f \<longrightarrow> holds_ext mp' q f \<and> ext_blocks e \<inter> ext_blocks f = {})"
  by (rule run_allocator.get_fresh [OF assms])

lemma demo_run: "get_run (100, 0) (demo_map 4096 64 4) \<noteq> None"
  by code_simp

theorem held_allocations_disjoint_witness:
  "\<exists>p mp' e. get_run (100, 0) (demo_map 4096 64 4) = Some (p, mp') \<and> holds_ext mp' p e \<and>
    (\<forall>q f. holds_ext (demo_map 4096 64 4) q f \<longrightarrow> holds_ext mp' q f \<and> ext_blocks e \<inter> ext_blocks f = {})"
proof -
  obtain p mp' where "get_run (100, 0) (demo_map 4096 64 4) = Some (p, mp')" using demo_run by auto
  moreover from this obtain e where "holds_ext mp' p e"
    "\<forall>q f. holds_ext (demo_map 4096 64 4) q f \<longrightarrow> holds_ext mp' q f \<and> ext_blocks e \<inter> ext_blocks f = {}"
    using held_allocations_disjoint [of "demo_map 4096 64 4" "(100, 0)" p mp']
    by (auto simp: demo_map_inv valid_request_def align_ok_demo)
  ultimately show ?thesis by blast
qed

text \<open>
  C25: a client that allocates any list of aligned requests from single blocks and frees the
  addresses it got in the reverse order gets back the map it started from, and no free panics.
\<close>

theorem single_blocks_undo:
  assumes "map_inv mp" "\<forall>r \<in> set rs. valid_request r" "get_all get_one rs mp = (ps, mp')"
  shows "run_reqs get_one put_ext (map Put (rev ps)) mp' = Some mp"
  by (rule one_allocator.undo_all [OF assms])

theorem single_blocks_undo_witness:
  "\<exists>ps mp'. get_all get_one [(30, 0), (60, 256)] (demo_map 4096 64 4) = (ps, mp') \<and>
     run_reqs get_one put_ext (map Put (rev ps)) mp' = Some (demo_map 4096 64 4)"
proof -
  obtain ps mp' where g: "get_all get_one [(30, 0), (60, 256)] (demo_map 4096 64 4) = (ps, mp')" by fastforce
  have "\<forall>r \<in> set [(30, 0), (60, 256)]. valid_request r" by (simp add: valid_request_def align_ok_demo)
  from single_blocks_undo [OF demo_map_inv this g] g show ?thesis by simp
qed

end
