(* ===== verification/Sof_Alloc_Mm.thy ===== *)
theory Sof_Alloc_Mm
  imports Sof_Alloc_Heap
begin

text \<open>
  The memory map as a whole: the buffer allocation interface and \<open>rfree\<close> over all heaps. Freeing
  finds the heap by address, so the invariant separates the address ranges of the heaps.
\<close>

section \<open>The invariant of the memory map\<close>

definition heap_range :: "mm_heap \<Rightarrow> addr set" where
  "heap_range h = {hp_heap h..<hp_heap h + hp_size h}"

text \<open>The maps of a heap lie in the heap's range.\<close>

definition heap_spans :: "mm_heap \<Rightarrow> bool" where
  "heap_spans h \<longleftrightarrow> 0 \<le> hp_heap h \<and> 0 \<le> hp_size h \<and> hp_heap h + hp_size h < 4294967296 \<and>
     (\<forall>mp \<in> set (hp_map h). hp_heap h \<le> base mp \<and> map_end mp \<le> hp_heap h + hp_size h)"

text \<open>The heaps \<open>get_heap_from_ptr\<close> searches before the buffer heaps.\<close>

definition other_heaps :: "plat \<Rightarrow> mm \<Rightarrow> mm_heap list" where
  "other_heaps plat mm = mm_system_runtime mm ! cpu_id plat # mm_runtime mm @
     (if multi_core plat then mm_runtime_shared mm else [])"

definition rfree_sys_heap :: "plat \<Rightarrow> mm \<Rightarrow> addr \<Rightarrow> mm_heap" where
  "rfree_sys_heap plat mm ptr =
     (if multi_core plat then (if is_uncached plat ptr then mm_system_shared mm ! 0 else mm_system mm ! cpu_id plat)
      else mm_system mm ! 0)"

definition mm_inv :: "plat \<Rightarrow> mm \<Rightarrow> bool" where
  "mm_inv plat mm \<longleftrightarrow>
     (\<forall>h \<in> set (mm_buffer mm). heap_inv h \<and> heap_spans h) \<and>
     (\<forall>h \<in> set (other_heaps plat mm). heap_spans h) \<and>
     sorted_wrt (\<lambda>a b. heap_range a \<inter> heap_range b = {}) (mm_buffer mm) \<and>
     (\<forall>h \<in> set (mm_buffer mm). \<forall>g \<in> set (other_heaps plat mm). heap_range g \<inter> heap_range h = {}) \<and>
     (\<forall>h \<in> set (mm_buffer mm). \<forall>p \<in> heap_range h. p \<notin> heap_range (rfree_sys_heap plat mm p))"

text \<open>
  What the platform's address mapping does to addresses of the buffer heaps: they are cached
  addresses, and the platform's hook on \<open>rfree\<close> leaves them alone.
\<close>

definition buffers_cached :: "plat \<Rightarrow> mm \<Rightarrow> bool" where
  "buffers_cached plat mm \<longleftrightarrow> (\<forall>h \<in> set (mm_buffer mm). \<forall>p \<in> heap_range h.
     uncache_to_cache plat p = p \<and> rfree_prepare plat p = p)"

section \<open>Finding the heap of an address\<close>

lemma find_in_heap_arr_None:
  "(\<And>h. h \<in> set hs \<Longrightarrow> heap_spans h \<and> p \<notin> heap_range h) \<Longrightarrow> find_in_heap_arr hs p = None"
proof (induction hs)
  case (Cons h hs)
  have "heap_spans h" "p \<notin> heap_range h" using Cons.prems by auto
  then have "\<not> (p \<ge> hp_heap h \<and> p < u32 (hp_heap h + hp_size h))"
    by (auto simp: heap_spans_def heap_range_def u32_id)
  with Cons show ?case by simp
qed simp

lemma find_in_heap_arr_Some:
  assumes "sorted_wrt (\<lambda>a b. heap_range a \<inter> heap_range b = {}) hs" "\<forall>h \<in> set hs. heap_spans h"
    "j < length hs" "p \<in> heap_range (hs ! j)"
  shows "find_in_heap_arr hs p = Some j"
  using assms
proof (induction hs arbitrary: j)
  case (Cons h hs)
  have u: "u32 (hp_heap h + hp_size h) = hp_heap h + hp_size h"
    using Cons.prems(2) by (simp add: heap_spans_def u32_id)
  show ?case
  proof (cases j)
    case 0
    then show ?thesis using Cons.prems u by (simp add: heap_range_def)
  next
    case (Suc k)
    then have "hs ! k \<in> set hs" "p \<in> heap_range (hs ! k)" using Cons.prems by auto
    then have "p \<notin> heap_range h" using Cons.prems(1) by auto
    then show ?thesis using Cons Suc u by (auto simp: heap_range_def)
  qed
qed simp

lemma get_heap_from_ptr_buffer:
  assumes "sorted_wrt (\<lambda>a b. heap_range a \<inter> heap_range b = {}) (mm_buffer mm)"
    "\<forall>h \<in> set (mm_buffer mm). heap_spans h" "\<forall>g \<in> set (other_heaps plat mm). heap_spans g \<and> p \<notin> heap_range g"
    "j < length (mm_buffer mm)" "p \<in> heap_range (mm_buffer mm ! j)"
  shows "get_heap_from_ptr plat mm p = Some (Pool_Buffer, j)"
proof -
  have "find_in_heap_arr [mm_system_runtime mm ! cpu_id plat] p = None" "find_in_heap_arr (mm_runtime mm) p = None"
    "(if multi_core plat then find_in_heap_arr (mm_runtime_shared mm) p else None) = None"
    using assms(3) by (auto simp: other_heaps_def simp del: find_in_heap_arr.simps intro!: find_in_heap_arr_None)
  then show ?thesis using find_in_heap_arr_Some [OF assms(1,2,4,5)] by (simp add: get_heap_from_ptr_def)
qed

section \<open>Allocation from the buffer heaps\<close>

lemma balloc_heaps_taken:
  assumes "\<forall>h \<in> set (mm_buffer mm). heap_inv h" "align_ok al" "0 < bytes" "bytes + al \<le> 4294836224"
  shows "i \<le> length (mm_buffer mm) \<Longrightarrow> \<exists>p mm'. balloc_heaps (drop i (mm_buffer mm)) i mm caps bytes al = Some (p, mm') \<and>
    ((p = 0 \<and> mm' = mm) \<or> (\<exists>j level h'. j < length (mm_buffer mm) \<and>
       heap_taken (mm_buffer mm ! j) level bytes al p h' \<and> mm' = set_pool_heap Pool_Buffer j h' mm))"
proof (induction "length (mm_buffer mm) - i" arbitrary: i)
  case 0
  then show ?case by simp
next
  case (Suc n)
  then have i: "i < length (mm_buffer mm)" "n = length (mm_buffer mm) - Suc i" by linarith+
  have dr: "drop i (mm_buffer mm) = mm_buffer mm ! i # drop (Suc i) (mm_buffer mm)"
    using i(1) by (simp add: Cons_nth_drop_Suc)
  note IH = Suc.hyps(1) [OF i(2)]
  have inv: "heap_inv (mm_buffer mm ! i)" using assms(1) i(1) by simp
  obtain p h' where a: "alloc_heap_buffer (mm_buffer mm ! i) bytes al = Some (p, h')"
    "(p = 0 \<and> h' = mm_buffer mm ! i) \<or> (\<exists>level. heap_taken (mm_buffer mm ! i) level bytes al p h')"
    using alloc_heap_buffer_taken [OF inv assms(2-4)] .
  have id: "set_pool_heap Pool_Buffer i (mm_buffer mm ! i) mm = mm" by simp
  show ?case
  proof (cases "hp_caps (mm_buffer mm ! i) AND caps = caps \<and> p \<noteq> 0")
    case True
    then show ?thesis using a i(1) by (auto simp: dr)
  next
    case False
    then have "balloc_heaps (drop i (mm_buffer mm)) i mm caps bytes al =
        balloc_heaps (drop (Suc i) (mm_buffer mm)) (Suc i) mm caps bytes al"
      using a heap_taken_memory(4) [OF inv _ assms(2,3)] id by (auto simp: dr)
    then show ?thesis using IH i(1) by simp
  qed
qed

lemma heap_taken_range:
  assumes "heap_inv h" "heap_taken h level bytes al p h'" "align_ok al" "0 < bytes" "heap_spans h"
  shows "p \<in> heap_range h" "hp_heap h' = hp_heap h" "hp_size h' = hp_size h" "heap_spans h'"
proof -
  have l: "hp_map h ! level \<in> set (hp_map h)" "level < length (hp_map h)" using assms(2) by (auto simp: heap_taken_def)
  show "p \<in> heap_range h"
    using heap_taken_memory [OF assms(1-4)] assms(4,5) l(1) by (fastforce simp: heap_spans_def heap_range_def)
  from assms(2) obtain mp' s n where o: "occupied (hp_map h ! level) mp' s n" "h' = recount h level mp' (int n * block_size (hp_map h ! level))"
    by (auto simp: heap_taken_def)
  then show e: "hp_heap h' = hp_heap h" "hp_size h' = hp_size h" by (simp_all add: recount_def set_map_def)
  have g: "base mp' = base (hp_map h ! level)" "map_end mp' = map_end (hp_map h ! level)"
    using occupiedD(1) [OF o(1)] by (auto simp: same_geometry_def map_end_def)
  have "set (hp_map h') \<subseteq> insert mp' (set (hp_map h))"
    using o(2) set_update_subset_insert [of "hp_map h" level mp'] by (simp add: recount_def set_map_def)
  then show "heap_spans h'" using assms(5) l(1) g unfolding heap_spans_def e by auto
qed

lemma balloc_rfree:
  assumes "mm_inv plat mm" "buffers_cached plat mm" "j < length (mm_buffer mm)"
    "heap_taken (mm_buffer mm ! j) level bytes al p h'" "align_ok al" "0 < bytes"
    "mm' = (set_pool_heap Pool_Buffer j h' mm)\<lparr>heap_trace_updated := t\<rparr>"
  shows "uncache_to_cache plat p = p" "p \<noteq> 0" "rfree plat mm' p = Some (mm\<lparr>heap_trace_updated := 1\<rparr>)"
proof -
  let ?h = "mm_buffer mm ! j"
  have h: "?h \<in> set (mm_buffer mm)" "heap_inv ?h" "heap_spans ?h" using assms(1,3) by (auto simp: mm_inv_def)
  note r = heap_taken_range [OF h(2) assms(4-6) h(3)]
  have c: "uncache_to_cache plat p = p" "rfree_prepare plat p = p"
    using assms(2) h(1) r(1) by (auto simp: buffers_cached_def)
  show "uncache_to_cache plat p = p" by (rule c)
  show pos: "p \<noteq> 0" using heap_taken_memory(4) [OF h(2) assms(4-6)] by simp
  have rng: "heap_range h' = heap_range ?h" using r by (simp add: heap_range_def)
  have buf: "mm_buffer mm' = (mm_buffer mm)[j := h']" and oth: "other_heaps plat mm' = other_heaps plat mm"
    and sysh: "rfree_sys_heap plat mm' p = rfree_sys_heap plat mm p"
    using assms(7) by (simp_all add: other_heaps_def rfree_sys_heap_def)
  have "sorted_wrt (\<lambda>a b. heap_range a \<inter> heap_range b = {}) (mm_buffer mm')"
    using assms(1,3) rng unfolding mm_inv_def buf sorted_wrt_iff_nth_less by (auto simp: nth_list_update)
  moreover have "\<forall>h \<in> set (mm_buffer mm'). heap_spans h"
    using assms(1) r(4) set_update_subset_insert [of "mm_buffer mm" j h'] by (auto simp: mm_inv_def buf)
  moreover have "\<forall>g \<in> set (other_heaps plat mm'). heap_spans g \<and> p \<notin> heap_range g"
    using assms(1) h(1) r(1) unfolding oth mm_inv_def by blast
  ultimately have find: "get_heap_from_ptr plat mm' p = Some (Pool_Buffer, j)"
    using get_heap_from_ptr_buffer [of mm' plat p j] assms(3) r(1) rng by (simp add: buf)
  have "free_in_heap h' p = Some ?h" by (rule heap_taken_free [OF h(2) assms(4-6)])
  then have free: "free_block plat mm' p = Some (mm\<lparr>heap_trace_updated := t\<rparr>)"
    using find assms(3,7) by (simp add: free_block_def c buf Let_def)
  have "p \<notin> heap_range (rfree_sys_heap plat mm' p)" using assms(1) h(1) r(1) unfolding sysh mm_inv_def by blast
  then have "\<not> (p \<ge> hp_heap (rfree_sys_heap plat mm' p) \<and>
      p < hp_heap (rfree_sys_heap plat mm' p) + hp_size (rfree_sys_heap plat mm' p))"
    by (simp add: heap_range_def)
  then show "rfree plat mm' p = Some (mm\<lparr>heap_trace_updated := 1\<rparr>)"
    unfolding rfree_def rfree_unlocked_def rfree_sys_heap_def [symmetric] Let_def c using pos free by simp
qed

section \<open>Properties\<close>

definition demo_plat :: plat where
  "demo_plat = \<lparr>dcache_align = 64, multi_core = False, cpu_id = 0, primary_core = 0, trace_on = True,
     uncache_to_cache = id, cache_to_uncache = id, is_uncached = (\<lambda>_. False), rfree_prepare = id\<rparr>"

definition demo_other :: "addr \<Rightarrow> mm_heap" where
  "demo_other b = \<lparr>hp_map = [demo_map b 256 2], hp_heap = b, hp_size = 512, hp_caps = 1, info_used = 0, info_free = 512\<rparr>"

definition demo_mm :: mm where
  "demo_mm = \<lparr>mm_system = [demo_other 512], mm_system_runtime = [demo_other 1024], mm_system_shared = [],
     mm_runtime_shared = [], mm_runtime = [demo_other 2048], mm_buffer = [demo_heap], heap_trace_updated = 0\<rparr>"

text \<open>
  C12: a buffer allocated with \<open>rballoc_align\<close> and freed with \<open>rfree\<close> leaves the memory map as it
  was, the trace flag apart: the free finds the heap the buffer came from by its address, whatever
  heap and map the allocation chose. A failed allocation returns NULL and changes at most that
  flag. The hypotheses on the platform are that buffer heaps lie at cached addresses.
\<close>

theorem rballoc_rfree:
  assumes "mm_inv plat mm" "buffers_cached plat mm" "align_ok alignment" "0 < bytes"
    "bytes + alignment \<le> 4294836224" "flags AND SOF_MEM_FLAG_COHERENT = 0"
  shows "\<exists>p mm'. rballoc_align plat mm flags caps bytes alignment = Some (p, mm') \<and>
    (if p = 0 then mm'\<lparr>heap_trace_updated := 1\<rparr> = mm\<lparr>heap_trace_updated := 1\<rparr>
     else rfree plat mm' p = Some (mm\<lparr>heap_trace_updated := 1\<rparr>))"
proof -
  have "\<forall>h \<in> set (mm_buffer mm). heap_inv h" using assms(1) by (simp add: mm_inv_def)
  from balloc_heaps_taken [OF this assms(3-5), of 0 caps, unfolded drop_0, OF le0]
  obtain p mm1 where b: "balloc_heaps (mm_buffer mm) 0 mm caps bytes alignment = Some (p, mm1)"
    and r: "(p = 0 \<and> mm1 = mm) \<or> (\<exists>j level h'. j < length (mm_buffer mm) \<and>
       heap_taken (mm_buffer mm ! j) level bytes alignment p h' \<and> mm1 = set_pool_heap Pool_Buffer j h' mm)"
    by blast
  show ?thesis
  proof (cases "p = 0")
    case True
    then have "mm1 = mm" using r balloc_rfree(2) [OF assms(1,2) _ _ assms(3,4) refl] by blast
    with True b show ?thesis
      by (auto simp: rballoc_align_def balloc_unlocked_def DEBUG_TRACE_PTR_def heap_trace_all_def)
  next
    case False
    then obtain j level h' where t: "j < length (mm_buffer mm)"
      "heap_taken (mm_buffer mm ! j) level bytes alignment p h'" "mm1 = set_pool_heap Pool_Buffer j h' mm"
      using r by blast
    have eq: "mm1 = (set_pool_heap Pool_Buffer j h' mm)\<lparr>heap_trace_updated := heap_trace_updated mm\<rparr>"
      using t(3) by simp
    note f = balloc_rfree [OF assms(1,2) t(1,2) assms(3,4) eq]
    have "rballoc_align plat mm flags caps bytes alignment = Some (p, mm1)"
      using b False assms(6) f(1) by (simp add: rballoc_align_def balloc_unlocked_def DEBUG_TRACE_PTR_def)
    then show ?thesis using f(3) False by simp
  qed
qed

lemma demo_mm_inv: "mm_inv demo_plat demo_mm" "buffers_cached demo_plat demo_mm"
proof -
  show "buffers_cached demo_plat demo_mm" by (simp add: buffers_cached_def demo_plat_def)
  show "mm_inv demo_plat demo_mm"
    using demo_heap_inv
    by (auto simp: mm_inv_def demo_mm_def demo_plat_def other_heaps_def rfree_sys_heap_def heap_spans_def
        heap_range_def demo_other_def demo_heap_def demo_map_def map_end_def)
qed

theorem rballoc_rfree_witness:
  "\<exists>p mm'. rballoc_align demo_plat demo_mm 0 1 200 256 = Some (p, mm') \<and>
    (if p = 0 then mm'\<lparr>heap_trace_updated := 1\<rparr> = demo_mm\<lparr>heap_trace_updated := 1\<rparr>
     else rfree demo_plat mm' p = Some (demo_mm\<lparr>heap_trace_updated := 1\<rparr>))"
  using rballoc_rfree [OF demo_mm_inv align_ok_demo(1), of 200 0 1] by simp

end
