(* ===== verification/Sof_Buffer.thy ===== *)
theory Sof_Buffer
  imports Sof_Stream Sof_Alloc_Mm
begin

text \<open>
  The component buffer of \<open>src/audio/buffer.c\<close>: an audio stream with the parameters and the two
  components it connects, its life cycle over the memory allocator, and the counter contract of
  its produce and consume operations.
\<close>

section \<open>Definitions\<close>

text \<open>
  Pointers to components are addresses. The membership of a buffer in the lists of its two
  components is recorded by the components (theory \<open>Sof_Firmware\<close>).
\<close>

record comp_buffer =
  b_shared :: bool
  b_stream :: audio_stream
  b_id :: int
  b_pipeline_id :: int
  b_caps :: int
  b_core :: int
  b_source :: addr
  b_sink :: addr
  b_buffer_fmt :: int
  b_chmap :: "int list"
  hw_params_configured :: bool
  walking :: bool

text \<open>What a buffer operation tells the notifier.\<close>

datatype buffer_event =
    Buffer_Produce addr int addr
  | Buffer_Consume addr int addr
  | Buffer_Free addr
  | Unregister_All addr

record buf_state =
  bs_mm :: mm
  bs_mem :: mem
  bs_bufs :: "addr \<Rightarrow> comp_buffer"

definition SOF_IPC_MAX_CHANNELS :: nat where "SOF_IPC_MAX_CHANNELS = 8"
definition SOF_MEM_CAPS_RAM :: int where "SOF_MEM_CAPS_RAM = 1"
definition SOF_MEM_CAPS_DMA :: int where "SOF_MEM_CAPS_DMA = 32"
definition BUFF_PARAMS_FRAME_FMT :: int where "BUFF_PARAMS_FRAME_FMT = 1"
definition BUFF_PARAMS_RATE :: int where "BUFF_PARAMS_RATE = 4"
definition BUFF_PARAMS_CHANNELS :: int where "BUFF_PARAMS_CHANNELS = 8"

text \<open>The structure as \<open>rzalloc\<close> returns it.\<close>

definition zero_stream :: audio_stream where
  "zero_stream = \<lparr>st_size = 0, st_avail = 0, st_free = 0, w_ptr = 0, r_ptr = 0, st_addr = 0, end_addr = 0,
     frame_fmt = 0, valid_sample_fmt = 0, st_rate = 0, st_channels = 0,
     overrun_permitted = False, underrun_permitted = False\<rparr>"

definition zero_buffer :: comp_buffer where
  "zero_buffer = \<lparr>b_shared = False, b_stream = zero_stream, b_id = 0, b_pipeline_id = 0, b_caps = 0, b_core = 0,
     b_source = 0, b_sink = 0, b_buffer_fmt = 0, b_chmap = replicate SOF_IPC_MAX_CHANNELS 0,
     hw_params_configured = False, walking = False\<rparr>"

definition buffer_init :: "comp_buffer \<Rightarrow> int \<Rightarrow> int \<Rightarrow> comp_buffer" where
  "buffer_init buffer sz caps =
     buffer\<lparr>b_caps := caps, b_stream := audio_stream_init (b_stream buffer) (st_addr (b_stream buffer)) sz\<rparr>"

text \<open>The size of the structure is a parameter of the allocation.\<close>

definition buffer_alloc ::
    "plat \<Rightarrow> int \<Rightarrow> buf_state \<Rightarrow> int \<Rightarrow> int \<Rightarrow> int \<Rightarrow> (addr \<times> buf_state) option" where
  "buffer_alloc plat sizeof_buffer s sz caps align =
     (if sz = 0 then Some (0, s)
      else do {
        (buffer, mm1, m1) \<leftarrow>
          rzalloc plat (bs_mm s) (bs_mem s) SOF_MEM_ZONE_RUNTIME_SHARED SOF_MEM_CAPS_RAM sizeof_buffer;
        let s1 = s\<lparr>bs_mm := mm1, bs_mem := m1\<rparr>;
        if buffer = 0 then Some (0, s1)
        else do {
          (a, mm2) \<leftarrow> rballoc_align plat mm1 0 caps sz align;
          if a = 0 then do { mm3 \<leftarrow> rfree plat mm2 buffer; Some (0, s1\<lparr>bs_mm := mm3\<rparr>) }
          else
            let b = buffer_init (zero_buffer\<lparr>b_stream := zero_stream\<lparr>st_addr := a\<rparr>\<rparr>) sz caps
            in Some (buffer, s1\<lparr>bs_mm := mm2, bs_bufs := (bs_bufs s)(buffer := b)\<rparr>) } })"

definition buffer_zero :: "comp_buffer \<Rightarrow> mem \<Rightarrow> mem \<times> (addr \<times> int) list" where
  "buffer_zero buffer m =
     (bzero m (st_addr (b_stream buffer)) (st_size (b_stream buffer)),
      if b_caps buffer AND SOF_MEM_CAPS_DMA \<noteq> 0
      then [(st_addr (b_stream buffer), st_size (b_stream buffer))] else [])"

definition buffer_set_size ::
    "plat \<Rightarrow> buf_state \<Rightarrow> addr \<Rightarrow> int \<Rightarrow> (int \<times> buf_state) option" where
  "buffer_set_size plat s p sz =
     (let buffer = bs_bufs s p; old = st_size (b_stream buffer)
      in if sz = 0 then Some (- EINVAL, s)
         else if sz = old then Some (0, s)
         else do {
           (new_ptr, mm', m') \<leftarrow>
             rbrealloc plat (bs_mm s) (bs_mem s) (st_addr (b_stream buffer)) SOF_MEM_FLAG_NO_COPY
               (b_caps buffer) sz old;
           let s' = s\<lparr>bs_mm := mm', bs_mem := m'\<rparr>;
           if new_ptr = 0 \<and> sz > old then Some (- ENOMEM, s')
           else
             let b1 = (if new_ptr \<noteq> 0
                       then buffer\<lparr>b_stream := (b_stream buffer)\<lparr>st_addr := new_ptr\<rparr>\<rparr> else buffer)
             in Some (0, s'\<lparr>bs_bufs := (bs_bufs s)(p := buffer_init b1 sz (b_caps b1))\<rparr>) })"

definition buffer_set_params ::
    "comp_buffer \<Rightarrow> sof_ipc_stream_params option \<Rightarrow> bool \<Rightarrow> int \<times> comp_buffer" where
  "buffer_set_params buffer params force_update =
     (case params of
        None \<Rightarrow> (- EINVAL, buffer)
      | Some p \<Rightarrow>
          if hw_params_configured buffer \<and> \<not> force_update then (0, buffer)
          else
            let (ret, st) = audio_stream_set_params (b_stream buffer) params;
                b1 = buffer\<lparr>b_stream := st\<rparr>
            in if ret < 0 then (- EINVAL, b1)
               else (0, b1\<lparr>b_buffer_fmt := p_buffer_fmt p,
                           b_chmap := map (\<lambda>i. p_chmap p ! i) [0..<SOF_IPC_MAX_CHANNELS],
                           hw_params_configured := True\<rparr>))"

definition buffer_params_match :: "comp_buffer \<Rightarrow> sof_ipc_stream_params \<Rightarrow> int \<Rightarrow> bool" where
  "buffer_params_match buffer params flag =
     (if flag AND BUFF_PARAMS_FRAME_FMT \<noteq> 0 \<and> frame_fmt (b_stream buffer) \<noteq> p_frame_fmt params then False
      else if flag AND BUFF_PARAMS_RATE \<noteq> 0 \<and> st_rate (b_stream buffer) \<noteq> p_rate params then False
      else if flag AND BUFF_PARAMS_CHANNELS \<noteq> 0 \<and> st_channels (b_stream buffer) \<noteq> p_channels params
        then False
      else True)"

definition buffer_free :: "plat \<Rightarrow> buf_state \<Rightarrow> addr \<Rightarrow> (buf_state \<times> buffer_event list) option" where
  "buffer_free plat s p =
     do { mm1 \<leftarrow> rfree plat (bs_mm s) (st_addr (b_stream (bs_bufs s p)));
          mm2 \<leftarrow> rfree plat mm1 p;
          Some (s\<lparr>bs_mm := mm2\<rparr>, [Buffer_Free p, Unregister_All p]) }"

definition comp_update_buffer_produce ::
    "addr \<Rightarrow> comp_buffer \<Rightarrow> int \<Rightarrow> (comp_buffer \<times> buffer_event list) option" where
  "comp_update_buffer_produce p buffer bytes =
     (if bytes = 0 then Some (buffer, [])
      else do { st \<leftarrow> audio_stream_produce (b_stream buffer) bytes;
                Some (buffer\<lparr>b_stream := st\<rparr>, [Buffer_Produce p bytes (w_ptr (b_stream buffer))]) })"

definition comp_update_buffer_consume ::
    "addr \<Rightarrow> comp_buffer \<Rightarrow> int \<Rightarrow> (comp_buffer \<times> buffer_event list) option" where
  "comp_update_buffer_consume p buffer bytes =
     (if bytes = 0 then Some (buffer, [])
      else do { st \<leftarrow> audio_stream_consume (b_stream buffer) bytes;
                Some (buffer\<lparr>b_stream := st\<rparr>, [Buffer_Consume p bytes (r_ptr (b_stream buffer))]) })"

definition buffer_stream_invalidate :: "comp_buffer \<Rightarrow> int \<Rightarrow> (addr \<times> int) list" where
  "buffer_stream_invalidate buffer bytes =
     (if \<not> b_shared buffer then [] else audio_stream_invalidate (b_stream buffer) bytes)"

definition buffer_stream_writeback :: "comp_buffer \<Rightarrow> int \<Rightarrow> (addr \<times> int) list" where
  "buffer_stream_writeback buffer bytes =
     (if \<not> b_shared buffer then [] else audio_stream_writeback (b_stream buffer) bytes)"

definition buffer_reset_pos :: "comp_buffer \<Rightarrow> mem \<Rightarrow> comp_buffer \<times> mem \<times> (addr \<times> int) list" where
  "buffer_reset_pos buffer m =
     (let b = buffer\<lparr>b_stream := audio_stream_reset (b_stream buffer)\<rparr> in (b, buffer_zero b m))"

definition buffer_reset_params :: "comp_buffer \<Rightarrow> comp_buffer" where
  "buffer_reset_params buffer = buffer\<lparr>hw_params_configured := False\<rparr>"

section \<open>The counter contract\<close>

definition buf_put :: "comp_buffer \<Rightarrow> int \<Rightarrow> comp_buffer option" where
  "buf_put b n = map_option fst (comp_update_buffer_produce 0 b n)"

definition buf_get :: "comp_buffer \<Rightarrow> int \<Rightarrow> comp_buffer option" where
  "buf_get b n = map_option fst (comp_update_buffer_consume 0 b n)"

interpretation buf_counter: fifo_counter
  "\<lambda>b. stream_wf (b_stream b)" "\<lambda>b. st_size (b_stream b)" "\<lambda>b. st_avail (b_stream b)" buf_put buf_get
proof (unfold_locales, goal_cases)
  case (1 b)
  then show ?case by (auto simp: stream_wf_defs)
next
  case (2 b n)
  then have "n \<le> st_free (b_stream b)" by (simp add: stream_wf_defs)
  with 2 show ?case
    using produce_fits [of "b_stream b" n] produce_shape_wf [of "b_stream b" n]
    by (cases "n = 0") (auto simp: buf_put_def comp_update_buffer_produce_def)
next
  case (3 b n)
  then show ?case
    using consume_fits [of "b_stream b" n] consume_shape_wf [of "b_stream b" n]
    by (cases "n = 0") (auto simp: buf_get_def comp_update_buffer_consume_def)
qed

lemma buffer_init_ring:
  "0 < sz \<Longrightarrow> sz < 2147483648 \<Longrightarrow> stream_wf (b_stream (buffer_init b sz caps))"
  "st_size (b_stream (buffer_init b sz caps)) = sz" "st_avail (b_stream (buffer_init b sz caps)) = 0"
  by (simp_all add: buffer_init_def stream_wf_init) (simp_all add: audio_stream_init_def audio_stream_reset_def)

section \<open>Properties\<close>

definition demo_buffer :: comp_buffer where
  "demo_buffer = buffer_init (zero_buffer\<lparr>b_stream := zero_stream\<lparr>st_addr := 4096\<rparr>\<rparr>) 64 1"




definition demo_state :: buf_state where
  "demo_state = \<lparr>bs_mm = demo_mm, bs_mem = (\<lambda>_. 0), bs_bufs = (\<lambda>_. demo_buffer)\<rparr>"

lemma demo_set_size: "\<not> Option.is_none (buffer_set_size demo_plat demo_state 16 200)"
  by code_simp


end
