(* ===== verification/Sof_Numbers.thy ===== *)
theory Sof_Numbers
  imports Complex_Main Sof_Prelude
begin

text \<open>
  The number routines of \<open>src/math/numbers.c\<close> and \<open>src/include/sof/math/numbers.h\<close>: binary gcd,
  ceiling division, vector searches, normalisation and CRC-32.
\<close>

section \<open>Definitions\<close>

text \<open>The three loops of \<open>gcd\<close>; each returns only if its condition fails at some point.\<close>

partial_function (option) strip_common :: "int \<Rightarrow> int \<Rightarrow> nat \<Rightarrow> (int \<times> int \<times> nat) option" where
  "strip_common a b k =
     (if (a OR b) AND 1 = 0 then strip_common (drop_bit 1 a) (drop_bit 1 b) (Suc k) else Some (a, b, k))"

partial_function (option) strip_twos :: "int \<Rightarrow> int option" where
  "strip_twos a = (if a AND 1 = 0 then strip_twos (drop_bit 1 a) else Some a)"

partial_function (option) gcd_loop :: "int \<Rightarrow> int \<Rightarrow> int option" where
  "gcd_loop a b =
     do { b1 \<leftarrow> strip_twos b;
          let (a', b') = (if a > b1 then (b1, a) else (a, b1));
          let b'' = b' - a';
          if b'' \<noteq> 0 then gcd_loop a' b'' else Some a' }"

definition c_gcd :: "int \<Rightarrow> int \<Rightarrow> int option" where
  "c_gcd a b =
     (if a = 0 then Some b
      else if b = 0 then Some a
      else do {
        let a1 = (if a < 0 then s32 (- a) else a);
        let b1 = (if b < 0 then s32 (- b) else b);
        (a2, b2, k) \<leftarrow> strip_common a1 b1 0;
        a3 \<leftarrow> strip_twos a2;
        r \<leftarrow> gcd_loop a3 b2;
        Some (s32 (push_bit k r)) })"

definition ceil_divide :: "int \<Rightarrow> int \<Rightarrow> int" where
  "ceil_divide a b =
     (let c = s32 (a sdiv b)
      in if u32 (a XOR b) AND 2147483648 = 0 \<and> s32 (c * b) \<noteq> a then s32 (c + 1) else c)"

definition cross_product_s16 ::
    "int \<Rightarrow> int \<Rightarrow> int \<Rightarrow> int \<Rightarrow> int \<Rightarrow> int \<Rightarrow> int \<times> int \<times> int" where
  "cross_product_s16 a b c d e f =
     (s32 (s32 (b * f) - s32 (c * e)), s32 (s32 (c * d) - s32 (a * f)), s32 (s32 (a * e) - s32 (b * d)))"

text \<open>The loop of \<open>find_equal_int16\<close> from index \<open>i\<close>; the result is the list of indices written.\<close>

fun find_equal_loop :: "int list \<Rightarrow> int \<Rightarrow> int \<Rightarrow> int \<Rightarrow> int list \<Rightarrow> int list" where
  "find_equal_loop [] n i max_results idx = idx"
| "find_equal_loop (v # vec) n i max_results idx =
     (if v = n then
        (let idx' = idx @ [s16 i]
         in if int (length idx') = max_results then idx' else find_equal_loop vec n (i + 1) max_results idx')
      else find_equal_loop vec n (i + 1) max_results idx)"

definition find_equal_int16 :: "int list \<Rightarrow> int \<Rightarrow> int \<Rightarrow> int \<times> int list" where
  "find_equal_int16 vec n max_results =
     (let idx = find_equal_loop vec n 0 max_results [] in (int (length idx), idx))"

definition find_min_int16 :: "int list \<Rightarrow> int" where
  "find_min_int16 vec = s16 (fold (\<lambda>v mn. if v < mn then v else mn) (tl vec) (hd vec))"

definition find_max_abs_int32 :: "int list \<Rightarrow> int" where
  "find_max_abs_int32 vec =
     (let a0 = (if hd vec > 0 then hd vec else s32 (- hd vec));
          amax = fold (\<lambda>v amax. let amax = (if v > amax then v else amax)
                                in if s32 (- v) > amax then s32 (- v) else amax) (tl vec) a0
      in if amax > 2147483647 then 2147483647 else s32 amax)"

partial_function (option) norm_loop :: "int \<Rightarrow> int \<Rightarrow> int option" where
  "norm_loop val c = (if val \<noteq> - 1 \<and> val \<noteq> 0 then norm_loop (drop_bit 1 val) (c + 1) else Some c)"

definition norm_int32 :: "int \<Rightarrow> int option" where
  "norm_int32 val = do { c \<leftarrow> norm_loop val 0; Some (31 - c) }"

definition not32 :: "int \<Rightarrow> int" where
  "not32 x = u32 (NOT x)"

definition crc_bit :: "int \<Rightarrow> int" where
  "crc_bit cur = (if cur AND 1 \<noteq> 0 then drop_bit 1 cur XOR 0xEDB88320 else drop_bit 1 cur)"

definition crc_byte :: "int \<Rightarrow> int \<Rightarrow> int" where
  "crc_byte b crc = (crc_bit ^^ 8) ((crc XOR b) AND 0xFF) XOR drop_bit 8 crc"

definition crc32 :: "int \<Rightarrow> int list \<Rightarrow> int" where
  "crc32 base data = not32 (fold crc_byte data (not32 base))"

section \<open>Binary gcd\<close>

lemma and_1_even: "(x :: int) AND 1 = 0 \<longleftrightarrow> even x"
  by (simp add: and_one_eq even_iff_mod_2_eq_zero)

lemma or_and_1_even: "((a :: int) OR b) AND 1 = 0 \<longleftrightarrow> even a \<and> even b"
  by (simp add: and_one_eq even_iff_mod_2_eq_zero [symmetric] even_or_iff)

lemma strip_twos_Some:
  assumes "0 < a"
  shows "\<exists>r j. strip_twos a = Some r \<and> odd r \<and> 0 < r \<and> r \<le> a \<and> a = r * 2 ^ j"
  using assms
proof (induction "nat a" arbitrary: a rule: less_induct)
  case less
  show ?case
  proof (cases "even a")
    case False
    then have "strip_twos a = Some a \<and> odd a \<and> 0 < a \<and> a \<le> a \<and> a = a * 2 ^ 0"
      using less.prems by (simp add: strip_twos.simps [of a] and_1_even)
    then show ?thesis by blast
  next
    case True
    then obtain h where h: "a = 2 * h" by blast
    then have "0 < h" "nat h < nat a" using less.prems by auto
    from less.hyps [OF this(2,1)] obtain r j where
      r: "strip_twos h = Some r" "odd r" "0 < r" "r \<le> h" "h = r * 2 ^ j" by blast
    have "strip_twos a = strip_twos h" unfolding h by (subst strip_twos.simps) (simp add: and_1_even drop_bit_eq_div)
    moreover have "a = r * 2 ^ Suc j" using h r(5) by simp
    moreover have "r \<le> a" using r(4) h \<open>0 < h\<close> by linarith
    ultimately show ?thesis using r by metis
  qed
qed

lemma strip_common_Some:
  assumes "0 < a" "0 < b"
  shows "\<exists>x y j. strip_common a b k = Some (x, y, k + j) \<and> 0 < x \<and> 0 < y \<and> \<not> (even x \<and> even y) \<and>
    a = x * 2 ^ j \<and> b = y * 2 ^ j"
  using assms
proof (induction "nat a" arbitrary: a b k rule: less_induct)
  case less
  show ?case
  proof (cases "even a \<and> even b")
    case False
    then show ?thesis using less.prems
      by (intro exI [of _ a] exI [of _ b] exI [of _ 0])
        (auto simp: strip_common.simps [of a b k] or_and_1_even)
  next
    case True
    then obtain h g where h: "a = 2 * h" "b = 2 * g" by blast
    then have "0 < h" "0 < g" "nat h < nat a" using less.prems by auto
    from less.hyps [OF this(3,1,2), of "Suc k"] obtain x y j where
      r: "strip_common h g (Suc k) = Some (x, y, Suc k + j)" "0 < x" "0 < y" "\<not> (even x \<and> even y)"
         "h = x * 2 ^ j" "g = y * 2 ^ j" by blast
    have "strip_common a b k = strip_common h g (Suc k)"
      unfolding h by (subst strip_common.simps) (simp add: or_and_1_even drop_bit_eq_div)
    then show ?thesis using r h by (intro exI [of _ x] exI [of _ y] exI [of _ "Suc j"]) auto
  qed
qed

lemma gcd_odd_shift:
  fixes a r :: int
  assumes "odd a"
  shows "gcd a (r * 2 ^ j) = gcd a r"
proof -
  have "coprime a (2 ^ j)" using assms by (simp add: coprime_right_2_iff_odd)
  then show ?thesis by (simp add: gcd_mult_right_right_cancel coprime_commute)
qed

lemma gcd_loop_Some:
  assumes "0 < a" "odd a" "0 < b"
  shows "gcd_loop a b = Some (gcd a b)"
  using assms
proof (induction "nat (a + b)" arbitrary: a b rule: less_induct)
  case less
  obtain r j where r: "strip_twos b = Some r" "odd r" "0 < r" "r \<le> b" "b = r * 2 ^ j"
    using strip_twos_Some [OF less.prems(3)] by blast
  have g: "gcd a b = gcd a r" using gcd_odd_shift [OF less.prems(2)] r(5) by simp
  define lo hi where "lo = min a r" and "hi = max a r"
  have step: "gcd_loop a b = (if hi - lo \<noteq> 0 then gcd_loop lo (hi - lo) else Some lo)"
    using r(1) by (auto simp: gcd_loop.simps [of a b] lo_def hi_def Let_def)
  have lo: "0 < lo" "odd lo" "lo \<le> hi" "gcd lo hi = gcd a r"
    using less.prems r by (auto simp: lo_def hi_def min_def max_def gcd.commute)
  show ?case
  proof (cases "hi = lo")
    case True
    then have "gcd lo hi = lo" using lo(1) by simp
    then show ?thesis using step True lo g by simp
  next
    case False
    then have "0 < hi - lo" using lo(3) by simp
    moreover have "lo + (hi - lo) < a + b"
      using less.prems r(3,4) by (simp add: hi_def)
    ultimately have "gcd_loop lo (hi - lo) = Some (gcd lo (hi - lo))"
      using less.hyps [of lo "hi - lo"] lo less.prems by simp
    moreover have "gcd lo (hi - lo) = gcd lo hi" by (metis gcd.commute gcd_diff1)
    ultimately show ?thesis using step False lo g by simp
  qed
qed

lemma c_gcd_pos:
  assumes "0 < a" "0 < b" "a < 2147483648" "b < 2147483648"
  shows "c_gcd a b = Some (gcd a b)"
proof -
  obtain x y k where c: "strip_common a b 0 = Some (x, y, k)" "0 < x" "0 < y" "\<not> (even x \<and> even y)"
      "a = x * 2 ^ k" "b = y * 2 ^ k"
    using strip_common_Some [OF assms(1,2), of 0] by auto
  obtain r j where r: "strip_twos x = Some r" "odd r" "0 < r" "x = r * 2 ^ j"
    using strip_twos_Some [OF c(2)] by blast
  have "gcd x y = gcd r y"
  proof (cases "even x")
    case True
    then have "gcd y (r * 2 ^ j) = gcd y r" using c(4) gcd_odd_shift by blast
    then show ?thesis using r(4) by (simp add: gcd.commute)
  next
    case False
    then have "j = 0" using r(4) by (cases j) auto
    then show ?thesis using r(4) by simp
  qed
  then have "gcd a b = gcd r y * 2 ^ k" using gcd_mult_distrib_int [of "2 ^ k" x y] c(5,6) by (simp add: mult.commute)
  moreover have "gcd a b \<le> a" using assms by (simp add: zdvd_imp_le)
  moreover have "0 \<le> gcd a b" by simp
  ultimately have "s32 (gcd r y * 2 ^ k) = gcd a b" using assms s32_id [of "gcd r y * 2 ^ k"] by linarith
  then show ?thesis
    using c(1) r(1) gcd_loop_Some [OF r(3,2) c(3)] assms
    by (simp add: c_gcd_def push_bit_eq_mult)
qed

section \<open>Ceiling division\<close>

lemma bit31_s32: "is_s32 a \<Longrightarrow> bit a 31 \<longleftrightarrow> a < 0"
proof -
  assume a: "is_s32 a"
  have "a div 2147483648 = (if a < 0 then - 1 else 0)"
    using a int_div_pos_eq [of a 2147483648 "- 1" "a + 2147483648"] by simp
  then show ?thesis by (simp add: bit_iff_odd)
qed

lemma same_sign_test:
  assumes "is_s32 a" "is_s32 b"
  shows "u32 (a XOR b) AND 2147483648 = 0 \<longleftrightarrow> (a < 0 \<longleftrightarrow> b < 0)"
proof -
  have "u32 (a XOR b) = take_bit 32 (a XOR b)" by (simp add: u32_def take_bit_eq_mod)
  then have "bit (u32 (a XOR b)) 31 \<longleftrightarrow> bit a 31 \<noteq> bit b 31" by (simp add: bit_simps)
  moreover have "u32 (a XOR b) AND 2147483648 = 0 \<longleftrightarrow> \<not> bit (u32 (a XOR b)) 31"
    using and_exp_eq_0_iff_not_bit [of "u32 (a XOR b)" 31] by simp
  ultimately show ?thesis using bit31_s32 [OF assms(1)] bit31_s32 [OF assms(2)] by auto
qed

lemma sdiv_same_sign:
  fixes a b :: int
  assumes "b \<noteq> 0" "a < 0 \<longleftrightarrow> b < 0"
  shows "a sdiv b = a div b"
  using assms by (auto simp: signed_divide_int_def sgn_if)

lemma sdiv_other_sign:
  fixes a b :: int
  assumes "b \<noteq> 0" "a < 0 \<longleftrightarrow> \<not> b < 0"
  shows "a sdiv b = - (- a div b)"
  using assms div_minus_right [of a b] by (auto simp: signed_divide_int_def sgn_if)

lemma ceil_step:
  fixes a b :: int
  assumes "b \<noteq> 0"
  shows "- (- a div b) = (if a div b * b \<noteq> a then a div b + 1 else a div b)"
proof -
  have "a mod b = 0 \<longleftrightarrow> a div b * b = a" by (metis add.right_neutral add_left_imp_eq div_mult_mod_eq)
  then show ?thesis using zdiv_zminus1_eq_if [OF assms, of a] by simp
qed

lemma quot_bounds:
  fixes n d :: int
  assumes "0 \<le> n" "0 < d"
  shows "0 \<le> n div d" "n div d * d \<le> n" "d \<noteq> 1 \<Longrightarrow> 2 * (n div d) \<le> n"
proof -
  show q: "0 \<le> n div d" using assms by (simp add: pos_imp_zdiv_nonneg_iff)
  show m: "n div d * d \<le> n" using assms pos_mod_sign [of d n] div_mult_mod_eq [of n d] by linarith
  show "2 * (n div d) \<le> n" if "d \<noteq> 1"
    using that m q assms mult_left_mono [of 2 d "n div d"] by (simp add: mult.commute)
qed

section \<open>Normalisation\<close>

lemma norm_loop_Some:
  "\<exists>k. norm_loop v c = Some (c + int k) \<and> - (2 ^ k) \<le> v \<and> v < 2 ^ k \<and>
     (0 < k \<longrightarrow> \<not> (- (2 ^ (k - 1)) \<le> v \<and> v < 2 ^ (k - 1)))"
proof (induction "nat \<bar>v\<bar>" arbitrary: v c rule: less_induct)
  case less
  show ?case
  proof (cases "v = 0 \<or> v = - 1")
    case True
    then have "norm_loop v c = Some c" by (subst norm_loop.simps) auto
    then show ?thesis using True by (intro exI [of _ 0]) auto
  next
    case False
    define h where "h = v div 2"
    have h: "2 * h \<le> v" "v \<le> 2 * h + 1" unfolding h_def by linarith+
    then have "nat \<bar>h\<bar> < nat \<bar>v\<bar>" using False by linarith
    from less [OF this, of "c + 1"] obtain k where
      k: "norm_loop h (c + 1) = Some (c + 1 + int k)" "- (2 ^ k) \<le> h" "h < 2 ^ k"
         "0 < k \<longrightarrow> \<not> (- (2 ^ (k - 1)) \<le> h \<and> h < 2 ^ (k - 1))" by blast
    have step: "norm_loop v c = norm_loop h (c + 1)"
      using False by (subst norm_loop.simps) (simp add: h_def drop_bit_eq_div)
    have "- (2 ^ Suc k) \<le> v \<and> v < 2 ^ Suc k" using k(2,3) h by simp
    moreover have "\<not> (- (2 ^ k) \<le> v \<and> v < 2 ^ k)"
    proof (cases k)
      case 0
      then show ?thesis using False by auto
    next
      case (Suc j)
      then show ?thesis using k(4) h by auto
    qed
    ultimately show ?thesis using step k(1) by (intro exI [of _ "Suc k"]) simp
  qed
qed

section \<open>CRC-32\<close>

text \<open>The table-free byte step is eight steps of the shift register fed with the byte.\<close>

lemma crc_bit_xor: "crc_bit (x XOR y) = crc_bit x XOR crc_bit y"
proof -
  have "(x XOR y) AND 1 \<noteq> 0 \<longleftrightarrow> (x AND 1 \<noteq> 0) \<noteq> (y AND 1 \<noteq> 0)"
    by (simp add: and_1_even even_xor_iff)
  then show ?thesis
    by (auto simp: crc_bit_def drop_bit_xor ac_simps xor.left_commute)
qed

lemma crc_bits_xor: "(crc_bit ^^ n) (x XOR y) = (crc_bit ^^ n) x XOR (crc_bit ^^ n) y"
  by (induction n) (simp_all add: crc_bit_xor)

lemma crc_bits_high: "(crc_bit ^^ n) (push_bit n h) = h"
proof (induction n)
  case (Suc n)
  have "crc_bit (push_bit (Suc n) h) = push_bit n h"
    by (simp add: crc_bit_def and_1_even push_bit_eq_mult drop_bit_eq_div)
  then show ?case using Suc by (simp only: funpow_Suc_right comp_apply)
qed simp

lemma low_high_xor: "x = (x AND 255) XOR push_bit 8 (drop_bit 8 (x :: int))"
proof -
  have m: "(255 :: int) = mask 8" by (simp add: mask_eq_exp_minus_1)
  show ?thesis unfolding m by (rule bit_eqI) (auto simp: bit_simps)
qed

lemma crc_byte_serial:
  assumes "0 \<le> b" "b < 256"
  shows "crc_byte b crc = (crc_bit ^^ 8) (crc XOR b)"
proof -
  have "drop_bit 8 b = 0" using assms by (simp add: drop_bit_eq_div)
  then have "drop_bit 8 (crc XOR b) = drop_bit 8 crc" by (simp add: drop_bit_xor)
  then have "crc XOR b = ((crc XOR b) AND 255) XOR push_bit 8 (drop_bit 8 crc)"
    using low_high_xor [of "crc XOR b"] by simp
  then have "(crc_bit ^^ 8) (crc XOR b) =
      (crc_bit ^^ 8) ((crc XOR b) AND 255) XOR (crc_bit ^^ 8) (push_bit 8 (drop_bit 8 crc))"
    by (metis crc_bits_xor)
  then show ?thesis by (simp add: crc_byte_def crc_bits_high)
qed

text \<open>On 32 bit registers every step is injective, since the feedback shows in the top bit.\<close>

lemma u32_take: "u32 x = take_bit 32 x"
  by (simp add: u32_def take_bit_eq_mod)

lemma is_u32_take: "is_u32 x \<longleftrightarrow> take_bit 32 x = x"
  using u32_range [of x] u32_id [of x] unfolding u32_take by metis

lemma is_u32_xor: "is_u32 x \<Longrightarrow> is_u32 y \<Longrightarrow> is_u32 (x XOR y)"
  unfolding is_u32_take by (simp add: take_bit_xor)

lemma crc_bit_u32: "is_u32 x \<Longrightarrow> is_u32 (crc_bit x)"
  unfolding crc_bit_def by (auto intro!: is_u32_xor [THEN conjunct1] is_u32_xor [THEN conjunct2] simp: drop_bit_eq_div)

lemma crc_bit_top: "is_u32 x \<Longrightarrow> bit (crc_bit x) 31 \<longleftrightarrow> odd x"
proof -
  assume "is_u32 x"
  then have "\<not> bit x 32" unfolding is_u32_take by (metis bit_take_bit_iff less_irrefl)
  then show ?thesis by (simp add: crc_bit_def and_1_even bit_simps)
qed

lemma drop_bit_parity: "drop_bit 1 x = drop_bit 1 (y :: int) \<Longrightarrow> odd x = odd y \<Longrightarrow> x = y"
  by (simp add: drop_bit_eq_div) (metis div_mult_mod_eq parity_cases)

lemma xor_cancel: "x XOR z = y XOR (z :: int) \<Longrightarrow> x = y"
  by (metis xor.assoc xor.right_neutral xor_self_eq)

lemma crc_bit_inj:
  assumes "is_u32 x" "is_u32 y" "crc_bit x = crc_bit y"
  shows "x = y"
proof (rule drop_bit_parity)
  show p: "odd x = odd y" using crc_bit_top [OF assms(1)] crc_bit_top [OF assms(2)] assms(3) by simp
  show "drop_bit 1 x = drop_bit 1 y"
    using assms(3) p xor_cancel by (auto simp: crc_bit_def and_1_even split: if_splits)
qed

lemma crc_bits_u32: "is_u32 x \<Longrightarrow> is_u32 ((crc_bit ^^ n) x)"
  by (induction n) (simp, simp only: funpow.simps comp_apply crc_bit_u32)

lemma crc_bits_inj:
  assumes "is_u32 x" "is_u32 y" "(crc_bit ^^ n) x = (crc_bit ^^ n) y"
  shows "x = y"
  using assms(3)
proof (induction n)
  case (Suc n)
  then show ?case using crc_bit_inj crc_bits_u32 [OF assms(1)] crc_bits_u32 [OF assms(2)] by auto
qed simp

definition byte_list :: "int list \<Rightarrow> bool" where
  "byte_list xs = list_all (\<lambda>b. 0 \<le> b \<and> b < 256) xs"

lemma crc_byte_u32:
  assumes "is_u32 crc" "0 \<le> b" "b < 256"
  shows "is_u32 (crc_byte b crc)"
  using crc_bits_u32 [of "crc XOR b" 8] is_u32_xor [of crc b] assms by (simp add: crc_byte_serial)

lemma crc_byte_inj:
  assumes "is_u32 c" "is_u32 d" "0 \<le> b" "b < 256" "0 \<le> e" "e < 256" "crc_byte b c = crc_byte e d"
  shows "c XOR b = d XOR e"
  using crc_bits_inj [of "c XOR b" "d XOR e" 8] is_u32_xor [of c b] is_u32_xor [of d e] assms
  by (simp add: crc_byte_serial)

lemma crc_fold_u32: "byte_list xs \<Longrightarrow> is_u32 c \<Longrightarrow> is_u32 (fold crc_byte xs c)"
  by (induction xs arbitrary: c) (simp_all add: byte_list_def crc_byte_u32)

lemma crc_fold_inj:
  "byte_list xs \<Longrightarrow> is_u32 c \<Longrightarrow> is_u32 d \<Longrightarrow> fold crc_byte xs c = fold crc_byte xs d \<Longrightarrow> c = d"
proof (induction xs arbitrary: c d)
  case (Cons b xs)
  have b: "0 \<le> b" "b < 256" "byte_list xs" using Cons.prems(1) by (auto simp: byte_list_def)
  have "crc_byte b c = crc_byte b d"
    using Cons.IH [OF b(3)] crc_byte_u32 [OF _ b(1,2)] Cons.prems by simp
  then have "c XOR b = d XOR b" using crc_byte_inj [of c d b b] Cons.prems b by blast
  then show ?case by (rule xor_cancel)
qed simp

lemma not32_u32: "is_u32 (not32 x)"
  unfolding not32_def by (rule u32_range)

lemma not32_not32: "is_u32 x \<Longrightarrow> not32 (not32 x) = x"
  unfolding not32_def u32_take is_u32_take by (simp add: take_bit_not_take_bit)

section \<open>Vector searches\<close>

lemma find_equal_loop_all:
  assumes "max_results \<le> int (length idx)"
  shows "find_equal_loop vec n i max_results idx =
    idx @ map (\<lambda>j. s16 (i + int j)) (filter (\<lambda>j. vec ! j = n) [0..<length vec])"
  using assms
proof (induction vec arbitrary: i idx)
  case (Cons v vec)
  have "filter (\<lambda>j. (v # vec) ! j = n) [0..<length (v # vec)] =
      (if v = n then [0] else []) @ map Suc (filter (\<lambda>j. vec ! j = n) [0..<length vec])"
    by (simp add: upt_conv_Cons map_Suc_upt [symmetric] filter_map comp_def del: upt_Suc)
  moreover have "int (length (idx @ [s16 i])) \<noteq> max_results" using Cons.prems by simp
  ultimately show ?case
    using Cons.IH [of "idx @ [s16 i]" "i + 1"] Cons.IH [of idx "i + 1"] Cons.prems
    by (simp add: comp_def algebra_simps)
qed simp

lemma fold_min_Min: "fold (\<lambda>v mn. if v < mn then v else mn) xs (a :: int) = Min (insert a (set xs))"
proof (induction xs arbitrary: a)
  case (Cons x xs)
  have "Min (insert a (insert x (set xs))) = Min (insert (min x a) (set xs))"
    by (cases "xs = []") (simp_all add: min.commute min.left_commute)
  then show ?case using Cons by (simp add: min_def)
qed simp

lemma max_abs_step:
  assumes "- 2147483648 < v" "v < 2147483648" "0 \<le> amax"
  shows "(let amax = (if v > amax then v else amax) in if s32 (- v) > amax then s32 (- v) else amax) = max \<bar>v\<bar> amax"
  using assms by (auto simp: s32_id Let_def)

lemma fold_max_abs:
  assumes "\<forall>v \<in> set xs. - 2147483648 < v \<and> v < 2147483648" "0 \<le> a"
  shows "fold (\<lambda>v amax. let amax = (if v > amax then v else amax)
                  in if s32 (- v) > amax then s32 (- v) else amax) xs a = Max (insert a (abs ` set xs))"
  using assms
proof (induction xs arbitrary: a)
  case (Cons x xs)
  have "Max (insert a (insert \<bar>x\<bar> (abs ` set xs))) = Max (insert (max \<bar>x\<bar> a) (abs ` set xs))"
    by (cases "xs = []") (simp_all add: max.commute max.left_commute)
  then show ?case using Cons.IH [of "max \<bar>x\<bar> a"] Cons.prems max_abs_step [of x a] by simp
qed simp

section \<open>Properties\<close>

text \<open>
  C30: the binary gcd terminates and computes the greatest common divisor, for all arguments but
  the smallest negative number; for a zero argument it returns the other one, sign included.
\<close>

theorem gcd_correct:
  assumes "is_s32 a" "is_s32 b" "a \<noteq> - 2147483648" "b \<noteq> - 2147483648"
  shows "c_gcd a b = Some (if a = 0 then b else if b = 0 then a else gcd a b)"
proof (cases "a = 0 \<or> b = 0")
  case True
  then show ?thesis by (auto simp: c_gcd_def)
next
  case False
  have "c_gcd a b = c_gcd \<bar>a\<bar> \<bar>b\<bar>" using False assms by (simp add: c_gcd_def s32_id)
  also have "\<dots> = Some (gcd a b)" using False assms c_gcd_pos [of "\<bar>a\<bar>" "\<bar>b\<bar>"] by (simp add: abs_less_iff)
  finally show ?thesis using False by simp
qed

theorem gcd_correct_witness:
  "c_gcd (- 48) 36 = Some (if - 48 = (0 :: int) then 36 else if 36 = (0 :: int) then - 48 else gcd (- 48) 36)"
  using gcd_correct [of "- 48" 36] by simp

text \<open>
  C31: \<open>ceil_divide\<close> returns the quotient rounded towards plus infinity, for every pair of 32 bit
  operands whose quotient is representable.
\<close>

theorem ceil_divide_rounds_up:
  assumes "is_s32 a" "is_s32 b" "b \<noteq> 0" "\<not> (a = - 2147483648 \<and> b = - 1)"
  shows "ceil_divide a b = \<lceil>rat_of_int a / rat_of_int b\<rceil>"
proof -
  have goal: "\<lceil>rat_of_int a / rat_of_int b\<rceil> = - (- a div b)"
    using floor_divide_of_int_eq [of "- a" b, where ?'a = rat] by (simp add: ceiling_def)
  define q where "q = \<bar>a\<bar> div \<bar>b\<bar>"
  have q: "0 \<le> q" "q * \<bar>b\<bar> \<le> \<bar>a\<bar>" "\<bar>b\<bar> \<noteq> 1 \<Longrightarrow> 2 * q \<le> \<bar>a\<bar>" "\<bar>b\<bar> = 1 \<Longrightarrow> q = \<bar>a\<bar>"
    using quot_bounds [of "\<bar>a\<bar>" "\<bar>b\<bar>"] assms(3) by (simp_all add: q_def)
  note sg = same_sign_test [OF assms(1,2)]
  show ?thesis
  proof (cases "a < 0 \<longleftrightarrow> b < 0")
    case False
    then have e: "- (- a div b) = - q" using assms(3) div_minus_right [of a b] by (auto simp: q_def)
    have "is_s32 (- q)" using q assms by (cases "\<bar>b\<bar> = 1") auto
    then show ?thesis using goal sg False e sdiv_other_sign [OF assms(3), of a]
      by (simp add: ceil_divide_def s32_id)
  next
    case True
    then have e: "a div b = q" using assms(3) by (auto simp: q_def)
    have m: "q * b = (if b < 0 then - (q * \<bar>b\<bar>) else q * \<bar>b\<bar>)" "0 \<le> q * \<bar>b\<bar>" using q(1) by simp_all
    have "\<not> (a = - 2147483648 \<and> \<bar>b\<bar> = 1)" using assms(4) True by auto
    then have "is_s32 q" using q(1,3,4) assms(1) True by (cases "\<bar>b\<bar> = 1") linarith+
    moreover have "is_s32 (q * b)" using m q(2) assms(1) True by (cases "b < 0") linarith+
    moreover have "is_s32 (q + 1)" if h: "q * b \<noteq> a"
    proof -
      have "\<bar>b\<bar> \<noteq> 1" using h m(1) q(4) True assms(3) by (auto split: if_splits)
      then show ?thesis using q(1,3) assms(1) by linarith
    qed
    ultimately show ?thesis
      using goal sg True e sdiv_same_sign [OF assms(3), of a] ceil_step [OF assms(3), of a]
      by (simp add: ceil_divide_def s32_id Let_def)
  qed
qed

theorem ceil_divide_rounds_up_witness:
  "ceil_divide 10 3 = \<lceil>rat_of_int 10 / rat_of_int 3\<rceil>"
  using ceil_divide_rounds_up [of 10 3] by simp

text \<open>
  C32: the shift count of \<open>norm_int32\<close> normalises: the loop ends, shifting left by the count keeps
  the value inside 32 bits, and one position more does not.
\<close>

theorem norm_int32_normalises:
  assumes "is_s32 val"
  shows "\<exists>c. norm_int32 val = Some (int c) \<and> c \<le> 31 \<and> is_s32 (val * 2 ^ c) \<and>
    (val \<noteq> 0 \<longrightarrow> \<not> is_s32 (val * 2 ^ Suc c))"
proof -
  obtain k where k: "norm_loop val 0 = Some (int k)" "- (2 ^ k) \<le> val" "val < 2 ^ k"
    "0 < k \<longrightarrow> \<not> (- (2 ^ (k - 1)) \<le> val \<and> val < 2 ^ (k - 1))"
    using norm_loop_Some [of val 0] by auto
  have k31: "k \<le> 31"
  proof (rule ccontr)
    assume "\<not> k \<le> 31"
    then have "(2 :: int) ^ 31 \<le> 2 ^ (k - 1)" by (intro power_increasing) auto
    then show False using k(4) assms \<open>\<not> k \<le> 31\<close> by auto
  qed
  define c where "c = 31 - k"
  have p: "(2 :: int) ^ k * 2 ^ c = 2147483648"
    using k31 by (simp add: c_def power_add [symmetric])
  have lo: "- (2 ^ k) * 2 ^ c \<le> val * 2 ^ c" using k(2) by (intro mult_right_mono) auto
  have hi: "val * 2 ^ c < 2 ^ k * 2 ^ c" using k(3) by (intro mult_strict_right_mono) auto
  have "\<not> is_s32 (val * 2 ^ Suc c)" if nz: "val \<noteq> 0"
  proof (cases "k = 0")
    case True
    then have "val = - 1" using k(2,3) nz by auto
    then show ?thesis using True by (simp add: c_def)
  next
    case False
    then have h: "(2 :: int) ^ (k - 1) * 2 ^ Suc c = 2147483648"
      using p by (cases k) auto
    have "val < - (2 ^ (k - 1)) \<or> 2 ^ (k - 1) \<le> val" using k(4) False by auto
    then have "val * 2 ^ Suc c < - (2 ^ (k - 1)) * 2 ^ Suc c \<or> 2 ^ (k - 1) * 2 ^ Suc c \<le> val * 2 ^ Suc c"
      by (meson mult_strict_right_mono mult_right_mono zero_less_power zero_less_numeral less_imp_le)
    then show ?thesis using h by linarith
  qed
  moreover have "norm_int32 val = Some (int c)"
    using k(1) k31 by (simp add: norm_int32_def c_def)
  moreover have "- 2147483648 \<le> val * 2 ^ c" "val * 2 ^ c < 2147483648" using lo hi p by linarith+
  moreover have "c \<le> 31" by (simp add: c_def)
  ultimately show ?thesis by blast
qed

theorem norm_int32_normalises_witness:
  "\<exists>c. norm_int32 1000 = Some (int c) \<and> c \<le> 31 \<and> is_s32 (1000 * 2 ^ c) \<and> \<not> is_s32 (1000 * 2 ^ Suc c)"
  using norm_int32_normalises [of 1000] by simp

text \<open>
  C33: the checksum can be computed piecewise, the checksum of a prefix being the base of the rest,
  and it detects every corruption confined to one byte.
\<close>

theorem crc32_chains_and_detects:
  assumes "byte_list xs" "byte_list ys" "byte_list [b, e]" "b \<noteq> e"
  shows "crc32 (crc32 base xs) ys = crc32 base (xs @ ys) \<and>
    crc32 base (xs @ b # ys) \<noteq> crc32 base (xs @ e # ys)"
proof -
  define c where "c = fold crc_byte xs (not32 base)"
  have c: "is_u32 c" unfolding c_def using crc_fold_u32 [OF assms(1) not32_u32] .
  have chain: "crc32 (crc32 base xs) ys = crc32 base (xs @ ys)"
    using not32_not32 [OF c] by (simp add: crc32_def c_def)
  have be: "0 \<le> b" "b < 256" "0 \<le> e" "e < 256" using assms(3) by (auto simp: byte_list_def)
  have "crc32 base (xs @ b # ys) \<noteq> crc32 base (xs @ e # ys)"
  proof
    assume h: "crc32 base (xs @ b # ys) = crc32 base (xs @ e # ys)"
    let ?f = "\<lambda>z. fold crc_byte ys (crc_byte z c)"
    have u: "is_u32 (crc_byte b c)" "is_u32 (crc_byte e c)" using crc_byte_u32 [OF c] be by auto
    have "not32 (?f b) = not32 (?f e)" using h by (simp add: crc32_def c_def)
    then have "?f b = ?f e" using not32_not32 crc_fold_u32 [OF assms(2)] u by metis
    then have "crc_byte b c = crc_byte e c" using crc_fold_inj [OF assms(2)] u by blast
    then have "b XOR c = e XOR c" using crc_byte_inj [of c c b e] c be by (metis xor.commute)
    then show False using assms(4) xor_cancel by blast
  qed
  with chain show ?thesis by blast
qed

theorem crc32_chains_and_detects_witness:
  "crc32 (crc32 0 [49, 50]) [51] = crc32 0 ([49, 50] @ [51]) \<and> crc32 0 ([49, 50] @ 7 # [51]) \<noteq> crc32 0 ([49, 50] @ 8 # [51])"
  using crc32_chains_and_detects [of "[49, 50]" "[51]" 7 8 0] by (simp add: byte_list_def)

text \<open>
  C34: the vector searches. Without a limit (\<open>max_results\<close> zero or negative) \<open>find_equal_int16\<close>
  returns all matching positions in ascending order and their number; \<open>find_min_int16\<close> returns the
  minimum; \<open>find_max_abs_int32\<close> returns the largest magnitude when the smallest negative number
  does not occur.
\<close>

theorem vector_searches:
  assumes "\<forall>v \<in> set vec. - 2147483648 < v \<and> v < 2147483648" "vec \<noteq> []" "length vec \<le> 32768"
    "max_results \<le> 0" "\<forall>v \<in> set vec16. is_s16 v" "vec16 \<noteq> []"
  shows "find_max_abs_int32 vec = Max (abs ` set vec) \<and> find_min_int16 vec16 = Min (set vec16) \<and>
    find_equal_int16 vec n max_results =
      (let js = filter (\<lambda>j. vec ! j = n) [0..<length vec] in (int (length js), map int js))"
proof (intro conjI)
  obtain v vs where v: "vec = v # vs" using assms(2) by (cases vec) auto
  have a0: "(if v > 0 then v else s32 (- v)) = \<bar>v\<bar>" using assms(1) v by (auto simp: s32_id)
  have m: "Max (abs ` set vec) \<in> abs ` set vec" using v by (intro Max_in) auto
  then have "is_s32 (Max (abs ` set vec))" using assms(1) by fastforce
  moreover have "find_max_abs_int32 vec = (let amax = Max (abs ` set vec) in if amax > 2147483647 then 2147483647 else s32 amax)"
    using fold_max_abs [of vs "\<bar>v\<bar>"] assms(1) v
    unfolding find_max_abs_int32_def v list.sel a0 Let_def [of "\<bar>v\<bar>"] by simp
  ultimately show "find_max_abs_int32 vec = Max (abs ` set vec)" by (simp add: Let_def s32_id)
  obtain w ws where w: "vec16 = w # ws" using assms(6) by (cases vec16) auto
  have "Min (set vec16) \<in> set vec16" using w by (intro Min_in) auto
  then have "is_s16 (Min (set vec16))" using assms(5) by blast
  then show "find_min_int16 vec16 = Min (set vec16)" using w by (simp add: find_min_int16_def fold_min_Min s16_id)
  have "map (\<lambda>j. s16 (int j)) (filter (\<lambda>j. vec ! j = n) [0..<length vec]) =
      map int (filter (\<lambda>j. vec ! j = n) [0..<length vec])"
    using assms(3) by (intro map_cong) (auto simp: s16_id)
  then show "find_equal_int16 vec n max_results =
      (let js = filter (\<lambda>j. vec ! j = n) [0..<length vec] in (int (length js), map int js))"
    using find_equal_loop_all [of max_results "[]" vec n 0] assms(4) by (simp add: find_equal_int16_def Let_def)
qed

theorem vector_searches_witness:
  "find_max_abs_int32 [3, - 9, 3] = Max (abs ` set [3, - 9, 3]) \<and> find_min_int16 [5, - 2] = Min (set [5, - 2]) \<and>
   find_equal_int16 [3, - 9, 3] 3 0 =
     (let js = filter (\<lambda>j. [3, - 9, 3 :: int] ! j = 3) [0..<length [3, - 9, 3 :: int]] in (int (length js), map int js))"
  using vector_searches [of "[3, - 9, 3]" 0 "[5, - 2]" 3] by simp

end
