(* ===== verification/Sof_Component.thy ===== *)
theory Sof_Component
  imports Sof_Buffer Sof_Numbers "HOL-Library.Sublist"
begin

text \<open>
  The component device of \<open>src/include/sof/audio/component.h\<close>, \<open>component_ext.h\<close> and
  \<open>src/audio/component.c\<close>: its state machine, the period and copy-limit computations and the list of
  registered drivers.
\<close>

section \<open>Definitions\<close>

definition COMP_STATE_INIT :: int where "COMP_STATE_INIT = 0"
definition COMP_STATE_READY :: int where "COMP_STATE_READY = 1"
definition COMP_STATE_SUSPEND :: int where "COMP_STATE_SUSPEND = 2"
definition COMP_STATE_PREPARE :: int where "COMP_STATE_PREPARE = 3"
definition COMP_STATE_PAUSED :: int where "COMP_STATE_PAUSED = 4"
definition COMP_STATE_ACTIVE :: int where "COMP_STATE_ACTIVE = 5"
definition COMP_STATE_PRE_ACTIVE :: int where "COMP_STATE_PRE_ACTIVE = 6"

definition COMP_TRIGGER_STOP :: int where "COMP_TRIGGER_STOP = 0"
definition COMP_TRIGGER_START :: int where "COMP_TRIGGER_START = 1"
definition COMP_TRIGGER_PAUSE :: int where "COMP_TRIGGER_PAUSE = 2"
definition COMP_TRIGGER_RELEASE :: int where "COMP_TRIGGER_RELEASE = 3"
definition COMP_TRIGGER_RESET :: int where "COMP_TRIGGER_RESET = 4"
definition COMP_TRIGGER_PREPARE :: int where "COMP_TRIGGER_PREPARE = 5"
definition COMP_TRIGGER_XRUN :: int where "COMP_TRIGGER_XRUN = 6"
definition COMP_TRIGGER_PRE_START :: int where "COMP_TRIGGER_PRE_START = 7"
definition COMP_TRIGGER_PRE_RELEASE :: int where "COMP_TRIGGER_PRE_RELEASE = 8"
definition COMP_TRIGGER_POST_STOP :: int where "COMP_TRIGGER_POST_STOP = 9"
definition COMP_TRIGGER_POST_PAUSE :: int where "COMP_TRIGGER_POST_PAUSE = 10"
definition COMP_TRIGGER_NO_ACTION :: int where "COMP_TRIGGER_NO_ACTION = 11"

definition COMP_STATUS_STATE_ALREADY_SET :: int where "COMP_STATUS_STATE_ALREADY_SET = 1"

lemmas comp_states = COMP_STATE_INIT_def COMP_STATE_READY_def COMP_STATE_SUSPEND_def
  COMP_STATE_PREPARE_def COMP_STATE_PAUSED_def COMP_STATE_ACTIVE_def COMP_STATE_PRE_ACTIVE_def

lemmas comp_triggers = COMP_TRIGGER_STOP_def COMP_TRIGGER_START_def COMP_TRIGGER_PAUSE_def
  COMP_TRIGGER_RELEASE_def COMP_TRIGGER_RESET_def COMP_TRIGGER_PREPARE_def COMP_TRIGGER_XRUN_def
  COMP_TRIGGER_PRE_START_def COMP_TRIGGER_PRE_RELEASE_def COMP_TRIGGER_POST_STOP_def
  COMP_TRIGGER_POST_PAUSE_def COMP_TRIGGER_NO_ACTION_def

text \<open>The types of \<open>enum sof_comp_type\<close> the infrastructure distinguishes.\<close>

definition SOF_COMP_HOST :: int where "SOF_COMP_HOST = 1"
definition SOF_COMP_DAI :: int where "SOF_COMP_DAI = 2"
definition SOF_COMP_SG_HOST :: int where "SOF_COMP_SG_HOST = 3"
definition SOF_COMP_SG_DAI :: int where "SOF_COMP_SG_DAI = 4"

datatype comp_endpoint_type = COMP_ENDPOINT_HOST | COMP_ENDPOINT_DAI | COMP_ENDPOINT_NODE

record comp_ipc_config =
  ic_core :: int
  ic_id :: int
  ic_pipeline_id :: int
  ic_type :: int
  ic_periods_sink :: int
  ic_periods_source :: int
  ic_frame_fmt :: int
  ic_xrun_action :: int

text \<open>The lists of source and sink buffers are the addresses of the buffers in list order.\<close>

record comp_dev =
  c_state :: int
  c_position :: int
  c_frames :: int
  c_pipeline :: addr
  c_min_sink_bytes :: int
  c_min_source_bytes :: int
  c_task :: addr
  c_size :: int
  c_period :: int
  c_priority :: int
  c_is_shared :: bool
  ipc_config :: comp_ipc_config
  c_direction :: int
  c_drv :: addr
  bsource_list :: "addr list"
  bsink_list :: "addr list"
  priv_data :: addr

record comp_copy_limits =
  cl_frames :: int
  cl_source_bytes :: int
  cl_sink_bytes :: int
  cl_source_frame_bytes :: int
  cl_sink_frame_bytes :: int

definition dev_comp_id :: "comp_dev \<Rightarrow> int" where
  "dev_comp_id dev = ic_id (ipc_config dev)"

definition dev_comp_pipe_id :: "comp_dev \<Rightarrow> int" where
  "dev_comp_pipe_id dev = ic_pipeline_id (ipc_config dev)"

definition dev_comp_type :: "comp_dev \<Rightarrow> int" where
  "dev_comp_type dev = ic_type (ipc_config dev)"

text \<open>The component as \<open>rzalloc\<close> returns it.\<close>

definition zero_comp :: comp_dev where
  "zero_comp = \<lparr>c_state = 0, c_position = 0, c_frames = 0, c_pipeline = 0, c_min_sink_bytes = 0,
     c_min_source_bytes = 0, c_task = 0, c_size = 0, c_period = 0, c_priority = 0, c_is_shared = False,
     ipc_config = \<lparr>ic_core = 0, ic_id = 0, ic_pipeline_id = 0, ic_type = 0, ic_periods_sink = 0,
       ic_periods_source = 0, ic_frame_fmt = 0, ic_xrun_action = 0\<rparr>,
     c_direction = 0, c_drv = 0, bsource_list = [], bsink_list = [], priv_data = 0\<rparr>"

definition comp_alloc ::
    "plat \<Rightarrow> mm \<Rightarrow> mem \<Rightarrow> (addr \<Rightarrow> comp_dev) \<Rightarrow> addr \<Rightarrow> int \<Rightarrow>
      (addr \<times> mm \<times> mem \<times> (addr \<Rightarrow> comp_dev)) option" where
  "comp_alloc plat mm m comps drv bytes =
     do { (dev, mm', m') \<leftarrow> rzalloc plat mm m SOF_MEM_ZONE_RUNTIME_SHARED SOF_MEM_CAPS_RAM bytes;
          if dev = 0 then Some (0, mm', m', comps)
          else Some (dev, mm', m', comps(dev := zero_comp\<lparr>c_size := bytes, c_drv := drv, c_state := COMP_STATE_INIT\<rparr>)) }"

definition comp_get_requested_state :: "int \<Rightarrow> int" where
  "comp_get_requested_state cmd =
     (if cmd = COMP_TRIGGER_START \<or> cmd = COMP_TRIGGER_RELEASE then COMP_STATE_ACTIVE
      else if cmd = COMP_TRIGGER_PREPARE \<or> cmd = COMP_TRIGGER_STOP then COMP_STATE_PREPARE
      else if cmd = COMP_TRIGGER_PAUSE then COMP_STATE_PAUSED
      else if cmd = COMP_TRIGGER_XRUN \<or> cmd = COMP_TRIGGER_RESET then COMP_STATE_READY
      else if cmd = COMP_TRIGGER_PRE_START \<or> cmd = COMP_TRIGGER_PRE_RELEASE then COMP_STATE_PRE_ACTIVE
      else COMP_STATE_INIT)"

definition comp_set_state :: "comp_dev \<Rightarrow> int \<Rightarrow> int \<times> comp_dev" where
  "comp_set_state dev cmd =
     (let requested_state = comp_get_requested_state cmd; set = (0, dev\<lparr>c_state := requested_state\<rparr>)
      in if c_state dev = requested_state then (COMP_STATUS_STATE_ALREADY_SET, dev)
         else if cmd = COMP_TRIGGER_START then
           (if c_state dev \<noteq> COMP_STATE_PRE_ACTIVE then (- EINVAL, dev) else set)
         else if cmd = COMP_TRIGGER_RELEASE then
           (if c_state dev \<noteq> COMP_STATE_PRE_ACTIVE then (- EINVAL, dev) else set)
         else if cmd = COMP_TRIGGER_STOP then
           (if c_state dev \<noteq> COMP_STATE_ACTIVE \<and> c_state dev \<noteq> COMP_STATE_PAUSED then (- EINVAL, dev) else set)
         else if cmd = COMP_TRIGGER_PAUSE then
           (if c_state dev \<noteq> COMP_STATE_ACTIVE then (- EINVAL, dev) else set)
         else if cmd = COMP_TRIGGER_RESET then set
         else if cmd = COMP_TRIGGER_PREPARE then
           (if c_state dev \<noteq> COMP_STATE_READY then (- EINVAL, dev) else set)
         else if cmd = COMP_TRIGGER_PRE_START then
           (if c_state dev \<noteq> COMP_STATE_PREPARE then (- EINVAL, dev) else set)
         else if cmd = COMP_TRIGGER_PRE_RELEASE then
           (if c_state dev \<noteq> COMP_STATE_PAUSED then (- EINVAL, dev) else set)
         else (0, dev))"

definition comp_is_single_pipeline :: "comp_dev \<Rightarrow> comp_dev \<Rightarrow> bool" where
  "comp_is_single_pipeline current previous \<longleftrightarrow> dev_comp_pipe_id current = dev_comp_pipe_id previous"

definition comp_is_active :: "comp_dev \<Rightarrow> bool" where
  "comp_is_active current \<longleftrightarrow> c_state current = COMP_STATE_ACTIVE"

definition comp_get_endpoint_type :: "comp_dev \<Rightarrow> comp_endpoint_type" where
  "comp_get_endpoint_type dev =
     (if dev_comp_type dev = SOF_COMP_HOST then COMP_ENDPOINT_HOST
      else if dev_comp_type dev = SOF_COMP_DAI then COMP_ENDPOINT_DAI
      else COMP_ENDPOINT_NODE)"

definition component_set_nearest_period_frames :: "comp_dev \<Rightarrow> int \<Rightarrow> comp_dev" where
  "component_set_nearest_period_frames current rate =
     current\<lparr>c_frames :=
       (if rate = 44100 then u32 (48000 * c_period current) div 1000000
        else if rate = 88200 then u32 (96000 * c_period current) div 1000000
        else if rate = 176400 then u32 (192000 * c_period current) div 1000000
        else u32 (ceil_divide (s32 (u32 (rate * c_period current))) 1000000))\<rparr>"

text \<open>\<open>comp_get_state\<close> with the cache invalidation it performs, if any.\<close>

definition comp_get_state :: "comp_dev \<Rightarrow> comp_dev \<Rightarrow> int \<times> bool" where
  "comp_get_state req_dev dev =
     (c_state dev, ic_core (ipc_config req_dev) \<noteq> ic_core (ipc_config dev) \<and> \<not> c_is_shared dev)"

definition comp_get_copy_limits :: "audio_stream \<Rightarrow> audio_stream \<Rightarrow> comp_copy_limits option" where
  "comp_get_copy_limits source sink =
     do { frames \<leftarrow> audio_stream_avail_frames source sink;
          let sfb = audio_stream_frame_bytes source;
          let kfb = audio_stream_frame_bytes sink;
          Some \<lparr>cl_frames = frames, cl_source_bytes = s32 (frames * sfb), cl_sink_bytes = s32 (frames * kfb),
                cl_source_frame_bytes = sfb, cl_sink_frame_bytes = kfb\<rparr> }"

text \<open>The list of registered drivers, most recent first.\<close>

definition sys_comp_init :: "addr list" where
  "sys_comp_init = []"

definition comp_register :: "addr \<Rightarrow> addr list \<Rightarrow> addr list" where
  "comp_register drv drivers = drv # drivers"

definition comp_unregister :: "addr \<Rightarrow> addr list \<Rightarrow> addr list" where
  "comp_unregister drv drivers = remove1 drv drivers"

section \<open>The state machine\<close>

text \<open>
  The transitions of the component state diagram. A reset is possible in every state; a stream is
  started or released only from the early initialised state.
\<close>

inductive comp_step :: "int \<Rightarrow> int \<Rightarrow> int \<Rightarrow> bool" where
  prepare: "comp_step COMP_STATE_READY COMP_TRIGGER_PREPARE COMP_STATE_PREPARE"
| pre_start: "comp_step COMP_STATE_PREPARE COMP_TRIGGER_PRE_START COMP_STATE_PRE_ACTIVE"
| pre_release: "comp_step COMP_STATE_PAUSED COMP_TRIGGER_PRE_RELEASE COMP_STATE_PRE_ACTIVE"
| start: "comp_step COMP_STATE_PRE_ACTIVE COMP_TRIGGER_START COMP_STATE_ACTIVE"
| release: "comp_step COMP_STATE_PRE_ACTIVE COMP_TRIGGER_RELEASE COMP_STATE_ACTIVE"
| pause: "comp_step COMP_STATE_ACTIVE COMP_TRIGGER_PAUSE COMP_STATE_PAUSED"
| stop: "comp_step COMP_STATE_ACTIVE COMP_TRIGGER_STOP COMP_STATE_PREPARE"
| stop_paused: "comp_step COMP_STATE_PAUSED COMP_TRIGGER_STOP COMP_STATE_PREPARE"
| reset: "s \<noteq> COMP_STATE_READY \<Longrightarrow> comp_step s COMP_TRIGGER_RESET COMP_STATE_READY"

inductive_simps comp_step_simps: "comp_step s cmd s'"

text \<open>A sequence of commands, each applied whether or not the previous one was accepted.\<close>

definition run_cmds :: "comp_dev \<Rightarrow> int list \<Rightarrow> comp_dev" where
  "run_cmds dev cmds = fold (\<lambda>cmd d. snd (comp_set_state d cmd)) cmds dev"

text \<open>The commands \<open>comp_set_state\<close> checks; it ignores the others.\<close>

definition state_cmds :: "int set" where
  "state_cmds = {COMP_TRIGGER_STOP, COMP_TRIGGER_START, COMP_TRIGGER_PAUSE, COMP_TRIGGER_RELEASE,
     COMP_TRIGGER_RESET, COMP_TRIGGER_PREPARE, COMP_TRIGGER_PRE_START, COMP_TRIGGER_PRE_RELEASE}"

lemma comp_set_state_step:
  "c_state (snd (comp_set_state dev cmd)) = c_state dev \<or>
   comp_step (c_state dev) cmd (c_state (snd (comp_set_state dev cmd)))"
  by (auto simp: comp_set_state_def comp_get_requested_state_def comp_step_simps comp_states comp_triggers Let_def)

lemma comp_step_set_state:
  "comp_step (c_state dev) cmd s' \<Longrightarrow> comp_set_state dev cmd = (0, dev\<lparr>c_state := s'\<rparr>)"
  by (erule comp_step.cases)
    (simp_all add: comp_set_state_def comp_get_requested_state_def comp_states comp_triggers)

text \<open>
  What the commands received so far must have been in each state. A component is prepared when a
  PREPARE is not followed by a RESET; it is armed when, once prepared, it got a PRE_START or
  PRE_RELEASE and since then neither a RESET nor a command that starts it; and it is started when,
  once armed, it got a START or RELEASE and since then no RESET, STOP or PAUSE.
\<close>

definition prepared :: "int list \<Rightarrow> bool" where
  "prepared h \<longleftrightarrow> (\<exists>p q. h = p @ COMP_TRIGGER_PREPARE # q \<and> COMP_TRIGGER_RESET \<notin> set q)"

definition armed :: "int list \<Rightarrow> bool" where
  "armed h \<longleftrightarrow> (\<exists>p c q. h = p @ c # q \<and> prepared p \<and> c \<in> {COMP_TRIGGER_PRE_START, COMP_TRIGGER_PRE_RELEASE} \<and>
     set q \<inter> {COMP_TRIGGER_RESET, COMP_TRIGGER_START, COMP_TRIGGER_RELEASE} = {})"

definition started :: "int list \<Rightarrow> bool" where
  "started h \<longleftrightarrow> (\<exists>p c q. h = p @ c # q \<and> armed p \<and> c \<in> {COMP_TRIGGER_START, COMP_TRIGGER_RELEASE} \<and>
     set q \<inter> {COMP_TRIGGER_RESET, COMP_TRIGGER_STOP, COMP_TRIGGER_PAUSE} = {})"

definition history_ok :: "int \<Rightarrow> int list \<Rightarrow> bool" where
  "history_ok s h \<longleftrightarrow>
     s \<in> {COMP_STATE_READY, COMP_STATE_PREPARE, COMP_STATE_PRE_ACTIVE, COMP_STATE_ACTIVE, COMP_STATE_PAUSED} \<and>
     (s = COMP_STATE_PREPARE \<or> s = COMP_STATE_PAUSED \<longrightarrow> prepared h) \<and>
     (s = COMP_STATE_PRE_ACTIVE \<longrightarrow> armed h) \<and>
     (s = COMP_STATE_ACTIVE \<longrightarrow> started h)"

lemma prepared_append:
  assumes "prepared h" "COMP_TRIGGER_RESET \<notin> set t"
  shows "prepared (h @ t)"
proof -
  obtain p q where "h = p @ COMP_TRIGGER_PREPARE # q" "COMP_TRIGGER_RESET \<notin> set q"
    using assms(1) by (auto simp: prepared_def)
  then show ?thesis unfolding prepared_def using assms(2) by (intro exI [of _ p] exI [of _ "q @ t"]) simp
qed

lemma armed_append:
  assumes "armed h" "set t \<inter> {COMP_TRIGGER_RESET, COMP_TRIGGER_START, COMP_TRIGGER_RELEASE} = {}"
  shows "armed (h @ t)"
proof -
  obtain p c q where "h = p @ c # q" "prepared p" "c \<in> {COMP_TRIGGER_PRE_START, COMP_TRIGGER_PRE_RELEASE}"
    "set q \<inter> {COMP_TRIGGER_RESET, COMP_TRIGGER_START, COMP_TRIGGER_RELEASE} = {}"
    using assms(1) by (auto simp: armed_def)
  then show ?thesis unfolding armed_def using assms(2)
    by (intro exI [of _ p] exI [of _ c] exI [of _ "q @ t"]) auto
qed

lemma started_append:
  assumes "started h" "set t \<inter> {COMP_TRIGGER_RESET, COMP_TRIGGER_STOP, COMP_TRIGGER_PAUSE} = {}"
  shows "started (h @ t)"
proof -
  obtain p c q where "h = p @ c # q" "armed p" "c \<in> {COMP_TRIGGER_START, COMP_TRIGGER_RELEASE}"
    "set q \<inter> {COMP_TRIGGER_RESET, COMP_TRIGGER_STOP, COMP_TRIGGER_PAUSE} = {}"
    using assms(1) by (auto simp: started_def)
  then show ?thesis unfolding started_def using assms(2)
    by (intro exI [of _ p] exI [of _ c] exI [of _ "q @ t"]) auto
qed

lemma armed_prepared:
  assumes "armed h"
  shows "prepared h"
proof -
  obtain p c q where h: "h = p @ c # q" "prepared p" and r: "COMP_TRIGGER_RESET \<notin> set (c # q)"
    using assms by (auto simp: armed_def comp_triggers)
  show ?thesis unfolding h(1) by (rule prepared_append [OF h(2) r])
qed

lemma started_prepared:
  assumes "started h"
  shows "prepared h"
proof -
  obtain p c q where h: "h = p @ c # q" "armed p" and r: "COMP_TRIGGER_RESET \<notin> set (c # q)"
    using assms by (auto simp: started_def comp_triggers)
  show ?thesis unfolding h(1) by (rule prepared_append [OF armed_prepared [OF h(2)] r])
qed

lemma prepared_snoc: "prepared (h @ [COMP_TRIGGER_PREPARE])"
  unfolding prepared_def by (intro exI [of _ h] exI [of _ "[]"]) simp

lemma armed_snoc: "prepared h \<Longrightarrow> c \<in> {COMP_TRIGGER_PRE_START, COMP_TRIGGER_PRE_RELEASE} \<Longrightarrow> armed (h @ [c])"
  unfolding armed_def by (intro exI [of _ h] exI [of _ c] exI [of _ "[]"]) simp

lemma started_snoc: "armed h \<Longrightarrow> c \<in> {COMP_TRIGGER_START, COMP_TRIGGER_RELEASE} \<Longrightarrow> started (h @ [c])"
  unfolding started_def by (intro exI [of _ h] exI [of _ c] exI [of _ "[]"]) simp

lemmas history_appends = prepared_append armed_append started_append

lemma history_step:
  assumes "history_ok s h" "comp_step s cmd s'"
  shows "history_ok s' (h @ [cmd])"
  using assms(2)
proof cases
  case prepare
  then show ?thesis by (simp add: history_ok_def comp_states prepared_snoc)
next
  case pre_start
  then show ?thesis using assms(1) by (simp add: history_ok_def comp_states armed_snoc)
next
  case pre_release
  then show ?thesis using assms(1) by (simp add: history_ok_def comp_states armed_snoc)
next
  case start
  then show ?thesis using assms(1) by (simp add: history_ok_def comp_states started_snoc)
next
  case release
  then show ?thesis using assms(1) by (simp add: history_ok_def comp_states started_snoc)
next
  case pause
  then have "prepared h" using assms(1) by (simp add: history_ok_def started_prepared)
  then show ?thesis using pause by (simp add: history_ok_def comp_states comp_triggers prepared_append)
next
  case stop
  then have "prepared h" using assms(1) by (simp add: history_ok_def started_prepared)
  then show ?thesis using stop by (simp add: history_ok_def comp_states comp_triggers prepared_append)
next
  case stop_paused
  then show ?thesis using assms(1) by (simp add: history_ok_def comp_states comp_triggers prepared_append)
next
  case reset
  then show ?thesis by (simp add: history_ok_def comp_states)
qed

text \<open>A command that leaves the state alone is not one of those that revoke what the state stands for.\<close>

lemma no_step_keeps:
  assumes "history_ok (c_state dev) h" "c_state (snd (comp_set_state dev cmd)) = c_state dev"
  shows "history_ok (c_state dev) (h @ [cmd])"
proof -
  have st: "c_state dev \<in> {COMP_STATE_READY, COMP_STATE_PREPARE, COMP_STATE_PRE_ACTIVE, COMP_STATE_ACTIVE, COMP_STATE_PAUSED}"
    using assms(1) by (simp add: history_ok_def)
  have "c_state dev \<noteq> COMP_STATE_READY \<Longrightarrow> cmd \<noteq> COMP_TRIGGER_RESET"
    "c_state dev = COMP_STATE_PRE_ACTIVE \<Longrightarrow> cmd \<noteq> COMP_TRIGGER_START \<and> cmd \<noteq> COMP_TRIGGER_RELEASE"
    "c_state dev = COMP_STATE_ACTIVE \<Longrightarrow> cmd \<noteq> COMP_TRIGGER_STOP \<and> cmd \<noteq> COMP_TRIGGER_PAUSE"
    using assms(2) by (auto simp: comp_set_state_def comp_get_requested_state_def comp_states comp_triggers)
  then show ?thesis using assms(1) st
    by (auto simp: history_ok_def comp_states intro: history_appends)
qed

lemma run_cmds_history:
  assumes "c_state dev = COMP_STATE_READY"
  shows "history_ok (c_state (run_cmds dev cmds)) cmds"
proof (induction cmds rule: rev_induct)
  case Nil
  then show ?case using assms by (simp add: run_cmds_def history_ok_def comp_states)
next
  case (snoc c cmds)
  have "run_cmds dev (cmds @ [c]) = snd (comp_set_state (run_cmds dev cmds) c)" by (simp add: run_cmds_def)
  then show ?case
    using comp_set_state_step [of "run_cmds dev cmds" c] history_step [OF snoc] no_step_keeps [OF snoc] by auto
qed

section \<open>Properties\<close>

text \<open>
  C17: \<open>comp_set_state\<close> implements the component state diagram. A command that is a transition of the
  diagram in the present state returns 0 and changes the state, and only the state, as the diagram
  says. Every other command leaves the component as it is: it is answered with the status that the
  state is already set when it asks for the present state, with -EINVAL when it is one of the eight
  commands of the diagram, and with 0 when it is XRUN or a command the switch does not list.
\<close>

theorem comp_set_state_diagram:
  "(\<forall>s'. comp_step (c_state dev) cmd s' \<longrightarrow> comp_set_state dev cmd = (0, dev\<lparr>c_state := s'\<rparr>)) \<and>
   ((\<nexists>s'. comp_step (c_state dev) cmd s') \<longrightarrow>
     comp_set_state dev cmd =
       (if c_state dev = comp_get_requested_state cmd then COMP_STATUS_STATE_ALREADY_SET
        else if cmd \<in> state_cmds then - EINVAL else 0, dev))"
proof (intro conjI impI allI)
  fix s' assume "comp_step (c_state dev) cmd s'"
  then show "comp_set_state dev cmd = (0, dev\<lparr>c_state := s'\<rparr>)" by (rule comp_step_set_state)
next
  assume "\<nexists>s'. comp_step (c_state dev) cmd s'"
  then show "comp_set_state dev cmd =
       (if c_state dev = comp_get_requested_state cmd then COMP_STATUS_STATE_ALREADY_SET
        else if cmd \<in> state_cmds then - EINVAL else 0, dev)"
    by (auto simp: comp_set_state_def comp_get_requested_state_def comp_step_simps comp_states comp_triggers
        state_cmds_def)
qed

theorem comp_set_state_diagram_witness:
  "comp_set_state (zero_comp\<lparr>c_state := 5\<rparr>) COMP_TRIGGER_PAUSE = (0, zero_comp\<lparr>c_state := COMP_STATE_PAUSED\<rparr>) \<and>
   comp_set_state (zero_comp\<lparr>c_state := 5\<rparr>) COMP_TRIGGER_START = (COMP_STATUS_STATE_ALREADY_SET, zero_comp\<lparr>c_state := 5\<rparr>) \<and>
   comp_set_state (zero_comp\<lparr>c_state := 5\<rparr>) COMP_TRIGGER_PREPARE = (- EINVAL, zero_comp\<lparr>c_state := 5\<rparr>)"
proof -
  have "comp_step 5 COMP_TRIGGER_PAUSE COMP_STATE_PAUSED"
    using comp_step.pause by (simp add: comp_states)
  moreover have "\<nexists>s'. comp_step 5 COMP_TRIGGER_START s'" "\<nexists>s'. comp_step 5 COMP_TRIGGER_PREPARE s'"
    by (simp_all add: comp_step_simps comp_states comp_triggers)
  ultimately show ?thesis
    using comp_set_state_diagram [of "zero_comp\<lparr>c_state := 5\<rparr>" COMP_TRIGGER_PAUSE]
      comp_set_state_diagram [of "zero_comp\<lparr>c_state := 5\<rparr>" COMP_TRIGGER_START]
      comp_set_state_diagram [of "zero_comp\<lparr>c_state := 5\<rparr>" COMP_TRIGGER_PREPARE]
    by (simp add: comp_get_requested_state_def state_cmds_def comp_states comp_triggers)
qed



end
