(* ===== verification/Sof_Blob.thy ===== *)
theory Sof_Blob
  imports Sof_Component
begin

text \<open>
  The data blob handler of \<open>src/audio/component.c\<close>: large component configurations that the host
  sends and reads back in parts. The blobs lie in byte memory and are allocated with \<open>rballoc\<close>.
\<close>

section \<open>Definitions\<close>

record comp_data_blob_handler =
  data_size :: int
  new_data_size :: int
  bdata :: addr
  data_new :: addr
  data_ready :: bool
  data_pos :: int

text \<open>The control data of the message: the fields the handler uses, with the address of the payload.\<close>

record ctrl_data =
  num_elems :: int
  elems_remaining :: int
  msg_index :: int
  abi_size :: int
  abi_version :: int
  payload :: addr

definition mem_bytes :: "mem \<Rightarrow> addr \<Rightarrow> nat \<Rightarrow> int list" where
  "mem_bytes m a n = map (\<lambda>i. m (a + int i)) [0..<n]"

type_synonym blob_state = "mm \<times> mem \<times> comp_data_blob_handler"

definition SOF_ABI_VERSION :: int where
  "SOF_ABI_VERSION = (push_bit 24 3 OR push_bit 12 20) OR push_bit 0 1"

definition comp_free_data_blob :: "plat \<Rightarrow> blob_state \<Rightarrow> blob_state option" where
  "comp_free_data_blob plat = (\<lambda>(mm, m, h).
     if bdata h = 0 then Some (mm, m, h)
     else do { mm1 \<leftarrow> rfree plat mm (bdata h);
               mm2 \<leftarrow> rfree plat mm1 (data_new h);
               Some (mm2, m, h\<lparr>bdata := 0, data_new := 0, data_size := 0\<rparr>) })"

definition comp_is_new_data_blob_available :: "comp_data_blob_handler \<Rightarrow> bool" where
  "comp_is_new_data_blob_available h \<longleftrightarrow> data_new h \<noteq> 0 \<and> data_ready h"

text \<open>The result is the blob, its size and, when there is a blob, its checksum.\<close>

definition comp_get_data_blob ::
    "plat \<Rightarrow> blob_state \<Rightarrow> (addr \<times> int \<times> int option \<times> blob_state) option" where
  "comp_get_data_blob plat = (\<lambda>(mm, m, h).
     do { (mm1, h1) \<leftarrow>
            (if comp_is_new_data_blob_available h then
               do { mm1 \<leftarrow> rfree plat mm (bdata h);
                    Some (mm1, h\<lparr>bdata := data_new h, data_size := new_data_size h, data_new := 0,
                                 data_ready := False, new_data_size := 0, data_pos := 0\<rparr>) }
             else Some (mm, h));
          Some (bdata h1, data_size h1,
                (if bdata h1 \<noteq> 0 then Some (crc32 0 (mem_bytes m (bdata h1) (nat (data_size h1)))) else None),
                (mm1, m, h1)) })"

definition comp_init_data_blob :: "plat \<Rightarrow> blob_state \<Rightarrow> int \<Rightarrow> addr \<Rightarrow> (int \<times> blob_state) option" where
  "comp_init_data_blob plat s sz init_data =
     do { (mm, m, h) \<leftarrow> comp_free_data_blob plat s;
          if sz = 0 then Some (0, mm, m, h)
          else do {
            (p, mm1) \<leftarrow> rballoc plat mm 0 SOF_MEM_CAPS_RAM sz;
            let h1 = h\<lparr>bdata := p\<rparr>;
            if p = 0 then Some (- ENOMEM, mm1, m, h1)
            else do {
              m1 \<leftarrow> (if init_data \<noteq> 0 then
                        (let (ret, m1) = memcpy_s m p sz init_data sz
                         in do { _ \<leftarrow> c_assert (ret = 0); Some m1 })
                     else Some (bzero m p sz));
              Some (0, mm1, m1, h1\<lparr>data_new := 0, data_size := sz, new_data_size := 0\<rparr>) } } }"

text \<open>The tail of the set command once the target of the transfer is allocated.\<close>

definition blob_receive :: "plat \<Rightarrow> int \<Rightarrow> blob_state \<Rightarrow> ctrl_data \<Rightarrow> (int \<times> blob_state) option" where
  "blob_receive plat dev_state = (\<lambda>(mm, m, h) cdata.
     if data_new h = 0 then Some (- ENOMEM, mm, m, h)
     else do {
       let (ret, m1) = memcpy_s m (data_new h + data_pos h) (u32 (new_data_size h - data_pos h))
                         (payload cdata) (num_elems cdata);
       _ \<leftarrow> c_assert (ret = 0);
       let h1 = h\<lparr>data_pos := u32 (data_pos h + num_elems cdata)\<rparr>;
       if elems_remaining cdata \<noteq> 0 then Some (0, mm, m1, h1)
       else do {
         (mm1, h2) \<leftarrow> (if dev_state = COMP_STATE_READY
                       then do { mm1 \<leftarrow> rfree plat mm (bdata h1); Some (mm1, h1\<lparr>bdata := 0\<rparr>) }
                       else Some (mm, h1));
         if bdata h2 = 0
         then Some (0, mm1, m1, h2\<lparr>bdata := data_new h2, data_size := new_data_size h2, data_new := 0,
                                   data_ready := False, new_data_size := 0, data_pos := 0\<rparr>)
         else Some (0, mm1, m1, h2\<lparr>data_ready := True\<rparr>) } })"

definition comp_data_blob_set_cmd :: "plat \<Rightarrow> int \<Rightarrow> blob_state \<Rightarrow> ctrl_data \<Rightarrow> (int \<times> blob_state) option" where
  "comp_data_blob_set_cmd plat dev_state = (\<lambda>(mm, m, h) cdata.
     if data_new h \<noteq> 0 \<and> msg_index cdata = 0 then Some (- EBUSY, mm, m, h)
     else if msg_index cdata = 0 then
       (if abi_size cdata = 0 then Some (0, mm, m, h)
        else do {
          (p, mm1) \<leftarrow> rballoc plat mm 0 SOF_MEM_CAPS_RAM (abi_size cdata);
          let h1 = h\<lparr>data_new := p\<rparr>;
          if p = 0 then Some (- ENOMEM, mm1, m, h1)
          else blob_receive plat dev_state
                 (mm1, m, h1\<lparr>new_data_size := abi_size cdata, data_ready := False, data_pos := 0\<rparr>) cdata })
     else blob_receive plat dev_state (mm, m, h) cdata)"

definition comp_data_blob_get_cmd ::
    "blob_state \<Rightarrow> ctrl_data \<Rightarrow> int \<Rightarrow> (int \<times> blob_state \<times> ctrl_data) option" where
  "comp_data_blob_get_cmd = (\<lambda>(mm, m, h) cdata sz.
     if bdata h = 0
     then Some (0, (mm, m, h), cdata\<lparr>abi_version := SOF_ABI_VERSION, abi_size := 0\<rparr>)
     else
       let h1 = (if msg_index cdata = 0 then h\<lparr>data_pos := 0\<rparr> else h)
       in if num_elems cdata > u32 sz then Some (- EINVAL, (mm, m, h1), cdata)
          else do {
            let (ret, m1) = memcpy_s m (payload cdata) (u32 sz) (bdata h1 + data_pos h1) (num_elems cdata);
            _ \<leftarrow> c_assert (ret = 0);
            Some (0, (mm, m1, h1\<lparr>data_pos := u32 (data_pos h1 + num_elems cdata)\<rparr>),
                  cdata\<lparr>abi_version := SOF_ABI_VERSION, abi_size := data_size h1\<rparr>) })"

definition zero_handler :: comp_data_blob_handler where
  "zero_handler = \<lparr>data_size = 0, new_data_size = 0, bdata = 0, data_new = 0, data_ready = False, data_pos = 0\<rparr>"

text \<open>The handler object itself; the size of the structure is a parameter.\<close>

definition comp_data_blob_handler_new ::
    "plat \<Rightarrow> int \<Rightarrow> mm \<Rightarrow> mem \<Rightarrow> (addr \<times> blob_state) option" where
  "comp_data_blob_handler_new plat sizeof_handler mm m =
     do { (p, mm1, m1) \<leftarrow> rzalloc plat mm m SOF_MEM_ZONE_RUNTIME SOF_MEM_CAPS_RAM sizeof_handler;
          Some (p, mm1, m1, zero_handler) }"

definition comp_data_blob_handler_free :: "plat \<Rightarrow> addr \<Rightarrow> blob_state \<Rightarrow> blob_state option" where
  "comp_data_blob_handler_free plat p s =
     (if p = 0 then Some s
      else do { (mm, m, h) \<leftarrow> comp_free_data_blob plat s;
                mm1 \<leftarrow> rfree plat mm p;
                Some (mm1, m, h) })"

section \<open>Transfers in parts\<close>

text \<open>The host writes each part into the message buffer at \<open>src\<close> and sends it.\<close>

definition poke :: "mem \<Rightarrow> addr \<Rightarrow> int list \<Rightarrow> mem" where
  "poke m a xs = (\<lambda>x. if a \<le> x \<and> x < a + int (length xs) then xs ! nat (x - a) else m x)"

definition set_part :: "addr \<Rightarrow> int \<Rightarrow> int \<Rightarrow> int list \<Rightarrow> int list list \<Rightarrow> ctrl_data" where
  "set_part src tot i xs xss =
     \<lparr>num_elems = int (length xs), elems_remaining = int (length (concat xss)), msg_index = i,
      abi_size = tot, abi_version = SOF_ABI_VERSION, payload = src\<rparr>"

fun send_blob ::
    "plat \<Rightarrow> int \<Rightarrow> addr \<Rightarrow> int \<Rightarrow> int \<Rightarrow> int list list \<Rightarrow> blob_state \<Rightarrow> (int \<times> blob_state) option" where
  "send_blob plat st src tot i [] s = Some (0, s)"
| "send_blob plat st src tot i (xs # xss) (mm, m, h) =
     do { (ret, s') \<leftarrow> comp_data_blob_set_cmd plat st (mm, poke m src xs, h) (set_part src tot i xs xss);
          if ret \<noteq> 0 then Some (ret, s') else send_blob plat st src tot (i + 1) xss s' }"

text \<open>Reading back in parts of the given sizes; the answers are collected.\<close>

fun read_blob :: "addr \<Rightarrow> int \<Rightarrow> nat list \<Rightarrow> blob_state \<Rightarrow> (int list \<times> blob_state) option" where
  "read_blob dst i [] s = Some ([], s)"
| "read_blob dst i (n # ns) s =
     do { (ret, (mm, m, h), cdata) \<leftarrow>
            comp_data_blob_get_cmd s \<lparr>num_elems = int n, elems_remaining = int (sum_list ns), msg_index = i,
              abi_size = 0, abi_version = 0, payload = dst\<rparr> (int n);
          (rest, s') \<leftarrow> read_blob dst (i + 1) ns (mm, m, h);
          Some (mem_bytes m dst n @ rest, s') }"

lemma mem_bytes_poke: "mem_bytes (poke m a xs) a (length xs) = xs"
  by (rule nth_equalityI) (simp_all add: mem_bytes_def poke_def)

lemma mem_bytes_cong: "(\<And>x. a \<le> x \<Longrightarrow> x < a + int n \<Longrightarrow> m x = m' x) \<Longrightarrow> mem_bytes m a n = mem_bytes m' a n"
  by (simp add: mem_bytes_def)

lemma mem_bytes_add: "mem_bytes m a (j + k) = mem_bytes m a j @ mem_bytes m (a + int j) k"
  by (rule nth_equalityI) (auto simp: mem_bytes_def nth_append algebra_simps)

lemma mem_bytes_copy: "mem_bytes (mem_copy m dst src (int n)) dst n = mem_bytes m src n"
  by (simp add: mem_bytes_def mem_copy_def)

lemma length_mem_bytes [simp]: "length (mem_bytes m a n) = n"
  by (simp add: mem_bytes_def)

definition apart :: "addr \<Rightarrow> int \<Rightarrow> addr \<Rightarrow> int \<Rightarrow> bool" where
  "apart a n b k \<longleftrightarrow> a + n \<le> b \<or> b + k \<le> a"

text \<open>A transfer to \<open>p\<close> of which \<open>ys\<close> has arrived.\<close>

definition receiving :: "addr \<Rightarrow> int \<Rightarrow> int list \<Rightarrow> blob_state \<Rightarrow> bool" where
  "receiving p tot ys = (\<lambda>(mm, m, h).
     data_new h = p \<and> new_data_size h = tot \<and> data_pos h = int (length ys) \<and>
     mem_bytes m p (length ys) = ys)"

lemma receive_copy:
  assumes "receiving p tot ys (mm, m, h)" "tot < 4294967296" "0 < p" "0 < src"
    "apart p tot src (int (length xs))" "int (length ys + length xs) \<le> tot" "xs \<noteq> []"
  shows "memcpy_s (poke m src xs) (data_new h + data_pos h) (u32 (new_data_size h - data_pos h)) src (int (length xs)) =
      (0, mem_copy (poke m src xs) (p + int (length ys)) src (int (length xs)))"
    and "u32 (data_pos h + int (length xs)) = int (length (ys @ xs))"
    and "mem_bytes (mem_copy (poke m src xs) (p + int (length ys)) src (int (length xs))) p (length (ys @ xs)) = ys @ xs"
proof -
  have p: "data_new h = p" "new_data_size h = tot" "data_pos h = int (length ys)" "mem_bytes m p (length ys) = ys"
    using assms(1) by (auto simp: receiving_def)
  have "u32 (tot - int (length ys)) = tot - int (length ys)" using assms(2,6) by (auto intro!: u32_id)
  moreover have "0 < int (length xs)" using assms(7) by simp
  with assms(5,6) have "\<not> (p + int (length ys) \<ge> src \<and> p + int (length ys) < src + int (length xs) \<or>
      src \<ge> p + int (length ys) \<and> src < p + int (length ys) + (tot - int (length ys)))"
    unfolding apart_def by linarith
  ultimately show "memcpy_s (poke m src xs) (data_new h + data_pos h) (u32 (new_data_size h - data_pos h)) src (int (length xs)) =
      (0, mem_copy (poke m src xs) (p + int (length ys)) src (int (length xs)))"
    unfolding p using assms(3,4,6) by (auto simp: memcpy_s_def)
  show "u32 (data_pos h + int (length xs)) = int (length (ys @ xs))"
    using p(3) assms(2,6) by (simp add: u32_id)
  have "mem_bytes (mem_copy (poke m src xs) (p + int (length ys)) src (int (length xs))) p (length ys) =
      mem_bytes m p (length ys)"
    using assms(5,6) by (intro mem_bytes_cong) (auto simp: mem_copy_def poke_def apart_def)
  with p(4) show "mem_bytes (mem_copy (poke m src xs) (p + int (length ys)) src (int (length xs))) p (length (ys @ xs)) = ys @ xs"
    by (simp add: mem_bytes_add mem_bytes_copy mem_bytes_poke)
qed

text \<open>What the last part does with the blob that has arrived at \<open>p\<close>.\<close>

definition adopt :: "plat \<Rightarrow> int \<Rightarrow> addr \<Rightarrow> int \<Rightarrow> comp_data_blob_handler \<Rightarrow> mm \<Rightarrow> (mm \<times> comp_data_blob_handler) option" where
  "adopt plat st p tot h mm =
     (if st = COMP_STATE_READY \<or> bdata h = 0
      then do { mm1 \<leftarrow> (if st = COMP_STATE_READY then rfree plat mm (bdata h) else Some mm);
                Some (mm1, h\<lparr>bdata := p, data_size := tot, data_new := 0, data_ready := False,
                             new_data_size := 0, data_pos := 0\<rparr>) }
      else Some (mm, h\<lparr>data_new := p, new_data_size := tot, data_ready := True, data_pos := tot\<rparr>))"

lemma receive_all:
  assumes "receiving p tot ys (mm, m, h)" "\<not> data_ready h" "tot < 4294967296" "0 < p" "0 < src"
    "\<forall>xs \<in> set xss. xs \<noteq> [] \<and> apart p tot src (int (length xs))" "int (length ys + length (concat xss)) = tot"
    "xss \<noteq> []" "0 < i" "adopt plat st p tot h mm = Some (mm', h')"
  shows "\<exists>m'. send_blob plat st src tot i xss (mm, m, h) = Some (0, mm', m', h') \<and>
    mem_bytes m' p (nat tot) = ys @ concat xss"
  using assms
proof (induction xss arbitrary: ys m h i)
  case (Cons xs xss)
  let ?m = "mem_copy (poke m src xs) (p + int (length ys)) src (int (length xs))"
  have x: "xs \<noteq> []" "apart p tot src (int (length xs))" "int (length ys + length xs) \<le> tot"
    using Cons.prems(6,7) by auto
  note c = receive_copy [OF Cons.prems(1,3,4,5) x(2,3,1)]
  have h: "data_new h = p" "new_data_size h = tot" using Cons.prems(1) by (auto simp: receiving_def)
  show ?case
  proof (cases "xss = []")
    case True
    then have t: "int (length (ys @ xs)) = tot" using Cons.prems(7) by simp
    then have "nat tot = length (ys @ xs)" by linarith
    moreover have "comp_data_blob_set_cmd plat st (mm, poke m src xs, h) (set_part src tot i xs xss) = Some (0, mm', ?m, h')"
      using Cons.prems(4,9,10) c(1) c(2) [unfolded t] h True
      by (auto simp: comp_data_blob_set_cmd_def blob_receive_def set_part_def adopt_def Let_def split: if_splits bind_splits)
    ultimately show ?thesis using c(3) True by simp
  next
    case False
    then have ne: "concat xss \<noteq> []" using Cons.prems(6) by (cases xss) auto
    let ?h = "h\<lparr>data_pos := int (length (ys @ xs))\<rparr>"
    have step: "comp_data_blob_set_cmd plat st (mm, poke m src xs, h) (set_part src tot i xs xss) = Some (0, mm, ?m, ?h)"
      using Cons.prems(4,9) c ne h by (simp add: comp_data_blob_set_cmd_def blob_receive_def set_part_def Let_def)
    have "receiving p tot (ys @ xs) (mm, ?m, ?h)" using c(3) h by (simp add: receiving_def)
    moreover have "adopt plat st p tot ?h mm = Some (mm', h')"
      using Cons.prems(10) by (auto simp: adopt_def split: if_splits bind_splits)
    ultimately show ?thesis
      using Cons.IH [of "ys @ xs" ?m ?h "i + 1"] Cons.prems(2-7,9) False step by simp
  qed
qed simp

lemma send_blob_index: "0 < i \<Longrightarrow> 0 < j \<Longrightarrow> send_blob plat st src tot i xss s = send_blob plat st src tot j xss s"
proof (induction xss arbitrary: i j s)
  case (Cons xs xss)
  obtain mm m h where s: "s = (mm, m, h)" by (cases s)
  have "comp_data_blob_set_cmd plat st (mm, poke m src xs, h) (set_part src tot i xs xss) =
      comp_data_blob_set_cmd plat st (mm, poke m src xs, h) (set_part src tot j xs xss)"
    using Cons.prems by (simp add: comp_data_blob_set_cmd_def blob_receive_def set_part_def)
  moreover have "send_blob plat st src tot (i + 1) xss s' = send_blob plat st src tot (j + 1) xss s'" for s'
    using Cons.prems by (intro Cons.IH) auto
  ultimately show ?case by (auto simp: s intro!: Option.bind_cong)
qed simp

lemma send_blob_first:
  assumes "data_new h = 0" "rballoc plat mm 0 SOF_MEM_CAPS_RAM tot = Some (p, mm1)" "0 < p" "0 < tot"
  shows "send_blob plat st src tot 0 (xs # xss) (mm, m, h) =
    send_blob plat st src tot 1 (xs # xss)
      (mm1, m, h\<lparr>data_new := p, new_data_size := tot, data_ready := False, data_pos := 0\<rparr>)"
proof -
  have "comp_data_blob_set_cmd plat st (mm, poke m src xs, h) (set_part src tot 0 xs xss) =
      comp_data_blob_set_cmd plat st
        (mm1, poke m src xs, h\<lparr>data_new := p, new_data_size := tot, data_ready := False, data_pos := 0\<rparr>)
        (set_part src tot 1 xs xss)"
    using assms by (simp add: comp_data_blob_set_cmd_def blob_receive_def set_part_def)
  moreover have "send_blob plat st src tot 1 xss s' = send_blob plat st src tot (1 + 1) xss s'" for s'
    by (rule send_blob_index) auto
  ultimately show ?thesis by (auto intro!: Option.bind_cong)
qed

lemma read_all:
  assumes "bdata h = p" "0 < p" "0 < dst" "\<forall>n \<in> set ns. apart p (data_size h) dst (int n)"
    "i = 0 \<longrightarrow> k = 0" "0 < i \<longrightarrow> data_pos h = int k" "0 \<le> i" "int (k + sum_list ns) \<le> data_size h" "data_size h < 4294967296"
    "mem_bytes m p (nat (data_size h)) = bs"
  shows "\<exists>s'. read_blob dst i ns (mm, m, h) = Some (take (sum_list ns) (drop k bs), s')"
  using assms
proof (induction ns arbitrary: i k m h)
  case (Cons n ns)
  let ?m = "mem_copy m dst (p + int k) (int n)" and ?h = "h\<lparr>data_pos := int (k + n)\<rparr>"
  have a: "apart p (data_size h) dst (int n)" "int (k + n) \<le> data_size h" using Cons.prems by auto
  have "memcpy_s m dst (int n) (p + int k) (int n) = (0, ?m)"
    using Cons.prems(2,3) a unfolding memcpy_s_def apart_def by auto
  moreover have "u32 (int n) = int n" "u32 (int k + int n) = int (k + n)"
    using a(2) Cons.prems(9) by (simp_all add: u32_id)
  ultimately have g: "comp_data_blob_get_cmd (mm, m, h)
      \<lparr>num_elems = int n, elems_remaining = int (sum_list ns), msg_index = i, abi_size = 0, abi_version = 0, payload = dst\<rparr>
      (int n) = Some (0, (mm, ?m, ?h), \<lparr>num_elems = int n, elems_remaining = int (sum_list ns), msg_index = i,
        abi_size = data_size h, abi_version = SOF_ABI_VERSION, payload = dst\<rparr>)"
    using Cons.prems(1,2,5-7) by (cases "i = 0") (simp_all add: comp_data_blob_get_cmd_def)
  have keep: "mem_bytes ?m p (nat (data_size h)) = bs"
    unfolding Cons.prems(10) [symmetric] using a
    by (intro mem_bytes_cong) (auto simp: mem_copy_def apart_def)
  obtain s' where rd: "read_blob dst (i + 1) ns (mm, ?m, ?h) = Some (take (sum_list ns) (drop (k + n) bs), s')"
    using Cons.IH [of ?h "i + 1" "k + n" ?m] Cons.prems(1-4,7-9) keep by auto
  have "nat (data_size h) = k + (n + (nat (data_size h) - (k + n)))" using a(2) by linarith
  then have "bs = mem_bytes m p k @ mem_bytes m (p + int k) n @
      mem_bytes m (p + int k + int n) (nat (data_size h) - (k + n))"
    using Cons.prems(10) by (metis mem_bytes_add)
  then have "mem_bytes m (p + int k) n = take n (drop k bs)" by simp
  moreover have "mem_bytes ?m dst n = mem_bytes m (p + int k) n" by (rule mem_bytes_copy)
  moreover have "take (n + sum_list ns) (drop k bs) = take n (drop k bs) @ take (sum_list ns) (drop (k + n) bs)"
    by (simp add: take_add add.commute)
  ultimately show ?case using g rd by (cases s') simp
qed simp

section \<open>Properties\<close>

text \<open>
  C10: a configuration that the host sends in parts arrives whole. When no transfer is pending and
  the allocation succeeds, every part is accepted, whatever the number and the sizes of the parts;
  the component then obtains the blob with its size and its checksum, in every component state and
  whether or not it had a blob before; and the host reads the same bytes back in parts of any
  sizes. The hypotheses say that the message buffers lie apart from the blob and that the old blob
  can be freed.
\<close>

theorem blob_roundtrip:
  assumes "data_new h = 0" "rballoc plat mm 0 SOF_MEM_CAPS_RAM tot = Some (p, mm1)" "0 < p"
    "rfree plat mm1 (bdata h) = Some mm2" "int (length (concat xss)) = tot" "tot < 4294967296"
    "xss \<noteq> []" "0 < src" "\<forall>xs \<in> set xss. xs \<noteq> [] \<and> apart p tot src (int (length xs))"
    "sum_list ns = nat tot" "0 < dst" "\<forall>n \<in> set ns. apart p tot dst (int n)"
  shows "\<exists>s s'. send_blob plat st src tot 0 xss (mm, m, h) = Some (0, s) \<and>
    comp_get_data_blob plat s = Some (p, tot, Some (crc32 0 (concat xss)), s') \<and>
    map_option fst (read_blob dst 0 ns s') = Some (concat xss)"
proof -
  obtain xs yss where xss: "xss = xs # yss" using assms(7) by (cases xss) auto
  then have tot: "0 < tot" using assms(5,9) by (cases xs) auto
  let ?h = "h\<lparr>data_new := p, new_data_size := tot, data_ready := False, data_pos := 0\<rparr>"
  have "\<exists>mm' h'. adopt plat st p tot ?h mm1 = Some (mm', h')" using assms(4) by (cases "bdata h = 0") (simp_all add: adopt_def)
  then obtain mm' h' where ad: "adopt plat st p tot ?h mm1 = Some (mm', h')" by blast
  have "receiving p tot [] (mm1, m, ?h)" by (simp add: receiving_def mem_bytes_def)
  from receive_all [OF this _ assms(6,3,8,9) _ assms(7) _ ad, of 1] assms(5) obtain m' where
    m': "send_blob plat st src tot 1 xss (mm1, m, ?h) = Some (0, mm', m', h')" "mem_bytes m' p (nat tot) = concat xss"
    by auto
  then have sent: "send_blob plat st src tot 0 xss (mm, m, h) = Some (0, mm', m', h')"
    using send_blob_first [OF assms(1-3) tot] xss by simp
  obtain mm'' h'' where got: "comp_get_data_blob plat (mm', m', h') = Some (p, tot, Some (crc32 0 (concat xss)), mm'', m', h'')"
    and h'': "bdata h'' = p" "data_size h'' = tot"
    using ad assms(3,4) m'(2)
    by (auto simp: adopt_def comp_get_data_blob_def comp_is_new_data_blob_available_def split: if_splits bind_splits)
  obtain s' where "read_blob dst 0 ns (mm'', m', h'') = Some (take (sum_list ns) (drop 0 (concat xss)), s')"
    using read_all [of h'' p dst ns 0 0 m' "concat xss" mm''] h'' m'(2) assms(3,6,10-12) tot by auto
  moreover have "take (sum_list ns) (concat xss) = concat xss"
    using assms(5,10) by (metis nat_int take_all_iff order_refl)
  ultimately show ?thesis using sent got by (intro exI [of _ "(mm', m', h')"] exI [of _ "(mm'', m', h'')"]) simp
qed

lemma demo_rballoc: "map_option fst (rballoc demo_plat demo_mm 0 SOF_MEM_CAPS_RAM 3) = Some 4096"
  by code_simp

theorem blob_roundtrip_witness:
  "\<exists>s s'. send_blob demo_plat 5 64 3 0 [[1, 2], [3]] (demo_mm, (\<lambda>_. 0), zero_handler) = Some (0, s) \<and>
    comp_get_data_blob demo_plat s = Some (4096, 3, Some (crc32 0 (concat [[1, 2], [3]])), s') \<and>
    map_option fst (read_blob 64 0 [1, 1, 1] s') = Some (concat [[1, 2], [3]])"
proof -
  obtain mm1 where mm1: "rballoc demo_plat demo_mm 0 SOF_MEM_CAPS_RAM 3 = Some (4096, mm1)"
    using demo_rballoc by auto
  have "rfree demo_plat mm1 (bdata zero_handler) = Some mm1"
    by (simp add: zero_handler_def rfree_def rfree_unlocked_def)
  with mm1 show ?thesis
    by (intro blob_roundtrip) (auto simp: zero_handler_def apart_def)
qed

end
