(* ===== verification/Sof_List.thy ===== *)
theory Sof_List
  imports Sof_Prelude
begin

text \<open>
  The doubly linked circular lists of \<open>src/include/sof/list.h\<close> over an explicit store of links,
  and their refinement of HOL lists. The other theories use the HOL list of the items of a list.
\<close>

section \<open>Definitions\<close>

record list_item =
  nx :: addr
  pv :: addr

type_synonym links = "addr \<Rightarrow> list_item"

definition set_nx :: "links \<Rightarrow> addr \<Rightarrow> addr \<Rightarrow> links" where
  "set_nx s a v = s(a := (s a)\<lparr>nx := v\<rparr>)"

definition set_pv :: "links \<Rightarrow> addr \<Rightarrow> addr \<Rightarrow> links" where
  "set_pv s a v = s(a := (s a)\<lparr>pv := v\<rparr>)"

definition list_init :: "links \<Rightarrow> addr \<Rightarrow> links" where
  "list_init s lst = set_pv (set_nx s lst lst) lst lst"

definition list_item_prepend :: "links \<Rightarrow> addr \<Rightarrow> addr \<Rightarrow> links" where
  "list_item_prepend s item lst =
     (let next = nx (s lst);
          s = set_pv s next item;
          s = set_nx s item next;
          s = set_pv s item lst
      in set_nx s lst item)"

definition list_item_append :: "links \<Rightarrow> addr \<Rightarrow> addr \<Rightarrow> links" where
  "list_item_append s item lst =
     (let tail = pv (s lst);
          s = set_nx s tail item;
          s = set_nx s item lst;
          s = set_pv s item tail
      in set_pv s lst item)"

definition list_item_del :: "links \<Rightarrow> addr \<Rightarrow> links" where
  "list_item_del s item =
     (let s = set_pv s (nx (s item)) (pv (s item));
          s = set_nx s (pv (s item)) (nx (s item))
      in list_init s item)"

definition list_item_is_last :: "links \<Rightarrow> addr \<Rightarrow> addr \<Rightarrow> bool" where
  "list_item_is_last s item lst \<longleftrightarrow> nx (s item) = lst"

definition list_is_empty :: "links \<Rightarrow> addr \<Rightarrow> bool" where
  "list_is_empty s item \<longleftrightarrow> nx (s item) = item"

text \<open>The items \<open>list_for_item\<close> visits from \<open>item\<close> on; the loop ends only if it meets the head.\<close>

partial_function (option) list_for_item :: "links \<Rightarrow> addr \<Rightarrow> addr \<Rightarrow> addr list option" where
  "list_for_item s item lst =
     (if item = lst then Some []
      else do { rest \<leftarrow> list_for_item s (nx (s item)) lst; Some (item # rest) })"

text \<open>The two loops of \<open>list_relink\<close>: the visited item may be given the new head as its neighbour.\<close>

partial_function (option) relink_next :: "links \<Rightarrow> addr \<Rightarrow> addr \<Rightarrow> addr \<Rightarrow> links option" where
  "relink_next s li new old =
     (if li = new then Some s
      else
        let s' = (if nx (s li) = old then set_nx s li new else s)
        in relink_next s' (nx (s' li)) new old)"

partial_function (option) relink_prev :: "links \<Rightarrow> addr \<Rightarrow> addr \<Rightarrow> addr \<Rightarrow> links option" where
  "relink_prev s li new old =
     (if li = new then Some s
      else
        let s' = (if pv (s li) = old then set_pv s li new else s)
        in relink_prev s' (pv (s' li)) new old)"

definition list_relink :: "links \<Rightarrow> addr \<Rightarrow> addr \<Rightarrow> links option" where
  "list_relink s new old =
     (if nx (s new) = old then Some (list_init s new)
      else do { s1 \<leftarrow> relink_next s (nx (s new)) new old;
                relink_prev s1 (pv (s1 new)) new old })"

section \<open>Segments\<close>

text \<open>\<open>seg s a xs b\<close>: following the links from \<open>a\<close> one passes exactly \<open>xs\<close> and reaches \<open>b\<close>, and
  the back links agree.\<close>

fun seg :: "links \<Rightarrow> addr \<Rightarrow> addr list \<Rightarrow> addr \<Rightarrow> bool" where
  "seg s a [] b \<longleftrightarrow> nx (s a) = b \<and> pv (s b) = a"
| "seg s a (x # xs) b \<longleftrightarrow> nx (s a) = x \<and> pv (s x) = a \<and> seg s x xs b"

definition is_list :: "links \<Rightarrow> addr \<Rightarrow> addr list \<Rightarrow> bool" where
  "is_list s lst xs \<longleftrightarrow> distinct (lst # xs) \<and> seg s lst xs lst"

lemma seg_append: "seg s a (xs @ y # ys) b \<longleftrightarrow> seg s a xs y \<and> seg s y ys b"
  by (induction xs arbitrary: a) auto

lemma seg_cong:
  "(\<And>x. x \<in> set (a # xs) \<Longrightarrow> nx (s' x) = nx (s x)) \<Longrightarrow> (\<And>x. x \<in> set (xs @ [b]) \<Longrightarrow> pv (s' x) = pv (s x)) \<Longrightarrow>
   seg s' a xs b \<longleftrightarrow> seg s a xs b"
  by (induction xs arbitrary: a) auto

lemma link_simps [simp]:
  "nx (set_nx s a v x) = (if x = a then v else nx (s x))" "pv (set_nx s a v x) = pv (s x)"
  "nx (set_pv s a v x) = nx (s x)" "pv (set_pv s a v x) = (if x = a then v else pv (s x))"
  by (simp_all add: set_nx_def set_pv_def)

lemma seg_first: "seg s a xs b \<Longrightarrow> nx (s a) = hd (xs @ [b])"
  by (cases xs) auto

lemma seg_last: "seg s a xs b \<Longrightarrow> pv (s b) = last (a # xs)"
  by (induction xs arbitrary: a) auto

section \<open>The operations on lists\<close>

lemma list_init_list: "is_list (list_init s lst) lst []"
  by (simp add: is_list_def list_init_def)

lemma prepend_list:
  assumes "is_list s lst xs" "item \<notin> set (lst # xs)"
  shows "is_list (list_item_prepend s item lst) lst (item # xs)"
proof -
  let ?s' = "list_item_prepend s item lst"
  have d: "distinct (lst # item # xs)" using assms by (auto simp: is_list_def)
  have sg: "seg s lst xs lst" using assms by (simp add: is_list_def)
  show ?thesis
  proof (cases xs)
    case Nil
    then show ?thesis using d sg by (auto simp: is_list_def list_item_prepend_def Let_def)
  next
    case (Cons y ys)
    have "seg ?s' y ys lst \<longleftrightarrow> seg s y ys lst"
      using d Cons sg by (intro seg_cong) (auto simp: list_item_prepend_def Let_def)
    then show ?thesis using d sg Cons by (auto simp: is_list_def list_item_prepend_def Let_def)
  qed
qed

lemma append_list:
  assumes "is_list s lst xs" "item \<notin> set (lst # xs)"
  shows "is_list (list_item_append s item lst) lst (xs @ [item])"
proof -
  let ?s' = "list_item_append s item lst"
  have d: "distinct (lst # item # xs)" using assms by (auto simp: is_list_def)
  have sg: "seg s lst xs lst" using assms by (simp add: is_list_def)
  show ?thesis
  proof (cases xs rule: rev_cases)
    case Nil
    then show ?thesis using d sg by (auto simp: is_list_def list_item_append_def Let_def)
  next
    case (snoc ys y)
    have tl: "pv (s lst) = y" "seg s lst ys y" using sg snoc by (auto simp: seg_append)
    have "seg ?s' lst ys y \<longleftrightarrow> seg s lst ys y"
      using d snoc tl by (intro seg_cong) (auto simp: list_item_append_def Let_def)
    then have "seg ?s' lst ys y" using tl by simp
    moreover have "seg ?s' y [item] lst" using d snoc tl by (auto simp: list_item_append_def Let_def)
    ultimately have "seg ?s' lst (ys @ y # [item]) lst" unfolding seg_append by blast
    then show ?thesis using d snoc by (auto simp: is_list_def)
  qed
qed

lemma del_list:
  assumes "is_list s lst (xs @ item # ys)"
  shows "is_list (list_item_del s item) lst (xs @ ys)" "is_list (list_item_del s item) item []"
proof -
  let ?s' = "list_item_del s item"
  show "is_list ?s' item []" by (simp add: is_list_def list_item_del_def list_init_def Let_def)
  have d: "distinct (lst # xs @ item # ys)" using assms by (simp add: is_list_def)
  have sg: "seg s lst xs item" "seg s item ys lst" using assms by (auto simp: is_list_def seg_append)
  define a where "a = pv (s item)"
  define b where "b = nx (s item)"
  have a: "a = last (lst # xs)" "a \<noteq> item" using seg_last [OF sg(1)] d by (auto simp: a_def)
  have b: "b = hd (ys @ [lst])" "b \<noteq> item" using seg_first [OF sg(2)] d by (cases ys; auto simp: b_def)+
  have nx': "nx (?s' x) = (if x = item then item else if x = a then b else nx (s x))" for x
    using a(2) b(2) by (simp add: list_item_del_def list_init_def Let_def a_def b_def)
  have pv': "pv (?s' x) = (if x = item then item else if x = b then a else pv (s x))" for x
    using a(2) b(2) by (simp add: list_item_del_def list_init_def Let_def a_def b_def)
  have main: "seg ?s' lst (xs @ ys) lst"
  proof (cases xs rule: rev_cases)
    case Nil
    show ?thesis
    proof (cases ys)
      case Nil
      then show ?thesis using \<open>xs = []\<close> d a b nx' pv' by simp
    next
      case (Cons y zs)
      have "seg ?s' y zs lst \<longleftrightarrow> seg s y zs lst"
        using d Cons \<open>xs = []\<close> a b nx' pv' by (intro seg_cong) auto
      then show ?thesis using d sg Cons \<open>xs = []\<close> a b nx' pv' by simp
    qed
  next
    case (snoc ws w)
    have w: "seg s lst ws w" "a = w" using sg(1) snoc a by (auto simp: seg_append)
    have "seg ?s' lst ws w \<longleftrightarrow> seg s lst ws w"
      using d snoc w a b nx' pv' by (intro seg_cong) (cases ys; auto)+
    moreover have "seg ?s' w ys lst"
    proof (cases ys)
      case Nil
      then show ?thesis using snoc d w b nx' pv' by simp
    next
      case (Cons y zs)
      have "seg ?s' y zs lst \<longleftrightarrow> seg s y zs lst"
        using d Cons snoc w b nx' pv' by (intro seg_cong) auto
      then show ?thesis using d sg Cons snoc w b nx' pv' by simp
    qed
    ultimately show ?thesis using w(1) snoc by (simp add: seg_append)
  qed
  with d show "is_list ?s' lst (xs @ ys)" by (simp add: is_list_def)
qed

lemma empty_list: "is_list s lst xs \<Longrightarrow> list_is_empty s lst \<longleftrightarrow> xs = []"
  by (cases xs) (auto simp: is_list_def list_is_empty_def)

lemma is_last_list:
  assumes "is_list s lst (xs @ item # ys)"
  shows "list_item_is_last s item lst \<longleftrightarrow> ys = []"
  using assms by (cases ys) (auto simp: is_list_def list_item_is_last_def seg_append)

lemma for_item_seg:
  "seg s a xs lst \<Longrightarrow> lst \<notin> set xs \<Longrightarrow> list_for_item s (nx (s a)) lst = Some xs"
  by (induction xs arbitrary: a) (auto simp: list_for_item.simps)

lemma for_item_list: "is_list s lst xs \<Longrightarrow> list_for_item s (nx (s lst)) lst = Some xs"
  by (simp add: is_list_def for_item_seg)

text \<open>A list whose head was copied from \<open>old\<close> to \<open>new\<close>: the end items still name the old head.\<close>

lemma relink_next_seg:
  "seg s a xs old \<Longrightarrow> new \<notin> set xs \<Longrightarrow> old \<notin> set xs \<Longrightarrow> distinct xs \<Longrightarrow> xs \<noteq> [] \<Longrightarrow>
   \<exists>s'. relink_next s (hd xs) new old = Some s' \<and> s' = set_nx s (last xs) new"
proof (induction xs arbitrary: a)
  case (Cons x xs)
  show ?case
  proof (cases xs)
    case Nil
    then show ?thesis using Cons.prems by (simp add: relink_next.simps [of s] relink_next.simps [of "set_nx s x new"])
  next
    case (Cons y ys)
    then have "seg s x xs old" "xs \<noteq> []" "nx (s x) = hd xs" "nx (s x) \<noteq> old" using Cons.prems by auto
    then show ?thesis using Cons.IH [of x] Cons.prems by (simp add: relink_next.simps [of s x])
  qed
qed simp

lemma relink_prev_seg:
  "seg s old xs b \<Longrightarrow> new \<notin> set xs \<Longrightarrow> old \<notin> set xs \<Longrightarrow> distinct xs \<Longrightarrow> xs \<noteq> [] \<Longrightarrow>
   \<exists>s'. relink_prev s (last xs) new old = Some s' \<and> s' = set_pv s (hd xs) new"
proof (induction xs arbitrary: b rule: rev_induct)
  case (snoc x xs)
  note prems = snoc.prems and IH = snoc.IH
  show ?case
  proof (cases "xs = []")
    case True
    then show ?thesis using prems by (simp add: relink_prev.simps [of s] relink_prev.simps [of "set_pv s x new"])
  next
    case False
    then obtain ys y where ys: "xs = ys @ [y]" by (cases xs rule: rev_cases) auto
    have "seg s old xs x" using prems(1) by (simp add: seg_append)
    moreover have "pv (s x) = y" using seg_last [OF calculation] ys by simp
    moreover have "y \<noteq> old" using prems(3) ys by auto
    ultimately show ?thesis using IH [of x] prems False ys by (simp add: relink_prev.simps [of s x] hd_append)
  qed
qed simp

lemma relink_list:
  assumes "is_list s old xs" "new \<notin> set (old # xs)" "s' = s(new := s old)"
  shows "\<exists>s''. list_relink s' new old = Some s'' \<and> is_list s'' new xs"
proof (cases "xs = []")
  case True
  then show ?thesis using assms by (auto simp: list_relink_def is_list_def list_init_def)
next
  case False
  have d: "distinct (old # xs)" "seg s old xs old" using assms(1) by (auto simp: is_list_def)
  have sg: "seg s' old xs old" using d assms(2,3) by (subst seg_cong [of _ _ s' s]) auto
  have ends: "nx (s' new) = hd xs" "pv (s' new) = last xs"
    using seg_first [OF d(2)] seg_last [OF d(2)] False assms(3) by auto
  have "hd xs \<noteq> old" using False d(1) by (cases xs) auto
  let ?s1 = "set_nx s' (last xs) new"
  have r1: "relink_next s' (nx (s' new)) new old = Some ?s1"
    using relink_next_seg [OF sg, of new] assms(2) d(1) False ends by auto
  have l: "last xs \<noteq> new" using False assms(2) last_in_set by fastforce
  obtain ys y where xs: "xs = ys @ [y]" using False by (cases xs rule: rev_cases) auto
  have "seg s' old ys y" using sg by (simp add: xs seg_append)
  then have "seg ?s1 old ys y" using d(1) by (subst seg_cong [of _ _ ?s1 s']) (auto simp: xs)
  then have "seg ?s1 old xs new" using xs ends l assms(2) by (simp add: seg_append)
  then have r2: "relink_prev ?s1 (pv (?s1 new)) new old = Some (set_pv ?s1 (hd xs) new)"
    using relink_prev_seg [of ?s1 old xs new new] assms(2) d(1) False ends by auto
  have "is_list (set_pv ?s1 (hd xs) new) new xs"
  proof (cases xs)
    case (Cons z zs)
    have "seg ?s1 z zs new" using \<open>seg ?s1 old xs new\<close> Cons by simp
    then have "seg (set_pv ?s1 z new) z zs new"
      using d(1) Cons assms(2) by (subst seg_cong [of _ _ _ ?s1]) auto
    then show ?thesis using Cons d(1) assms(2) ends l by (auto simp: is_list_def)
  qed (use False in simp)
  then show ?thesis using r1 r2 \<open>hd xs \<noteq> old\<close> ends by (simp add: list_relink_def)
qed

section \<open>Appending an item that is already linked\<close>

text \<open>
  The walks over the pipeline graph append a pipeline each time they meet its scheduling component,
  linked already or not. Only the forward links remain a list then.
\<close>

fun path :: "links \<Rightarrow> addr \<Rightarrow> addr list \<Rightarrow> addr \<Rightarrow> bool" where
  "path s a [] b \<longleftrightarrow> nx (s a) = b"
| "path s a (x # xs) b \<longleftrightarrow> nx (s a) = x \<and> path s x xs b"

definition fwd_list :: "links \<Rightarrow> addr \<Rightarrow> addr list \<Rightarrow> bool" where
  "fwd_list s lst xs \<longleftrightarrow> distinct (lst # xs) \<and> path s lst xs lst \<and> pv (s lst) = last (lst # xs)"

text \<open>A linked item that is appended again cuts the list off behind it.\<close>

definition append_again :: "addr list \<Rightarrow> addr \<Rightarrow> addr list" where
  "append_again xs x = takeWhile (\<lambda>y. y \<noteq> x) xs @ [x]"

lemma path_append: "path s a (xs @ y # ys) b \<longleftrightarrow> path s a xs y \<and> path s y ys b"
  by (induction xs arbitrary: a) auto

lemma path_cong: "(\<And>x. x \<in> set (a # xs) \<Longrightarrow> nx (s' x) = nx (s x)) \<Longrightarrow> path s' a xs b \<longleftrightarrow> path s a xs b"
  by (induction xs arbitrary: a) auto

lemma fwd_list_init: "fwd_list (list_init s lst) lst []"
  by (simp add: fwd_list_def list_init_def)

lemma fwd_list_append:
  assumes "fwd_list s lst xs" "x \<noteq> lst"
  shows "fwd_list (list_item_append s x lst) lst (append_again xs x)"
proof (cases "x \<in> set xs")
  case False
  have tw: "append_again xs x = xs @ [x]" using False by (auto simp: append_again_def takeWhile_eq_all_conv)
  let ?s = "list_item_append s x lst"
  have d: "distinct (lst # xs)" "path s lst xs lst" "pv (s lst) = last (lst # xs)"
    using assms(1) by (auto simp: fwd_list_def)
  show ?thesis
  proof (cases xs rule: rev_cases)
    case Nil
    then show ?thesis using assms d by (auto simp: append_again_def fwd_list_def list_item_append_def Let_def)
  next
    case (snoc ys y)
    have "path ?s lst ys y"
      using d False assms(2) snoc by (subst path_cong [of _ _ ?s s]) (auto simp: path_append list_item_append_def Let_def)
    then show ?thesis unfolding tw using assms(2) d False snoc
      by (auto simp: fwd_list_def path_append list_item_append_def Let_def)
  qed
next
  case True
  then obtain ys zs where xs: "xs = ys @ x # zs" "x \<notin> set ys" by (auto dest: split_list_first)
  have tw: "append_again xs x = ys @ [x]" using xs by (auto simp: append_again_def takeWhile_append takeWhile_eq_all_conv)
  let ?s = "list_item_append s x lst"
  have d: "distinct (lst # xs)" "path s lst ys x" "pv (s lst) = last (x # zs)"
    using assms(1) xs by (auto simp: fwd_list_def path_append)
  have "last (x # zs) \<notin> set (lst # ys)" using d(1) xs by (cases zs rule: rev_cases) auto
  then have "path ?s lst ys x"
    using d xs by (subst path_cong [of _ _ ?s s]) (auto simp: list_item_append_def Let_def)
  then show ?thesis unfolding tw using d xs by (auto simp: fwd_list_def path_append list_item_append_def Let_def)
qed

lemma fwd_list_append_any:
  assumes "fwd_list s lst xs"
  shows "\<exists>ys. fwd_list (list_item_append s x lst) lst ys"
proof (cases "x = lst")
  case True
  then have "fwd_list (list_item_append s x lst) lst []"
    by (simp add: fwd_list_def list_item_append_def Let_def)
  then show ?thesis by blast
next
  case False
  then show ?thesis using fwd_list_append [OF assms] by blast
qed

lemma for_item_path: "path s a xs lst \<Longrightarrow> lst \<notin> set xs \<Longrightarrow> list_for_item s (nx (s a)) lst = Some xs"
proof (induction xs arbitrary: a)
  case Nil
  then show ?case by (simp add: list_for_item.simps)
next
  case (Cons x xs)
  then show ?case by (subst list_for_item.simps) auto
qed

lemma for_item_fwd: "fwd_list s lst xs \<Longrightarrow> list_for_item s (nx (s lst)) lst = Some xs"
  by (auto simp: fwd_list_def intro: for_item_path)

section \<open>Properties\<close>

definition demo_links :: links where
  "demo_links = list_item_append (list_item_append (list_init (\<lambda>_. \<lparr>nx = 0, pv = 0\<rparr>) 1) 2 1) 3 1"

lemma demo_links_list: "is_list demo_links 1 [2, 3]"
proof -
  have "is_list (list_init (\<lambda>_. \<lparr>nx = 0, pv = 0\<rparr>) 1) 1 []" by (rule list_init_list)
  from append_list [OF this, of 2] have "is_list (list_item_append (list_init (\<lambda>_. \<lparr>nx = 0, pv = 0\<rparr>) 1) 2 1) 1 [2]"
    by simp
  from append_list [OF this, of 3] show ?thesis by (simp add: demo_links_def)
qed

text \<open>
  C28: the list operations refine lists: appending and prepending a new item, deleting an item at
  any place and testing for emptiness do on the circular links what they do on the list of items,
  a deleted item is an empty list of its own, and the iteration macro visits exactly the items in
  order and ends.
\<close>

theorem list_refinement:
  assumes "is_list s lst xs" "item \<notin> set (lst # xs)"
  shows "is_list (list_item_append s item lst) lst (xs @ [item]) \<and>
    is_list (list_item_prepend s item lst) lst (item # xs) \<and>
    (\<forall>ys zs y. xs = ys @ y # zs \<longrightarrow>
       is_list (list_item_del s y) lst (ys @ zs) \<and> is_list (list_item_del s y) y []) \<and>
    (list_is_empty s lst \<longleftrightarrow> xs = []) \<and> list_for_item s (nx (s lst)) lst = Some xs"
  using append_list [OF assms] prepend_list [OF assms] del_list empty_list [OF assms(1)]
    for_item_list [OF assms(1)] assms(1) by blast

theorem list_refinement_witness:
  "is_list (list_item_append demo_links 4 1) 1 ([2, 3] @ [4]) \<and>
    is_list (list_item_prepend demo_links 4 1) 1 (4 # [2, 3]) \<and>
    is_list (list_item_del demo_links 3) 1 [2] \<and> is_list (list_item_del demo_links 3) 3 [] \<and>
    \<not> list_is_empty demo_links 1 \<and> list_for_item demo_links (nx (demo_links 1)) 1 = Some [2, 3]"
proof -
  have "4 \<notin> set [1 :: int, 2, 3]" by simp
  note r = list_refinement [OF demo_links_list this]
  have "[2, 3] = [2 :: int] @ 3 # []" by simp
  then have "is_list (list_item_del demo_links 3) 1 ([2] @ []) \<and> is_list (list_item_del demo_links 3) 3 []"
    using r by blast
  then show ?thesis using r by simp
qed

text \<open>
  C29: when the head of a list is copied to a new address, \<open>list_relink\<close> ends and makes the copy
  the head of the same list.
\<close>

theorem list_relink_moves:
  assumes "is_list s old xs" "new \<notin> set (old # xs)"
  shows "\<exists>s'. list_relink (s(new := s old)) new old = Some s' \<and> is_list s' new xs"
  using relink_list [OF assms refl] .

theorem list_relink_moves_witness:
  "\<exists>s'. list_relink (demo_links(9 := demo_links 1)) 9 1 = Some s' \<and> is_list s' 9 [2, 3]"
  by (rule list_relink_moves [OF demo_links_list]) simp

end
