(* ===== verification/Sof_Firmware.thy ===== *)
theory Sof_Firmware
  imports Sof_Component Sof_List
begin

text \<open>
  The state of the audio firmware that the pipeline code works on: components, buffers and
  pipelines in stores indexed by address, the position table, and the log of what is sent to the
  host. On it the component operations of \<open>component_ext.h\<close>, the parameter check of
  \<open>src/ipc/ipc-helper.c\<close>, the message objects of \<open>ipc/msg.h\<close> and the graph construction of
  \<open>src/audio/pipeline/pipeline-graph.c\<close>.

  The operations of a component driver are function pointers in the code and a parameter of the
  model, as are the operations of the schedulers, the inter-core messages and the hardware time
  stamps. They act on the whole state, including a private part of their own.
\<close>

section \<open>State\<close>

definition ENODATA :: int where "ENODATA = 61"
definition EPIPE :: int where "EPIPE = 32"

definition PPL_STATUS_PATH_STOP :: int where "PPL_STATUS_PATH_STOP = 1"
definition PPL_STATUS_SCHEDULED :: int where "PPL_STATUS_SCHEDULED = 2"
definition PPL_CONN_DIR_COMP_TO_BUFFER :: int where "PPL_CONN_DIR_COMP_TO_BUFFER = 0"
definition PPL_CONN_DIR_BUFFER_TO_COMP :: int where "PPL_CONN_DIR_BUFFER_TO_COMP = 1"
definition PPL_DIR_DOWNSTREAM :: int where "PPL_DIR_DOWNSTREAM = 0"
definition PPL_DIR_UPSTREAM :: int where "PPL_DIR_UPSTREAM = 1"
definition SOF_IPC_STREAM_PLAYBACK :: int where "SOF_IPC_STREAM_PLAYBACK = 0"
definition SOF_IPC_STREAM_CAPTURE :: int where "SOF_IPC_STREAM_CAPTURE = 1"
definition SOF_TIME_DOMAIN_TIMER :: int where "SOF_TIME_DOMAIN_TIMER = 1"
definition BUFF_PARAMS_BUFFER_FMT :: int where "BUFF_PARAMS_BUFFER_FMT = 2"
definition SOF_IPC_GLB_STREAM_MSG :: int where "SOF_IPC_GLB_STREAM_MSG = 0x60000000"
definition SOF_IPC_STREAM_TRIG_XRUN :: int where "SOF_IPC_STREAM_TRIG_XRUN = 0x00090000"

lemmas ppl_dirs = PPL_DIR_DOWNSTREAM_def PPL_DIR_UPSTREAM_def PPL_CONN_DIR_COMP_TO_BUFFER_def
  PPL_CONN_DIR_BUFFER_TO_COMP_def SOF_IPC_STREAM_PLAYBACK_def SOF_IPC_STREAM_CAPTURE_def

record pipeline =
  pp_comp_id :: int
  pp_pipeline_id :: int
  pp_sched_id :: int
  pp_core :: int
  pp_period :: int
  pp_priority :: int
  pp_period_mips :: int
  pp_frames_per_sched :: int
  pp_xrun_limit_usecs :: int
  pp_time_domain :: int
  xrun_bytes :: int
  pp_status :: int
  pipe_task :: addr
  sched_next :: addr
  sched_prev :: addr
  sched_comp :: addr
  source_comp :: addr
  sink_comp :: addr
  posn_offset :: int
  pp_msg :: addr
  trig_cmd :: int
  trig_host :: addr
  trig_delay :: int
  trig_aborted :: bool

record stream_posn =
  posn_cmd :: int
  posn_size :: int
  posn_comp_id :: int
  posn_flags :: int
  wallclock_hz :: int
  timestamp_ns :: int
  host_posn :: int
  dai_posn :: int
  comp_posn :: int
  wallclock :: int
  timestamp :: int
  xrun_comp_id :: int
  xrun_size :: int

text \<open>What leaves the pipeline code, in order.\<close>

datatype ppl_event =
    Ipc_Reply int
  | Msg_Send addr stream_posn
  | Mailbox_Write int stream_posn
  | Panic_On_Delay bool
  | Wait_Delay int

datatype idc_msg =
    IDC_MSG_PARAMS int int sof_ipc_stream_params
  | IDC_MSG_TRIGGER int int int
  | IDC_MSG_PREPARE int int
  | IDC_MSG_RESET int int

text \<open>The message object with the address of its data.\<close>

record ipc_msg =
  msg_header :: int
  tx_size :: int
  tx_data :: addr

text \<open>A pipeline task; the scheduler keeps its own part of it.\<close>

record pipeline_task =
  registrable :: bool
  pt_sched_comp :: addr

record 'p fw =
  fw_buf :: buf_state
  comps :: "addr \<Rightarrow> comp_dev"
  pipes :: "addr \<Rightarrow> pipeline"
  msgs :: "addr \<Rightarrow> ipc_msg"
  ptasks :: "addr \<Rightarrow> pipeline_task"
  posn_table :: "bool list"
  events :: "ppl_event list"
  priv :: 'p

text \<open>The operations of a driver; an absent operation is None. An operation that never returns gives None.\<close>

record 'p comp_ops =
  op_params :: "(addr \<Rightarrow> sof_ipc_stream_params \<Rightarrow> 'p fw \<Rightarrow> (int \<times> sof_ipc_stream_params \<times> 'p fw) option) option"
  op_hw_params :: "(addr \<Rightarrow> sof_ipc_stream_params \<Rightarrow> int \<Rightarrow> 'p fw \<Rightarrow> (int \<times> sof_ipc_stream_params \<times> 'p fw) option) option"
  op_trigger :: "(addr \<Rightarrow> int \<Rightarrow> 'p fw \<Rightarrow> (int \<times> 'p fw) option) option"
  op_prepare :: "(addr \<Rightarrow> 'p fw \<Rightarrow> (int \<times> 'p fw) option) option"
  op_copy :: "(addr \<Rightarrow> 'p fw \<Rightarrow> (int \<times> 'p fw) option) option"
  op_reset :: "(addr \<Rightarrow> 'p fw \<Rightarrow> (int \<times> 'p fw) option) option"

record 'p sched_ops =
  schedule_task_init_ll :: "addr \<Rightarrow> int \<Rightarrow> int \<Rightarrow> addr \<Rightarrow> int \<Rightarrow> 'p fw \<Rightarrow> int \<times> 'p fw"
  schedule_task :: "addr \<Rightarrow> int \<Rightarrow> int \<Rightarrow> 'p fw \<Rightarrow> 'p fw"
  schedule_task_before :: "addr \<Rightarrow> int \<Rightarrow> int \<Rightarrow> addr \<Rightarrow> 'p fw \<Rightarrow> 'p fw"
  schedule_task_after :: "addr \<Rightarrow> int \<Rightarrow> int \<Rightarrow> addr \<Rightarrow> 'p fw \<Rightarrow> 'p fw"
  schedule_task_cancel :: "addr \<Rightarrow> 'p fw \<Rightarrow> 'p fw"
  schedule_task_free :: "addr \<Rightarrow> 'p fw \<Rightarrow> 'p fw"
  task_is_active :: "addr \<Rightarrow> 'p fw \<Rightarrow> bool"

text \<open>
  The environment: platform constants, the running core, the drivers, the schedulers, inter-core
  messages, time stamps, the start-up delay of a DAI, the sizes of the structures, and the bound
  on the depth of a graph walk.
\<close>

record 'p fw_env =
  env_plat :: plat
  env_cpu :: int
  env_drv :: "addr \<Rightarrow> 'p comp_ops"
  env_sched :: "'p sched_ops"
  idc_send_msg :: "idc_msg \<Rightarrow> 'p fw \<Rightarrow> (int \<times> 'p fw) option"
  platform_host_timestamp :: "addr \<Rightarrow> stream_posn \<Rightarrow> 'p fw \<Rightarrow> stream_posn"
  platform_dai_timestamp :: "addr \<Rightarrow> stream_posn \<Rightarrow> 'p fw \<Rightarrow> stream_posn"
  dai_get_init_delay_ms :: "addr \<Rightarrow> 'p fw \<Rightarrow> int"
  sizeof_pipeline :: int
  sizeof_pipeline_task :: int
  sizeof_posn :: int
  sizeof_msg :: int
  walk_fuel :: nat

abbreviation cdev :: "'p fw \<Rightarrow> addr \<Rightarrow> comp_dev" where
  "cdev s d \<equiv> comps s d"

abbreviation buf :: "'p fw \<Rightarrow> addr \<Rightarrow> comp_buffer" where
  "buf s b \<equiv> bs_bufs (fw_buf s) b"

abbreviation pipe :: "'p fw \<Rightarrow> addr \<Rightarrow> pipeline" where
  "pipe s p \<equiv> pipes s p"

definition upd_comp :: "addr \<Rightarrow> (comp_dev \<Rightarrow> comp_dev) \<Rightarrow> 'p fw \<Rightarrow> 'p fw" where
  "upd_comp d f s = s\<lparr>comps := (comps s)(d := f (comps s d))\<rparr>"

definition upd_buf :: "addr \<Rightarrow> (comp_buffer \<Rightarrow> comp_buffer) \<Rightarrow> 'p fw \<Rightarrow> 'p fw" where
  "upd_buf b f s = s\<lparr>fw_buf := (fw_buf s)\<lparr>bs_bufs := (bs_bufs (fw_buf s))(b := f (bs_bufs (fw_buf s) b))\<rparr>\<rparr>"

definition upd_pipe :: "addr \<Rightarrow> (pipeline \<Rightarrow> pipeline) \<Rightarrow> 'p fw \<Rightarrow> 'p fw" where
  "upd_pipe p f s = s\<lparr>pipes := (pipes s)(p := f (pipes s p))\<rparr>"

definition emit :: "ppl_event \<Rightarrow> 'p fw \<Rightarrow> 'p fw" where
  "emit e s = s\<lparr>events := events s @ [e]\<rparr>"

definition set_mm :: "mm \<Rightarrow> 'p fw \<Rightarrow> 'p fw" where
  "set_mm mm s = s\<lparr>fw_buf := (fw_buf s)\<lparr>bs_mm := mm\<rparr>\<rparr>"

lemmas fw_upd_defs = upd_comp_def upd_buf_def upd_pipe_def emit_def set_mm_def

section \<open>Component operations\<close>

definition comp_buffer_list :: "comp_dev \<Rightarrow> int \<Rightarrow> addr list" where
  "comp_buffer_list c dir = (if dir = PPL_DIR_DOWNSTREAM then bsink_list c else bsource_list c)"

definition buffer_get_comp :: "comp_buffer \<Rightarrow> int \<Rightarrow> addr" where
  "buffer_get_comp b dir = (if dir = PPL_DIR_DOWNSTREAM then b_sink b else b_source b)"

definition buffer_set_comp :: "addr \<Rightarrow> int \<Rightarrow> comp_buffer \<Rightarrow> comp_buffer" where
  "buffer_set_comp c dir b = (if dir = PPL_CONN_DIR_COMP_TO_BUFFER then b\<lparr>b_source := c\<rparr> else b\<lparr>b_sink := c\<rparr>)"

definition comp_update_params :: "int \<Rightarrow> sof_ipc_stream_params \<Rightarrow> comp_buffer \<Rightarrow> sof_ipc_stream_params" where
  "comp_update_params flag params buffer =
     (let p1 = (if flag AND BUFF_PARAMS_FRAME_FMT \<noteq> 0
                then params\<lparr>p_frame_fmt := frame_fmt (b_stream buffer)\<rparr> else params);
          p2 = (if flag AND BUFF_PARAMS_BUFFER_FMT \<noteq> 0 then p1\<lparr>p_buffer_fmt := b_buffer_fmt buffer\<rparr> else p1);
          p3 = (if flag AND BUFF_PARAMS_CHANNELS \<noteq> 0
                then p2\<lparr>p_channels := st_channels (b_stream buffer)\<rparr> else p2)
      in if flag AND BUFF_PARAMS_RATE \<noteq> 0 then p3\<lparr>p_rate := st_rate (b_stream buffer)\<rparr> else p3)"

text \<open>One buffer of the verification: the parameters are adjusted and forced upon the buffer.\<close>

definition verify_buffer :: "int \<Rightarrow> addr \<Rightarrow> sof_ipc_stream_params \<times> 'p fw \<Rightarrow> sof_ipc_stream_params \<times> 'p fw" where
  "verify_buffer flag b = (\<lambda>(params, s).
     let p = comp_update_params flag params (buf s b)
     in (p, upd_buf b (\<lambda>bf. snd (buffer_set_params bf (Some p) True)) s))"

text \<open>
  A component with no buffer at all makes the code read the list head as a buffer: the model gives
  no result. The null check on the parameters is the option.
\<close>

definition comp_verify_params ::
    "addr \<Rightarrow> int \<Rightarrow> sof_ipc_stream_params \<Rightarrow> 'p fw \<Rightarrow> (int \<times> sof_ipc_stream_params \<times> 'p fw) option" where
  "comp_verify_params d flag params s =
     (let dev = cdev s d; source_list = bsource_list dev; sink_list = bsink_list dev
      in if (source_list = []) \<noteq> (sink_list = []) then
           (let b = (if source_list \<noteq> [] then hd source_list else hd sink_list);
                (p, s1) = verify_buffer flag b (params, s)
            in Some (0, p, upd_comp d (\<lambda>c. component_set_nearest_period_frames c (st_rate (b_stream (buf s1 b)))) s1))
         else
           (let (p, s1) = fold (verify_buffer flag) (comp_buffer_list dev (c_direction dev)) (params, s)
            in case sink_list of
                 [] \<Rightarrow> None
               | b # _ \<Rightarrow>
                   Some (0, p, upd_comp d (\<lambda>c. component_set_nearest_period_frames c (st_rate (b_stream (buf s1 b)))) s1)))"

definition cpu_is_me :: "'p fw_env \<Rightarrow> int \<Rightarrow> bool" where
  "cpu_is_me env core \<longleftrightarrow> core = env_cpu env"

definition on_other_core :: "'p fw_env \<Rightarrow> comp_dev \<Rightarrow> bool" where
  "on_other_core env dev \<longleftrightarrow> c_is_shared dev \<and> \<not> cpu_is_me env (ic_core (ipc_config dev))"

definition comp_params ::
    "'p fw_env \<Rightarrow> addr \<Rightarrow> sof_ipc_stream_params \<Rightarrow> 'p fw \<Rightarrow> (int \<times> sof_ipc_stream_params \<times> 'p fw) option" where
  "comp_params env d params s =
     (let dev = cdev s d
      in if on_other_core env dev
         then do { (ret, s') \<leftarrow> idc_send_msg env (IDC_MSG_PARAMS (dev_comp_id dev) (ic_core (ipc_config dev)) params) s;
                   Some (ret, params, s') }
         else case op_params (env_drv env (c_drv dev)) of
                Some f \<Rightarrow> f d params s
              | None \<Rightarrow> comp_verify_params d 0 params s)"

definition comp_dai_get_hw_params ::
    "'p fw_env \<Rightarrow> addr \<Rightarrow> sof_ipc_stream_params \<Rightarrow> int \<Rightarrow> 'p fw \<Rightarrow> (int \<times> sof_ipc_stream_params \<times> 'p fw) option" where
  "comp_dai_get_hw_params env d params dir s =
     (case op_hw_params (env_drv env (c_drv (cdev s d))) of
        Some f \<Rightarrow> f d params dir s
      | None \<Rightarrow> Some (- EINVAL, params, s))"

definition comp_trigger :: "'p fw_env \<Rightarrow> addr \<Rightarrow> int \<Rightarrow> 'p fw \<Rightarrow> (int \<times> 'p fw) option" where
  "comp_trigger env d cmd s =
     (let dev = cdev s d
      in case op_trigger (env_drv env (c_drv dev)) of
           None \<Rightarrow> None
         | Some f \<Rightarrow>
             if on_other_core env dev
             then idc_send_msg env (IDC_MSG_TRIGGER (dev_comp_id dev) (ic_core (ipc_config dev)) cmd) s
             else f d cmd s)"

definition comp_prepare :: "'p fw_env \<Rightarrow> addr \<Rightarrow> 'p fw \<Rightarrow> (int \<times> 'p fw) option" where
  "comp_prepare env d s =
     (let dev = cdev s d
      in case op_prepare (env_drv env (c_drv dev)) of
           None \<Rightarrow> Some (0, s)
         | Some f \<Rightarrow>
             if on_other_core env dev
             then idc_send_msg env (IDC_MSG_PREPARE (dev_comp_id dev) (ic_core (ipc_config dev))) s
             else f d s)"

definition comp_copy :: "'p fw_env \<Rightarrow> addr \<Rightarrow> 'p fw \<Rightarrow> (int \<times> 'p fw) option" where
  "comp_copy env d s =
     (let dev = cdev s d
      in case op_copy (env_drv env (c_drv dev)) of
           None \<Rightarrow> None
         | Some f \<Rightarrow> if cpu_is_me env (ic_core (ipc_config dev)) then f d s else Some (0, s))"

definition comp_reset :: "'p fw_env \<Rightarrow> addr \<Rightarrow> 'p fw \<Rightarrow> (int \<times> 'p fw) option" where
  "comp_reset env d s =
     (let dev = cdev s d
      in case op_reset (env_drv env (c_drv dev)) of
           None \<Rightarrow> Some (0, s)
         | Some f \<Rightarrow>
             if on_other_core env dev
             then idc_send_msg env (IDC_MSG_RESET (dev_comp_id dev) (ic_core (ipc_config dev))) s
             else f d s)"

definition comp_is_scheduling_source :: "'p fw \<Rightarrow> addr \<Rightarrow> bool" where
  "comp_is_scheduling_source s d \<longleftrightarrow> d = sched_comp (pipe s (c_pipeline (cdev s d)))"

text \<open>
  The move of a component to its shared alias \<open>d'\<close>: the lists keep their items, the buffers of both
  lists get the new address of the component.
\<close>

definition comp_make_shared :: "addr \<Rightarrow> addr \<Rightarrow> 'p fw \<Rightarrow> 'p fw" where
  "comp_make_shared d d' s =
     (let s1 = s\<lparr>comps := (comps s)(d' := (cdev s d)\<lparr>c_is_shared := True\<rparr>)\<rparr>
      in fold (\<lambda>dir. fold (\<lambda>b. upd_buf b (buffer_set_comp d' dir)) (comp_buffer_list (cdev s1 d') dir))
           [PPL_CONN_DIR_COMP_TO_BUFFER, PPL_CONN_DIR_BUFFER_TO_COMP] s1)"

definition pipeline_is_same_sched_comp :: "pipeline \<Rightarrow> pipeline \<Rightarrow> bool" where
  "pipeline_is_same_sched_comp current previous \<longleftrightarrow> sched_comp current = sched_comp previous"

definition pipeline_is_timer_driven :: "pipeline \<Rightarrow> bool" where
  "pipeline_is_timer_driven p \<longleftrightarrow> pp_time_domain p = SOF_TIME_DOMAIN_TIMER"

section \<open>Messages\<close>

definition zero_posn :: stream_posn where
  "zero_posn = \<lparr>posn_cmd = 0, posn_size = 0, posn_comp_id = 0, posn_flags = 0, wallclock_hz = 0, timestamp_ns = 0,
     host_posn = 0, dai_posn = 0, comp_posn = 0, wallclock = 0, timestamp = 0, xrun_comp_id = 0, xrun_size = 0\<rparr>"

definition ipc_build_stream_posn :: "int \<Rightarrow> stream_posn \<Rightarrow> int \<Rightarrow> int \<Rightarrow> stream_posn" where
  "ipc_build_stream_posn szposn posn typ cid =
     posn\<lparr>posn_cmd := (SOF_IPC_GLB_STREAM_MSG OR typ) OR cid, posn_size := szposn, posn_comp_id := cid\<rparr>"

definition fw_rzalloc :: "plat \<Rightarrow> mem_zone \<Rightarrow> int \<Rightarrow> 'p fw \<Rightarrow> (addr \<times> 'p fw) option" where
  "fw_rzalloc plat zone n s =
     do { (p, mm, m) \<leftarrow> rzalloc plat (bs_mm (fw_buf s)) (bs_mem (fw_buf s)) zone SOF_MEM_CAPS_RAM n;
          Some (p, s\<lparr>fw_buf := (fw_buf s)\<lparr>bs_mm := mm, bs_mem := m\<rparr>\<rparr>) }"

definition fw_rfree :: "plat \<Rightarrow> addr \<Rightarrow> 'p fw \<Rightarrow> 'p fw option" where
  "fw_rfree plat p s = do { mm \<leftarrow> rfree plat (bs_mm (fw_buf s)) p; Some (set_mm mm s) }"

definition ipc_msg_init :: "'p fw_env \<Rightarrow> int \<Rightarrow> int \<Rightarrow> 'p fw \<Rightarrow> (addr \<times> 'p fw) option" where
  "ipc_msg_init env header sz s =
     do { (msg, s1) \<leftarrow> fw_rzalloc (env_plat env) SOF_MEM_ZONE_RUNTIME_SHARED (sizeof_msg env) s;
          if msg = 0 then Some (0, s1)
          else do {
            (d, s2) \<leftarrow> fw_rzalloc (env_plat env) SOF_MEM_ZONE_RUNTIME_SHARED sz s1;
            if d = 0 then do { s3 \<leftarrow> fw_rfree (env_plat env) msg s2; Some (0, s3) }
            else Some (msg, s2\<lparr>msgs := (msgs s2)(msg := \<lparr>msg_header = header, tx_size = sz, tx_data = d\<rparr>)\<rparr>) } }"

definition ipc_msg_free :: "'p fw_env \<Rightarrow> addr \<Rightarrow> 'p fw \<Rightarrow> 'p fw option" where
  "ipc_msg_free env msg s =
     (if msg = 0 then Some s
      else do { s1 \<leftarrow> fw_rfree (env_plat env) (tx_data (msgs s msg)) s; fw_rfree (env_plat env) msg s1 })"

section \<open>Graph construction\<close>

text \<open>The position table: the index of the first free slot, which becomes used.\<close>

fun first_free_slot :: "bool list \<Rightarrow> nat option" where
  "first_free_slot [] = None"
| "first_free_slot (used # xs) = (if \<not> used then Some 0 else map_option Suc (first_free_slot xs))"

definition pipeline_posn_offset_get :: "int \<Rightarrow> bool list \<Rightarrow> int \<times> int option \<times> bool list" where
  "pipeline_posn_offset_get szposn tab =
     (case first_free_slot tab of
        None \<Rightarrow> (- EINVAL, None, tab)
      | Some i \<Rightarrow> (0, Some (u32 (int i * szposn)), tab[i := True]))"

definition pipeline_posn_offset_put :: "int \<Rightarrow> int \<Rightarrow> bool list \<Rightarrow> bool list" where
  "pipeline_posn_offset_put szposn off tab = tab[nat (off div szposn) := False]"

definition zero_pipeline :: pipeline where
  "zero_pipeline = \<lparr>pp_comp_id = 0, pp_pipeline_id = 0, pp_sched_id = 0, pp_core = 0, pp_period = 0, pp_priority = 0,
     pp_period_mips = 0, pp_frames_per_sched = 0, pp_xrun_limit_usecs = 0, pp_time_domain = 0, xrun_bytes = 0,
     pp_status = 0, pipe_task = 0, sched_next = 0, sched_prev = 0, sched_comp = 0, source_comp = 0, sink_comp = 0,
     posn_offset = 0, pp_msg = 0, trig_cmd = 0, trig_host = 0, trig_delay = 0, trig_aborted = False\<rparr>"

definition pipeline_new :: "'p fw_env \<Rightarrow> int \<Rightarrow> int \<Rightarrow> int \<Rightarrow> 'p fw \<Rightarrow> (addr \<times> 'p fw) option" where
  "pipeline_new env ppl_id priority comp_id s =
     do { let s0 = set_mm (heap_trace_all 0 (bs_mm (fw_buf s))) s;
          (p, s1) \<leftarrow> fw_rzalloc (env_plat env) SOF_MEM_ZONE_RUNTIME (sizeof_pipeline env) s0;
          if p = 0 then Some (0, s1)
          else
            let s2 = s1\<lparr>pipes := (pipes s1)(p := zero_pipeline\<lparr>pp_comp_id := comp_id, pp_priority := priority,
                        pp_pipeline_id := ppl_id, pp_status := COMP_STATE_INIT, trig_cmd := COMP_TRIGGER_NO_ACTION\<rparr>)\<rparr>
            in case pipeline_posn_offset_get (sizeof_posn env) (posn_table s2) of
                 (_, None, _) \<Rightarrow> do { s3 \<leftarrow> fw_rfree (env_plat env) p s2; Some (0, s3) }
               | (_, Some off, tab) \<Rightarrow>
                   (let s3 = upd_pipe p (\<lambda>q. q\<lparr>posn_offset := off\<rparr>) (s2\<lparr>posn_table := tab\<rparr>);
                        posn = ipc_build_stream_posn (sizeof_posn env) zero_posn SOF_IPC_STREAM_TRIG_XRUN comp_id
                    in do { (msg, s4) \<leftarrow> ipc_msg_init env (posn_cmd posn) (sizeof_posn env) s3;
                            let s5 = upd_pipe p (\<lambda>q. q\<lparr>pp_msg := msg\<rparr>) s4;
                            if msg = 0 then do { s6 \<leftarrow> fw_rfree (env_plat env) p s5; Some (0, s6) }
                            else Some (p, s5) }) }"

definition pipeline_connect :: "addr \<Rightarrow> addr \<Rightarrow> int \<Rightarrow> 'p fw \<Rightarrow> int \<times> 'p fw" where
  "pipeline_connect d b dir s =
     (0, upd_buf b (buffer_set_comp d dir)
           (upd_comp d (\<lambda>c. if dir = PPL_DIR_DOWNSTREAM then c\<lparr>bsink_list := b # bsink_list c\<rparr>
                            else c\<lparr>bsource_list := b # bsource_list c\<rparr>) s))"

definition pipeline_disconnect :: "addr \<Rightarrow> addr \<Rightarrow> int \<Rightarrow> 'p fw \<Rightarrow> 'p fw" where
  "pipeline_disconnect d b dir s =
     upd_comp d (\<lambda>c. if dir = PPL_DIR_DOWNSTREAM then c\<lparr>bsink_list := remove1 b (bsink_list c)\<rparr>
                     else c\<lparr>bsource_list := remove1 b (bsource_list c)\<rparr>) s"

definition pipeline_free :: "'p fw_env \<Rightarrow> addr \<Rightarrow> 'p fw \<Rightarrow> (int \<times> 'p fw) option" where
  "pipeline_free env p s =
     do { s1 \<leftarrow> (if pipe_task (pipe s p) \<noteq> 0
                 then fw_rfree (env_plat env) (pipe_task (pipe s p))
                        (schedule_task_free (env_sched env) (pipe_task (pipe s p)) s)
                 else Some s);
          s2 \<leftarrow> ipc_msg_free env (pp_msg (pipe s1 p)) s1;
          let s3 = s2\<lparr>posn_table := pipeline_posn_offset_put (sizeof_posn env) (posn_offset (pipe s2 p)) (posn_table s2)\<rparr>;
          s4 \<leftarrow> fw_rfree (env_plat env) p s3;
          Some (0, set_mm (heap_trace_all 0 (bs_mm (fw_buf s4))) s4) }"

section \<open>Position slots\<close>

lemma first_free_slot_Some:
  "first_free_slot tab = Some i \<longleftrightarrow> i < length tab \<and> \<not> tab ! i \<and> (\<forall>j < i. tab ! j)"
proof (induction tab arbitrary: i)
  case (Cons u tab)
  show ?case
  proof (cases u)
    case False
    then show ?thesis by (cases i) auto
  next
    case True
    then show ?thesis using Cons by (cases i) (auto simp: less_Suc_eq_0_disj)
  qed
qed simp

lemma first_free_slot_None: "first_free_slot tab = None \<longleftrightarrow> (\<forall>i < length tab. tab ! i)"
  by (induction tab) (auto simp: less_Suc_eq_0_disj)

section \<open>Links between components and buffers\<close>

text \<open>
  Every buffer in a list of a live component names that component at the same end, and no list
  holds a buffer twice.
\<close>

definition links_ok :: "addr set \<Rightarrow> 'p fw \<Rightarrow> bool" where
  "links_ok C s \<longleftrightarrow> (\<forall>d \<in> C. distinct (bsink_list (cdev s d)) \<and> distinct (bsource_list (cdev s d)) \<and>
     (\<forall>b \<in> set (bsink_list (cdev s d)). b_source (buf s b) = d) \<and>
     (\<forall>b \<in> set (bsource_list (cdev s d)). b_sink (buf s b) = d))"

lemma upd_sel [simp]:
  "comps (upd_buf b f s) = comps s" "comps (upd_pipe p g s) = comps s" "comps (emit e s) = comps s"
  "bs_bufs (fw_buf (upd_comp d h s)) = bs_bufs (fw_buf s)" "bs_bufs (fw_buf (upd_pipe p g s)) = bs_bufs (fw_buf s)"
  "bs_bufs (fw_buf (emit e s)) = bs_bufs (fw_buf s)"
  "pipes (upd_buf b f s) = pipes s" "pipes (upd_comp d h s) = pipes s" "pipes (emit e s) = pipes s"
  "comps (upd_comp d h s) = (comps s)(d := h (comps s d))"
  "pipes (upd_pipe p g s) = (pipes s)(p := g (pipes s p))"
  "bs_bufs (fw_buf (upd_buf b f s)) = (bs_bufs (fw_buf s))(b := f (bs_bufs (fw_buf s) b))"
  by (simp_all add: fw_upd_defs)

lemma fold_upd_buf:
  "comps (fold (\<lambda>b. upd_buf b f) bs s) = comps s"
  "distinct bs \<Longrightarrow> bs_bufs (fw_buf (fold (\<lambda>b. upd_buf b f) bs s)) x =
     (if x \<in> set bs then f (bs_bufs (fw_buf s) x) else bs_bufs (fw_buf s) x)"
  by (induction bs arbitrary: s) auto

lemma connect_links:
  assumes "links_ok C s" "d \<in> C" "dir = 0 \<or> dir = 1"
    "\<forall>c \<in> C. b \<notin> set (comp_buffer_list (cdev s c) dir)"
  shows "links_ok C (snd (pipeline_connect d b dir s))"
  using assms
  by (auto simp: links_ok_def pipeline_connect_def buffer_set_comp_def comp_buffer_list_def ppl_dirs split: if_splits)

lemma disconnect_links:
  assumes "links_ok C s"
  shows "links_ok C (pipeline_disconnect d b dir s)"
  using assms by (auto simp: links_ok_def pipeline_disconnect_def dest: in_set_remove1)

lemma make_shared_lists:
  assumes "links_ok C s" "d \<in> C"
  shows "comps (comp_make_shared d d' s) = (comps s)(d' := (cdev s d)\<lparr>c_is_shared := True\<rparr>)"
    and "b_source (buf (comp_make_shared d d' s) x) =
      (if x \<in> set (bsink_list (cdev s d)) then d' else b_source (buf s x))"
    and "b_sink (buf (comp_make_shared d d' s) x) =
      (if x \<in> set (bsource_list (cdev s d)) then d' else b_sink (buf s x))"
proof -
  have "distinct (bsink_list (cdev s d))" "distinct (bsource_list (cdev s d))"
    using assms by (auto simp: links_ok_def)
  then show "comps (comp_make_shared d d' s) = (comps s)(d' := (cdev s d)\<lparr>c_is_shared := True\<rparr>)"
    "b_source (buf (comp_make_shared d d' s) x) = (if x \<in> set (bsink_list (cdev s d)) then d' else b_source (buf s x))"
    "b_sink (buf (comp_make_shared d d' s) x) = (if x \<in> set (bsource_list (cdev s d)) then d' else b_sink (buf s x))"
    by (simp_all add: comp_make_shared_def Let_def fold_upd_buf comp_buffer_list_def buffer_set_comp_def ppl_dirs)
qed

lemma make_shared_links:
  assumes "links_ok C s" "d \<in> C" "d' \<notin> C"
  shows "links_ok (insert d' (C - {d})) (comp_make_shared d d' s)"
  using assms make_shared_lists [OF assms(1,2), of d'] unfolding links_ok_def by (auto; metis)

section \<open>Properties\<close>

text \<open>
  C35: the position slots of the mailbox. A slot that is handed out was free and is marked used,
  its offset leads back to it when it is returned, and the request fails only when all slots are
  in use.
\<close>

theorem posn_offset_roundtrip:
  assumes "0 < szposn" "int (length tab) * szposn < 4294967296"
  shows "(case pipeline_posn_offset_get szposn tab of
      (ret, None, tab') \<Rightarrow> ret = - EINVAL \<and> tab' = tab \<and> (\<forall>i < length tab. tab ! i)
    | (ret, Some off, tab') \<Rightarrow> ret = 0 \<and> (\<exists>i < length tab. \<not> tab ! i \<and> off = int i * szposn \<and> tab' = tab[i := True]) \<and>
        pipeline_posn_offset_put szposn off tab' = tab)"
proof (cases "first_free_slot tab")
  case None
  then show ?thesis using first_free_slot_None [of tab] by (simp add: pipeline_posn_offset_get_def)
next
  case (Some i)
  then have i: "i < length tab" "\<not> tab ! i" by (auto simp: first_free_slot_Some)
  have "int i * szposn \<le> int (length tab) * szposn" using i(1) assms(1) by (intro mult_right_mono) auto
  then have "int i * szposn < 4294967296" using assms(2) by linarith
  then have u: "u32 (int i * szposn) = int i * szposn" using assms(1) by (intro u32_id) auto
  have "nat ((int i * szposn) div szposn) = i" using assms(1) by simp
  moreover have "tab[i := False] = tab" using i by (metis list_update_id)
  ultimately show ?thesis using Some i u by (auto simp: pipeline_posn_offset_get_def pipeline_posn_offset_put_def)
qed

theorem posn_offset_roundtrip_witness:
  "pipeline_posn_offset_put 88 88 (snd (snd (pipeline_posn_offset_get 88 [True, False, False]))) = [True, False, False]"
  using posn_offset_roundtrip [of 88 "[True, False, False]"] by (simp add: pipeline_posn_offset_get_def u32_def)


definition demo_fw :: "unit fw" where
  "demo_fw = \<lparr>fw_buf = demo_state, comps = (\<lambda>_. zero_comp), pipes = (\<lambda>_. zero_pipeline),
     msgs = (\<lambda>_. \<lparr>msg_header = 0, tx_size = 0, tx_data = 0\<rparr>), ptasks = (\<lambda>_. \<lparr>registrable = False, pt_sched_comp = 0\<rparr>), posn_table = [False, False], events = [], priv = ()\<rparr>"


end
