(* ===== verification/Sof_Copy.thy ===== *)
theory Sof_Copy
  imports Sof_Stream
begin

text \<open>
  Copying between streams (\<open>src/audio/component.c\<close>, the three \<open>audio_stream_copy\<close> routines): the
  \<open>while (bytes)\<close> loops copy the largest chunk that wraps neither side. The loops are
  \<open>partial_function\<close>s, so that a loop that makes no progress is \<open>None\<close>; the theorems show that
  they return and that the result is one circular copy.
\<close>

section \<open>Definitions\<close>

partial_function (option) copy_loop ::
    "audio_stream \<Rightarrow> audio_stream \<Rightarrow> mem \<Rightarrow> addr \<Rightarrow> addr \<Rightarrow> int \<Rightarrow> mem option" where
  "copy_loop source sink m src snk bytes =
     (if bytes = 0 then Some m
      else do { bytes_src \<leftarrow> audio_stream_bytes_without_wrap source src;
                bytes_snk \<leftarrow> audio_stream_bytes_without_wrap sink snk;
                let bytes_copied = min bytes (min (u32 bytes_src) (u32 bytes_snk));
                let m' = mem_copy m snk src bytes_copied;
                src' \<leftarrow> audio_stream_wrap source (src + bytes_copied);
                snk' \<leftarrow> audio_stream_wrap sink (snk + bytes_copied);
                copy_loop source sink m' src' snk' (u32 (bytes - bytes_copied)) })"

definition audio_stream_copy ::
    "audio_stream \<Rightarrow> int \<Rightarrow> audio_stream \<Rightarrow> int \<Rightarrow> int \<Rightarrow> mem \<Rightarrow> (int \<times> mem) option" where
  "audio_stream_copy source ioffset sink ooffset samples m =
     do { let ssize = audio_stream_sample_bytes source;
          src \<leftarrow> audio_stream_wrap source (r_ptr source + u32 (ioffset * ssize));
          snk \<leftarrow> audio_stream_wrap sink (w_ptr sink + u32 (ooffset * ssize));
          m' \<leftarrow> copy_loop source sink m src snk (u32 (samples * ssize));
          Some (s32 samples, m') }"

partial_function (option) copy_from_linear_loop ::
    "audio_stream \<Rightarrow> mem \<Rightarrow> addr \<Rightarrow> addr \<Rightarrow> int \<Rightarrow> mem option" where
  "copy_from_linear_loop sink m src snk bytes =
     (if bytes = 0 then Some m
      else do { bytes_snk \<leftarrow> audio_stream_bytes_without_wrap sink snk;
                let bytes_copied = min bytes (u32 bytes_snk);
                let m' = mem_copy m snk src bytes_copied;
                snk' \<leftarrow> audio_stream_wrap sink (snk + bytes_copied);
                copy_from_linear_loop sink m' (src + bytes_copied) snk' (u32 (bytes - bytes_copied)) })"

definition audio_stream_copy_from_linear ::
    "addr \<Rightarrow> int \<Rightarrow> audio_stream \<Rightarrow> int \<Rightarrow> int \<Rightarrow> mem \<Rightarrow> mem option" where
  "audio_stream_copy_from_linear linear_source ioffset sink ooffset samples m =
     do { let ssize = audio_stream_sample_bytes sink;
          snk \<leftarrow> audio_stream_wrap sink (w_ptr sink + s32 (ooffset * ssize));
          copy_from_linear_loop sink m (linear_source + s32 (ioffset * ssize)) snk (u32 (samples * ssize)) }"

partial_function (option) copy_to_linear_loop ::
    "audio_stream \<Rightarrow> mem \<Rightarrow> addr \<Rightarrow> addr \<Rightarrow> int \<Rightarrow> mem option" where
  "copy_to_linear_loop source m src snk bytes =
     (if bytes = 0 then Some m
      else do { bytes_src \<leftarrow> audio_stream_bytes_without_wrap source src;
                let bytes_copied = min bytes (u32 bytes_src);
                let m' = mem_copy m snk src bytes_copied;
                src' \<leftarrow> audio_stream_wrap source (src + bytes_copied);
                copy_to_linear_loop source m' src' (snk + bytes_copied) (u32 (bytes - bytes_copied)) })"

definition audio_stream_copy_to_linear ::
    "audio_stream \<Rightarrow> int \<Rightarrow> addr \<Rightarrow> int \<Rightarrow> int \<Rightarrow> mem \<Rightarrow> mem option" where
  "audio_stream_copy_to_linear source ioffset linear_sink ooffset samples m =
     do { let ssize = audio_stream_sample_bytes source;
          src \<leftarrow> audio_stream_wrap source (r_ptr source + s32 (ioffset * ssize));
          copy_to_linear_loop source m src (linear_sink + s32 (ooffset * ssize)) (u32 (samples * ssize)) }"

section \<open>Reference: one circular copy\<close>

text \<open>How far an address of the ring lies behind a pointer of it.\<close>

definition ring_off :: "audio_stream \<Rightarrow> addr \<Rightarrow> addr \<Rightarrow> int" where
  "ring_off b p a = (if p \<le> a then a - p else a - p + st_size b)"

definition ring_copy ::
    "audio_stream \<Rightarrow> audio_stream \<Rightarrow> mem \<Rightarrow> addr \<Rightarrow> addr \<Rightarrow> int \<Rightarrow> mem" where
  "ring_copy source sink m src snk n =
     (\<lambda>a. if st_addr sink \<le> a \<and> a < end_addr sink \<and> ring_off sink snk a < n
          then m (ring_addr source (src + ring_off sink snk a)) else m a)"

definition in_ring :: "audio_stream \<Rightarrow> addr \<Rightarrow> bool" where
  "in_ring b a \<longleftrightarrow> st_addr b \<le> a \<and> a < end_addr b"

definition disjoint_rings :: "audio_stream \<Rightarrow> audio_stream \<Rightarrow> bool" where
  "disjoint_rings s t \<longleftrightarrow> end_addr s \<le> st_addr t \<or> end_addr t \<le> st_addr s"

lemma bytes_without_wrap_ring:
  "stream_wf b \<Longrightarrow> in_ring b p \<Longrightarrow>
   audio_stream_bytes_without_wrap b p = Some (end_addr b - p)"
  by (simp add: audio_stream_bytes_without_wrap_def stream_wf_def in_ring_def s32_id)

lemma wrap_chunk:
  "stream_wf b \<Longrightarrow> in_ring b p \<Longrightarrow> 0 \<le> c \<Longrightarrow> c \<le> end_addr b - p \<Longrightarrow>
   audio_stream_wrap b (p + c) = Some (ring_addr b (p + c)) \<and> in_ring b (ring_addr b (p + c))"
  by (auto simp: audio_stream_wrap_def stream_wf_defs in_ring_def Let_def)

text \<open>Offsets in the ring before and after the pointer moves by one chunk.\<close>

lemma ring_off_bounds:
  "stream_wf b \<Longrightarrow> in_ring b p \<Longrightarrow> in_ring b a \<Longrightarrow> 0 \<le> ring_off b p a \<and> ring_off b p a < st_size b"
  by (auto simp: ring_off_def in_ring_def stream_wf_def)

lemma ring_off_advance:
  "stream_wf b \<Longrightarrow> in_ring b p \<Longrightarrow> in_ring b a \<Longrightarrow> 0 < c \<Longrightarrow> c \<le> end_addr b - p \<Longrightarrow>
   ring_off b (ring_addr b (p + c)) a =
     (if c \<le> ring_off b p a then ring_off b p a - c else ring_off b p a - c + st_size b)"
  unfolding ring_off_def ring_addr_def in_ring_def stream_wf_def by (simp split: if_split)

lemma ring_addr_advance:
  "stream_wf b \<Longrightarrow> in_ring b p \<Longrightarrow> 0 < c \<Longrightarrow> c \<le> end_addr b - p \<Longrightarrow> c \<le> k \<Longrightarrow> k < st_size b \<Longrightarrow>
   ring_addr b (ring_addr b (p + c) + (k - c)) = ring_addr b (p + k)"
  unfolding ring_addr_def in_ring_def stream_wf_def by (simp split: if_split)

lemma ring_addr_in_ring:
  "stream_wf b \<Longrightarrow> in_ring b p \<Longrightarrow> 0 \<le> k \<Longrightarrow> k < st_size b \<Longrightarrow> in_ring b (ring_addr b (p + k))"
  unfolding ring_addr_def in_ring_def stream_wf_def by (simp split: if_split)

lemma ring_addr_no_wrap: "k < end_addr b - p \<Longrightarrow> ring_addr b (p + k) = p + k"
  by (simp add: ring_addr_def)

lemma mem_copy_ring:
  "stream_wf b \<Longrightarrow> in_ring b p \<Longrightarrow> in_ring b a \<Longrightarrow> 0 < c \<Longrightarrow> c \<le> end_addr b - p \<Longrightarrow>
   mem_copy m p src c a = (if ring_off b p a < c then m (src + ring_off b p a) else m a)"
  unfolding mem_copy_def ring_off_def in_ring_def stream_wf_def by (simp split: if_split)

lemma mem_copy_outside_ring:
  "in_ring b p \<Longrightarrow> c \<le> end_addr b - p \<Longrightarrow> a < st_addr b \<or> end_addr b \<le> a \<Longrightarrow>
   mem_copy m p src c a = m a"
  by (rule mem_copy_out) (auto simp: in_ring_def)

lemma ring_copy_alt:
  "ring_copy source sink m src snk n =
     (\<lambda>a. if in_ring sink a \<and> ring_off sink snk a < n
          then m (ring_addr source (src + ring_off sink snk a)) else m a)"
  by (simp add: ring_copy_def in_ring_def)

text \<open>One chunk of the loop, then the rest, is the whole circular copy.\<close>

lemma ring_copy_chunk:
  assumes wf: "stream_wf source" "stream_wf sink" "disjoint_rings source sink"
    and pos: "in_ring source src" "in_ring sink snk"
    and c: "0 < c" "c \<le> end_addr source - src" "c \<le> end_addr sink - snk" "c \<le> n"
    and n: "n \<le> st_size source" "n \<le> st_size sink"
  shows "ring_copy source sink (mem_copy m snk src c)
           (ring_addr source (src + c)) (ring_addr sink (snk + c)) (n - c)
         = ring_copy source sink m src snk n" (is "?l = ?r")
proof
  fix a
  let ?o = "ring_off sink snk a"
  show "?l a = ?r a"
  proof (cases "in_ring sink a")
    case False
    then show ?thesis
      using mem_copy_outside_ring [OF pos(2) c(3)] by (auto simp: ring_copy_alt in_ring_def)
  next
    case True
    note o = ring_off_bounds [OF wf(2) pos(2) True]
    note adv = ring_off_advance [OF wf(2) pos(2) True c(1,3)]
    note cp = mem_copy_ring [OF wf(2) pos(2) True c(1,3)]
    consider "?o < c" | "c \<le> ?o" "?o < n" | "n \<le> ?o" by linarith
    then show ?thesis
    proof cases
      case 1
      then show ?thesis using True o n c by (simp add: ring_copy_alt adv cp ring_addr_no_wrap)
    next
      case 2
      have "in_ring source (ring_addr source (src + ?o))"
        using 2 o n by (intro ring_addr_in_ring [OF wf(1) pos(1)]) auto
      then have "mem_copy m snk src c (ring_addr source (src + ?o)) = m (ring_addr source (src + ?o))"
        using wf(3) by (intro mem_copy_outside_ring [OF pos(2) c(3)]) (auto simp: in_ring_def disjoint_rings_def)
      then show ?thesis
        using True 2 n ring_addr_advance [OF wf(1) pos(1) c(1,2) 2(1)]
        by (simp add: ring_copy_alt adv)
    next
      case 3
      then show ?thesis using True c by (simp add: ring_copy_alt adv cp)
    qed
  qed
qed

lemma ring_copy_none: "in_ring sink snk \<Longrightarrow> stream_wf sink \<Longrightarrow> ring_copy source sink m src snk 0 = m"
  by (rule ext) (auto simp: ring_copy_def ring_off_def in_ring_def stream_wf_def)

section \<open>The loops return and perform the circular copy\<close>

lemma copy_loop_ring:
  assumes "stream_wf source" "stream_wf sink" "disjoint_rings source sink"
    and "in_ring source src" "in_ring sink snk"
    and "0 \<le> n" "n \<le> st_size source" "n \<le> st_size sink"
  shows "copy_loop source sink m src snk n = Some (ring_copy source sink m src snk n)"
  using assms(4-)
proof (induction "nat n" arbitrary: n m src snk rule: less_induct)
  case less
  show ?case
  proof (cases "n = 0")
    case True
    then show ?thesis
      using less.prems assms by (simp add: copy_loop.simps ring_copy_none)
  next
    case False
    define c where "c = min n (min (end_addr source - src) (end_addr sink - snk))"
    have c: "0 < c" "c \<le> end_addr source - src" "c \<le> end_addr sink - snk" "c \<le> n"
      using False less.prems by (auto simp: c_def in_ring_def)
    have u: "u32 (end_addr source - src) = end_addr source - src"
        "u32 (end_addr sink - snk) = end_addr sink - snk" "u32 (n - c) = n - c"
      using less.prems c assms(1,2) by (auto simp: in_ring_def stream_wf_def u32_id)
    note w1 = wrap_chunk [OF assms(1) less.prems(1) less_imp_le [OF c(1)] c(2)]
    note w2 = wrap_chunk [OF assms(2) less.prems(2) less_imp_le [OF c(1)] c(3)]
    have "copy_loop source sink m src snk n =
        copy_loop source sink (mem_copy m snk src c)
          (ring_addr source (src + c)) (ring_addr sink (snk + c)) (n - c)"
      using False w1 w2 assms(1,2) less.prems
      by (subst copy_loop.simps) (simp add: bytes_without_wrap_ring u c_def [symmetric])
    also have "\<dots> = Some (ring_copy source sink (mem_copy m snk src c)
          (ring_addr source (src + c)) (ring_addr sink (snk + c)) (n - c))"
      using w1 w2 c less.prems False by (intro less.hyps) auto
    also have "\<dots> = Some (ring_copy source sink m src snk n)"
      using ring_copy_chunk [OF assms(1-3) less.prems(1,2) c less.prems(4,5)] by simp
    finally show ?thesis .
  qed
qed

text \<open>The linear ends are rings that never wrap, so their loops need the sink or source only.\<close>

definition linear_copy_in :: "audio_stream \<Rightarrow> mem \<Rightarrow> addr \<Rightarrow> addr \<Rightarrow> int \<Rightarrow> mem" where
  "linear_copy_in sink m src snk n =
     (\<lambda>a. if st_addr sink \<le> a \<and> a < end_addr sink \<and> ring_off sink snk a < n
          then m (src + ring_off sink snk a) else m a)"

definition linear_copy_out :: "audio_stream \<Rightarrow> mem \<Rightarrow> addr \<Rightarrow> addr \<Rightarrow> int \<Rightarrow> mem" where
  "linear_copy_out source m src snk n =
     (\<lambda>a. if snk \<le> a \<and> a < snk + n then m (ring_addr source (src + (a - snk))) else m a)"

lemma linear_copy_in_chunk:
  assumes "stream_wf sink" "in_ring sink snk"
    and "src + n \<le> st_addr sink \<or> end_addr sink \<le> src"
    and "0 < c" "c \<le> end_addr sink - snk" "c \<le> n" "n \<le> st_size sink"
  shows "linear_copy_in sink (mem_copy m snk src c) (src + c) (ring_addr sink (snk + c)) (n - c)
         = linear_copy_in sink m src snk n"
proof
  fix a
  show "linear_copy_in sink (mem_copy m snk src c) (src + c) (ring_addr sink (snk + c)) (n - c) a
        = linear_copy_in sink m src snk n a"
  proof (cases "in_ring sink a")
    case False
    then show ?thesis
      using mem_copy_outside_ring [OF assms(2,5)] by (auto simp: linear_copy_in_def in_ring_def)
  next
    case True
    note o = ring_off_bounds [OF assms(1,2) True]
    note adv = ring_off_advance [OF assms(1,2) True assms(4,5)]
    note cp = mem_copy_ring [OF assms(1,2) True assms(4,5)]
    let ?o = "ring_off sink snk a"
    have far: "mem_copy m snk src c (src + ?o) = m (src + ?o)" if "?o < n"
      using that o assms(3) by (intro mem_copy_outside_ring [OF assms(2,5)]) auto
    consider "?o < c" | "c \<le> ?o" "?o < n" | "n \<le> ?o" by linarith
    then show ?thesis
      using True o assms(4-7) far unfolding in_ring_def
      by cases (simp_all add: linear_copy_in_def adv cp)
  qed
qed

lemma linear_copy_out_chunk:
  assumes "stream_wf source" "in_ring source src"
    and "snk + n \<le> st_addr source \<or> end_addr source \<le> snk"
    and "0 < c" "c \<le> end_addr source - src" "c \<le> n" "n \<le> st_size source"
  shows "linear_copy_out source (mem_copy m snk src c) (ring_addr source (src + c)) (snk + c) (n - c)
         = linear_copy_out source m src snk n"
proof
  fix a
  show "linear_copy_out source (mem_copy m snk src c) (ring_addr source (src + c)) (snk + c) (n - c) a
        = linear_copy_out source m src snk n a"
    using assms by (auto simp: linear_copy_out_def in_ring_def mem_copy_def stream_wf_defs
        algebra_simps split: if_splits)
qed

lemma copy_from_linear_loop_ring:
  assumes "stream_wf sink" and "in_ring sink snk"
    and "src + n \<le> st_addr sink \<or> end_addr sink \<le> src"
    and "0 \<le> n" "n \<le> st_size sink"
  shows "copy_from_linear_loop sink m src snk n = Some (linear_copy_in sink m src snk n)"
  using assms(2-)
proof (induction "nat n" arbitrary: n m src snk rule: less_induct)
  case less
  show ?case
  proof (cases "n = 0")
    case True
    have "linear_copy_in sink m src snk 0 = m"
      using less.prems assms(1)
      by (intro ext) (auto simp: linear_copy_in_def ring_off_def in_ring_def stream_wf_def)
    with True show ?thesis by (simp add: copy_from_linear_loop.simps)
  next
    case False
    define c where "c = min n (end_addr sink - snk)"
    have c: "0 < c" "c \<le> end_addr sink - snk" "c \<le> n"
      using False less.prems by (auto simp: c_def in_ring_def)
    have u: "u32 (end_addr sink - snk) = end_addr sink - snk" "u32 (n - c) = n - c"
      using less.prems c assms(1) by (auto simp: in_ring_def stream_wf_def u32_id)
    note w = wrap_chunk [OF assms(1) less.prems(1) less_imp_le [OF c(1)] c(2)]
    have "copy_from_linear_loop sink m src snk n =
        copy_from_linear_loop sink (mem_copy m snk src c) (src + c) (ring_addr sink (snk + c)) (n - c)"
      using False w assms(1) less.prems
      by (subst copy_from_linear_loop.simps) (simp add: bytes_without_wrap_ring u c_def [symmetric])
    also have "\<dots> = Some (linear_copy_in sink (mem_copy m snk src c) (src + c) (ring_addr sink (snk + c)) (n - c))"
      using w c less.prems False by (intro less.hyps) auto
    also have "\<dots> = Some (linear_copy_in sink m src snk n)"
      using linear_copy_in_chunk [OF assms(1) less.prems(1,2) c less.prems(4)] by simp
    finally show ?thesis .
  qed
qed

lemma copy_to_linear_loop_ring:
  assumes "stream_wf source" and "in_ring source src"
    and "snk + n \<le> st_addr source \<or> end_addr source \<le> snk"
    and "0 \<le> n" "n \<le> st_size source"
  shows "copy_to_linear_loop source m src snk n = Some (linear_copy_out source m src snk n)"
  using assms(2-)
proof (induction "nat n" arbitrary: n m src snk rule: less_induct)
  case less
  show ?case
  proof (cases "n = 0")
    case True
    have "linear_copy_out source m src snk 0 = m"
      by (intro ext) (simp add: linear_copy_out_def)
    with True show ?thesis by (simp add: copy_to_linear_loop.simps)
  next
    case False
    define c where "c = min n (end_addr source - src)"
    have c: "0 < c" "c \<le> end_addr source - src" "c \<le> n"
      using False less.prems by (auto simp: c_def in_ring_def)
    have u: "u32 (end_addr source - src) = end_addr source - src" "u32 (n - c) = n - c"
      using less.prems c assms(1) by (auto simp: in_ring_def stream_wf_def u32_id)
    note w = wrap_chunk [OF assms(1) less.prems(1) less_imp_le [OF c(1)] c(2)]
    have "copy_to_linear_loop source m src snk n =
        copy_to_linear_loop source (mem_copy m snk src c) (ring_addr source (src + c)) (snk + c) (n - c)"
      using False w assms(1) less.prems
      by (subst copy_to_linear_loop.simps) (simp add: bytes_without_wrap_ring u c_def [symmetric])
    also have "\<dots> = Some (linear_copy_out source (mem_copy m snk src c) (ring_addr source (src + c)) (snk + c) (n - c))"
      using w c less.prems False by (intro less.hyps) auto
    also have "\<dots> = Some (linear_copy_out source m src snk n)"
      using linear_copy_out_chunk [OF assms(1) less.prems(1,2) c less.prems(4)] by simp
    finally show ?thesis .
  qed
qed

section \<open>Streams as queues of bytes\<close>

text \<open>The bytes a reader of the stream sees, oldest first.\<close>

definition stream_data :: "mem \<Rightarrow> audio_stream \<Rightarrow> int list" where
  "stream_data m b = map (\<lambda>i. m (ring_addr b (r_ptr b + int i))) [0..<nat (st_avail b)]"

lemma length_stream_data [simp]: "length (stream_data m b) = nat (st_avail b)"
  by (simp add: stream_data_def)

lemma nth_stream_data:
  "i < nat (st_avail b) \<Longrightarrow> stream_data m b ! i = m (ring_addr b (r_ptr b + int i))"
  by (simp add: stream_data_def)

text \<open>Offsets of queued bytes and of newly written bytes, seen from the write pointer.\<close>

lemma queued_off:
  assumes "stream_wf b" "0 \<le> i" "i < st_avail b"
  shows "ring_off b (w_ptr b) (ring_addr b (r_ptr b + i)) = st_free b + i"
  using assms unfolding stream_wf_def ring_off_def ring_addr_def by (simp split: if_splits)

lemma ring_off_ring_addr:
  "stream_wf b \<Longrightarrow> in_ring b p \<Longrightarrow> 0 \<le> i \<Longrightarrow> i < st_size b \<Longrightarrow> ring_off b p (ring_addr b (p + i)) = i"
  unfolding stream_wf_def ring_off_def ring_addr_def in_ring_def by (simp split: if_splits)

lemma appended_addr:
  "stream_wf b \<Longrightarrow> 0 \<le> j \<Longrightarrow> j < st_free b \<Longrightarrow>
   ring_addr b (r_ptr b + (st_avail b + j)) = ring_addr b (w_ptr b + j)"
  unfolding stream_wf_def ring_addr_def by (simp split: if_splits)

lemma wf_ptrs_in_ring: "stream_wf b \<Longrightarrow> in_ring b (r_ptr b) \<and> in_ring b (w_ptr b)"
  by (simp add: stream_wf_def in_ring_def)

text \<open>Committing a write appends the bytes at the write pointer; committing a read drops the
  oldest bytes.\<close>

lemma stream_data_produce:
  assumes wf: "stream_wf b" and k: "0 < k" "k \<le> st_free b"
    and b': "audio_stream_produce b k = Some b'"
  shows "stream_data m b' =
    stream_data m b @ map (\<lambda>j. m (ring_addr b (w_ptr b + int j))) [0..<nat k]"
proof (rule nth_equalityI)
  have eq: "r_ptr b' = r_ptr b" "st_avail b' = st_avail b + k" "\<And>p. ring_addr b' p = ring_addr b p"
    using produce_fits [OF wf k] b' by (auto simp: ring_addr_def)
  have av: "0 \<le> st_avail b" using wf by (simp add: stream_wf_def)
  show "length (stream_data m b') = length (stream_data m b @ map (\<lambda>j. m (ring_addr b (w_ptr b + int j))) [0..<nat k])"
    using k av by (simp add: eq nat_add_distrib)
  fix i assume "i < length (stream_data m b')"
  then have i: "i < nat (st_avail b + k)" by (simp add: eq)
  show "stream_data m b' ! i = (stream_data m b @ map (\<lambda>j. m (ring_addr b (w_ptr b + int j))) [0..<nat k]) ! i"
  proof (cases "i < nat (st_avail b)")
    case True
    then show ?thesis using i by (simp add: nth_append nth_stream_data eq)
  next
    case False
    then obtain j where j: "i = nat (st_avail b) + j" "j < nat k"
      using i av k by (metis add_diff_inverse_nat nat_add_distrib add_less_cancel_left less_imp_le)
    then have "ring_addr b (r_ptr b + int i) = ring_addr b (w_ptr b + int j)"
      using appended_addr [OF wf, of "int j"] k av by simp
    then show ?thesis using i j by (simp add: nth_append nth_stream_data eq)
  qed
qed

lemma stream_data_consume:
  assumes wf: "stream_wf b" and k: "0 < k" "k \<le> st_avail b"
    and b': "audio_stream_consume b k = Some b'"
  shows "stream_data m b' = drop (nat k) (stream_data m b)"
proof (rule nth_equalityI)
  have eq: "r_ptr b' = ring_addr b (r_ptr b + k)" "st_avail b' = st_avail b - k" "\<And>p. ring_addr b' p = ring_addr b p"
    using consume_fits [OF wf k] b' by (auto simp: ring_addr_def)
  show "length (stream_data m b') = length (drop (nat k) (stream_data m b))"
    using k by (simp add: eq nat_diff_distrib)
  fix i assume "i < length (stream_data m b')"
  then have i: "i < nat (st_avail b - k)" by (simp add: eq)
  then have "int i < st_avail b - k" by linarith
  then have "ring_addr b (ring_addr b (r_ptr b + k) + int i) = ring_addr b (r_ptr b + (k + int i))"
    using wf k unfolding stream_wf_def ring_addr_def by (simp split: if_splits)
  then show "stream_data m b' ! i = drop (nat k) (stream_data m b) ! i"
    using i k by (simp add: nth_stream_data eq)
qed

text \<open>A copy into the free space of the sink leaves the queued bytes of both streams alone.\<close>

lemma ring_copy_sink_data:
  assumes wf: "stream_wf sink" and k: "k \<le> st_free sink"
  shows "stream_data (ring_copy source sink m src (w_ptr sink) k) sink = stream_data m sink"
proof (rule nth_equalityI)
  fix i assume "i < length (stream_data (ring_copy source sink m src (w_ptr sink) k) sink)"
  then have i: "i < nat (st_avail sink)" by simp
  then show "stream_data (ring_copy source sink m src (w_ptr sink) k) sink ! i = stream_data m sink ! i"
    using queued_off [OF wf, of "int i"] k by (simp add: nth_stream_data ring_copy_alt)
qed simp

lemma ring_copy_source_data:
  assumes wf: "stream_wf source" and "disjoint_rings source sink"
  shows "stream_data (ring_copy source sink m src snk k) source = stream_data m source"
proof (rule nth_equalityI)
  fix i assume "i < length (stream_data (ring_copy source sink m src snk k) source)"
  then have i: "i < nat (st_avail source)" by simp
  then have "in_ring source (ring_addr source (r_ptr source + int i))"
    using wf by (intro ring_addr_in_ring) (auto simp: stream_wf_def in_ring_def)
  then show "stream_data (ring_copy source sink m src snk k) source ! i = stream_data m source ! i"
    using i assms(2) by (auto simp: nth_stream_data ring_copy_alt in_ring_def disjoint_rings_def)
qed simp

lemma ring_copy_new_data:
  assumes "stream_wf source" "stream_wf sink" "k \<le> st_avail source" "k \<le> st_free sink"
  shows "map (\<lambda>j. ring_copy source sink m (r_ptr source) (w_ptr sink) k (ring_addr sink (w_ptr sink + int j))) [0..<nat k]
         = take (nat k) (stream_data m source)"
proof (rule nth_equalityI)
  show "length (map (\<lambda>j. ring_copy source sink m (r_ptr source) (w_ptr sink) k
          (ring_addr sink (w_ptr sink + int j))) [0..<nat k]) = length (take (nat k) (stream_data m source))"
    using assms(3) by simp
  fix i assume "i < length (map (\<lambda>j. ring_copy source sink m (r_ptr source) (w_ptr sink) k
      (ring_addr sink (w_ptr sink + int j))) [0..<nat k])"
  then have i: "i < nat k" by simp
  have i2: "i < nat (st_avail source)" "int i < k" using i assms(3) by linarith+
  have sz: "int i < st_size sink" using i assms(2,4) by (auto simp: stream_wf_def)
  have "in_ring sink (ring_addr sink (w_ptr sink + int i))"
    using ring_addr_in_ring [OF assms(2) _ _ sz] wf_ptrs_in_ring [OF assms(2)] by simp
  moreover have "ring_off sink (w_ptr sink) (ring_addr sink (w_ptr sink + int i)) = int i"
    using ring_off_ring_addr [OF assms(2) _ _ sz] wf_ptrs_in_ring [OF assms(2)] by simp
  ultimately show "map (\<lambda>j. ring_copy source sink m (r_ptr source) (w_ptr sink) k
      (ring_addr sink (w_ptr sink + int j))) [0..<nat k] ! i = take (nat k) (stream_data m source) ! i"
    using i i2 by (simp add: ring_copy_alt nth_stream_data)
qed

section \<open>Properties\<close>

lemma copy_transfer:
  assumes wf: "stream_wf source" "stream_wf sink" "disjoint_rings source sink"
    and n: "0 < n" "n < 536870912"
    and k: "k = n * audio_stream_sample_bytes source" "k \<le> st_avail source" "k \<le> st_free sink"
  shows "audio_stream_copy source 0 sink 0 n m =
    Some (n, ring_copy source sink m (r_ptr source) (w_ptr sink) k)"
proof -
  have ss: "2 \<le> audio_stream_sample_bytes source" "audio_stream_sample_bytes source \<le> 4"
    using get_sample_bytes_bounds by (simp_all add: audio_stream_sample_bytes_def)
  have kb: "0 < k" "k \<le> 4 * n"
    using n ss mult_left_mono [of "audio_stream_sample_bytes source" 4 n] by (simp_all add: k(1))
  then have u: "u32 k = k" "s32 n = n" using n by (simp_all add: u32_id s32_id)
  note ptr = wf_ptrs_in_ring [OF wf(1)] wf_ptrs_in_ring [OF wf(2)]
  have self: "audio_stream_wrap b (p + u32 0) = Some p" if "in_ring b p" for b p
    using that by (simp add: audio_stream_wrap_def in_ring_def u32_def Let_def)
  have "copy_loop source sink m (r_ptr source) (w_ptr sink) k =
      Some (ring_copy source sink m (r_ptr source) (w_ptr sink) k)"
    using wf ptr kb k by (intro copy_loop_ring) (auto simp: stream_wf_def)
  then show ?thesis
    using ptr u by (simp add: audio_stream_copy_def self k(1) [symmetric])
qed

text \<open>
  C6: moving samples through a component. Copying \<open>n\<close> samples from the read pointer of one
  stream to the write pointer of another, then committing the read and the write, is a queue
  transfer: the copy returns, the sink's queue gains exactly the first bytes of the source's
  queue in order, the source's queue loses them, and both streams stay well formed, wherever
  the two rings wrap.
\<close>

theorem copy_is_queue_transfer:
  assumes "stream_wf source" "stream_wf sink" "disjoint_rings source sink"
    and "0 < n" "n < 536870912"
    and "k = n * audio_stream_sample_bytes source" "k \<le> st_avail source" "k \<le> st_free sink"
  shows "\<exists>m' source' sink'.
    audio_stream_copy source 0 sink 0 n m = Some (n, m') \<and>
    audio_stream_consume source k = Some source' \<and> audio_stream_produce sink k = Some sink' \<and>
    stream_wf source' \<and> stream_wf sink' \<and>
    stream_data m' sink' = stream_data m sink @ take (nat k) (stream_data m source) \<and>
    stream_data m' source' = drop (nat k) (stream_data m source)"
proof -
  have k: "0 < k"
    using assms(4,6) get_sample_bytes_bounds(1) [of "frame_fmt source"]
    by (simp add: audio_stream_sample_bytes_def)
  let ?m = "ring_copy source sink m (r_ptr source) (w_ptr sink) k"
  note cp = copy_transfer [OF assms]
  note c = consume_fits [OF assms(1) k assms(7)] and p = produce_fits [OF assms(2) k assms(8)]
  note wfs = consume_shape_wf [OF assms(1) k assms(7)] produce_shape_wf [OF assms(2) k assms(8)]
  note dc = stream_data_consume [OF assms(1) k assms(7) c, of ?m]
  note dp = stream_data_produce [OF assms(2) k assms(8) p, of ?m]
  show ?thesis
    using cp c p wfs dc dp ring_copy_source_data [OF assms(1,3)] ring_copy_sink_data [OF assms(2,8)]
      ring_copy_new_data [OF assms(1,2,7,8)]
    by auto
qed

definition demo_source :: audio_stream where
  "demo_source = \<lparr>st_size = 8, st_avail = 6, st_free = 2, w_ptr = 104, r_ptr = 106, st_addr = 100,
     end_addr = 108, frame_fmt = 0, valid_sample_fmt = 0, st_rate = 48000, st_channels = 2,
     overrun_permitted = False, underrun_permitted = False\<rparr>"

definition demo_sink :: audio_stream where
  "demo_sink = \<lparr>st_size = 12, st_avail = 2, st_free = 10, w_ptr = 211, r_ptr = 209, st_addr = 200,
     end_addr = 212, frame_fmt = 0, valid_sample_fmt = 0, st_rate = 48000, st_channels = 2,
     overrun_permitted = False, underrun_permitted = False\<rparr>"

lemma demo_streams_wf: "stream_wf demo_source" "stream_wf demo_sink" "disjoint_rings demo_source demo_sink"
  by (simp_all add: stream_wf_defs demo_source_def demo_sink_def disjoint_rings_def)

theorem copy_is_queue_transfer_witness:
  "\<exists>m' source' sink'.
    audio_stream_copy demo_source 0 demo_sink 0 2 (\<lambda>a. a mod 256) = Some (2, m') \<and>
    audio_stream_consume demo_source 4 = Some source' \<and> audio_stream_produce demo_sink 4 = Some sink' \<and>
    stream_wf source' \<and> stream_wf sink' \<and>
    stream_data m' sink' = [209, 210, 106, 107, 100, 101] \<and> stream_data m' source' = [102, 103]"
proof -
  have k: "(4::int) = 2 * audio_stream_sample_bytes demo_source" "4 \<le> st_avail demo_source" "4 \<le> st_free demo_sink"
    by (simp_all add: audio_stream_sample_bytes_def get_sample_bytes_def demo_source_def demo_sink_def
        SOF_IPC_FRAME_S16_LE_def)
  have d: "stream_data (\<lambda>a. a mod 256) demo_sink = [209, 210]"
      "stream_data (\<lambda>a. a mod 256) demo_source = [106, 107, 100, 101, 102, 103]"
    by (simp_all add: stream_data_def demo_sink_def demo_source_def ring_addr_def upt_rec)
  show ?thesis
    using copy_is_queue_transfer [OF demo_streams_wf, of 2 4 "\<lambda>a. a mod 256"] k
    unfolding d by simp
qed

end
