(* ===== verification/Sof_Sample.thy ===== *)
theory Sof_Sample
  imports Sof_Copy Sof_String
begin

text \<open>
  Samples in byte memory and the processing loop the audio components share. The volume, FIR and IIR
  components walk over the source and the sink in chunks that wrap neither ring and, within a chunk,
  channel by channel over the interleaved frames; they differ in the width of the samples and in what
  they compute from one sample. The locale \<open>channel_op\<close> is the contract of that computation, and its
  theorem says that the loop returns and runs the computation over every channel independently.
\<close>

section \<open>Samples in memory\<close>

text \<open>The two sizes of a sample in memory: \<open>int16_t\<close> and \<open>int32_t\<close>, least significant byte first.\<close>

datatype width = W16 | W32

fun width_shift :: "width \<Rightarrow> nat" where
  "width_shift W16 = 1"
| "width_shift W32 = 2"

fun wbytes :: "width \<Rightarrow> int" where
  "wbytes W16 = 2"
| "wbytes W32 = 4"

fun trunc :: "width \<Rightarrow> int \<Rightarrow> int" where
  "trunc W16 v = s16 v"
| "trunc W32 v = s32 v"

fun in_width :: "width \<Rightarrow> int \<Rightarrow> bool" where
  "in_width W16 v \<longleftrightarrow> is_s16 v"
| "in_width W32 v \<longleftrightarrow> is_s32 v"

fun load :: "width \<Rightarrow> mem \<Rightarrow> addr \<Rightarrow> int" where
  "load W16 m a = s16 (m a + 256 * m (a + 1))"
| "load W32 m a = s32 (m a + 256 * m (a + 1) + 65536 * m (a + 2) + 16777216 * m (a + 3))"

fun store :: "width \<Rightarrow> mem \<Rightarrow> addr \<Rightarrow> int \<Rightarrow> mem" where
  "store W16 m a v = m(a := v mod 256, a + 1 := (v div 256) mod 256)"
| "store W32 m a v = store32 m a v"

definition cell :: "width \<Rightarrow> addr \<Rightarrow> addr set" where
  "cell w a = {a..<a + wbytes w}"

lemma wbytes_pos [simp]: "0 < wbytes w"
  by (cases w) simp_all

lemma wbytes_nonneg [simp]: "0 \<le> wbytes w"
  by (cases w) simp_all

lemma wbytes_neq_0 [simp]: "wbytes w \<noteq> 0"
  by (cases w) simp_all

lemma wbytes_shift: "drop_bit (width_shift w) (wbytes w * k) = k"
  by (cases w) (simp_all add: drop_bit_eq_div)

lemma load_in_width: "in_width w (load w m a)"
  using s16_range s32_range by (cases w) auto

lemma trunc_in_width: "in_width w v \<Longrightarrow> trunc w v = v"
  by (cases w) (simp_all add: s16_id s32_id)

lemma bytes16: "v mod 256 + 256 * (v div 256 mod 256) = v mod 65536" for v :: int
  using zmod_zmult2_eq [of 256 v 256] by simp

lemma bytes32:
  "v mod 256 + 256 * (v div 256 mod 256) + 65536 * (v div 65536 mod 256) + 16777216 * (v div 16777216 mod 256) =
    v mod 4294967296" for v :: int
proof -
  have "v mod 65536 + 65536 * (v div 65536 mod 65536) = v mod 4294967296"
    using zmod_zmult2_eq [of 65536 v 65536] by simp
  moreover have "v div 65536 mod 256 + 256 * (v div 65536 div 256 mod 256) = v div 65536 mod 65536"
    by (rule bytes16)
  moreover have "v div 65536 div 256 = v div 16777216" by (simp add: zdiv_zmult2_eq [symmetric])
  ultimately show ?thesis using bytes16 [of v] by simp
qed

lemma s16_mod: "s16 (v mod 65536) = s16 v"
  by (simp add: s16_def mod_simps)

lemma s32_mod: "s32 (v mod 4294967296) = s32 v"
  by (simp add: s32_def mod_simps)

lemma load_store: "load w (store w m a v) a = trunc w v"
proof (cases w)
  case W16
  then show ?thesis by (simp add: bytes16 s16_mod)
next
  case W32
  then show ?thesis by (simp add: store32_def bytes32 s32_mod)
qed

lemma store_out: "p \<notin> cell w a \<Longrightarrow> store w m a v p = m p"
  by (cases w) (auto simp: cell_def store32_def)

lemma load_cong: "(\<And>p. p \<in> cell w a \<Longrightarrow> m p = m' p) \<Longrightarrow> load w m a = load w m' a"
  by (cases w) (simp_all add: cell_def)

section \<open>The processing loop\<close>

text \<open>
  What a component computes from one sample: from the state of the channel, the memory and the sample
  it gives the output sample, the new state and the new memory.
\<close>

type_synonym 'c sample_op = "'c \<Rightarrow> mem \<Rightarrow> int \<Rightarrow> (int \<times> 'c \<times> mem) option"

text \<open>\<open>for (i = 0; i < n; i += nch)\<close>: the samples of one channel in the chunk.\<close>

partial_function (option) frames_loop ::
    "'c sample_op \<Rightarrow> width \<Rightarrow> width \<Rightarrow> int \<Rightarrow> int \<Rightarrow> int \<Rightarrow> addr \<Rightarrow> addr \<Rightarrow> 'c \<Rightarrow> mem \<Rightarrow> ('c \<times> mem) option" where
  "frames_loop f sx sy nch n i x0 y0 c m =
     (if i < n
      then do { (z, c', m') \<leftarrow> f c m (load sx m x0);
                frames_loop f sx sy nch n (i + nch) (x0 + wbytes sx * nch) (y0 + wbytes sy * nch) c'
                  (store sy m' y0 z) }
      else Some (c, m))"

text \<open>\<open>for (j = 0; j < nch; j++)\<close>; an index behind the array of channel states is an error.\<close>

fun channels_loop ::
    "'c sample_op \<Rightarrow> width \<Rightarrow> width \<Rightarrow> int \<Rightarrow> int \<Rightarrow> addr \<Rightarrow> addr \<Rightarrow> nat list \<Rightarrow> 'c list \<Rightarrow> mem \<Rightarrow>
      ('c list \<times> mem) option" where
  "channels_loop f sx sy nch n x y [] cs m = Some (cs, m)"
| "channels_loop f sx sy nch n x y (j # js) cs m =
     (if j < length cs
      then do { (c, m') \<leftarrow> frames_loop f sx sy nch n 0 (x + wbytes sx * int j) (y + wbytes sy * int j) (cs ! j) m;
                channels_loop f sx sy nch n x y js (cs[j := c]) m' }
      else None)"

text \<open>\<open>while (remaining_samples)\<close>.\<close>

partial_function (option) samples_loop ::
    "'c sample_op \<Rightarrow> width \<Rightarrow> width \<Rightarrow> int \<Rightarrow> audio_stream \<Rightarrow> audio_stream \<Rightarrow> int \<Rightarrow> addr \<Rightarrow> addr \<Rightarrow>
      'c list \<Rightarrow> mem \<Rightarrow> ('c list \<times> mem) option" where
  "samples_loop f sx sy nch source sink remaining x y cs m =
     (if remaining = 0 then Some (cs, m)
      else do { bx \<leftarrow> audio_stream_bytes_without_wrap source x;
                by \<leftarrow> audio_stream_bytes_without_wrap sink y;
                let n = min (min remaining (drop_bit (width_shift sx) bx)) (drop_bit (width_shift sy) by);
                (cs', m') \<leftarrow> channels_loop f sx sy nch n x y [0..<nat nch] cs m;
                x' \<leftarrow> audio_stream_wrap source (x + wbytes sx * n);
                y' \<leftarrow> audio_stream_wrap sink (y + wbytes sy * n);
                samples_loop f sx sy nch source sink (remaining - n) x' y' cs' m' })"

text \<open>A computation with a conversion of the sample before and after it.\<close>

definition wrap_op :: "(int \<Rightarrow> int) \<Rightarrow> (int \<Rightarrow> int) \<Rightarrow> 'c sample_op \<Rightarrow> 'c sample_op" where
  "wrap_op pre post f c m x = do { (z, c', m') \<leftarrow> f c m (pre x); Some (post z, c', m') }"

definition wrap_spec :: "(int \<Rightarrow> int) \<Rightarrow> (int \<Rightarrow> int) \<Rightarrow> ('a \<Rightarrow> int \<Rightarrow> int \<times> 'a) \<Rightarrow> 'a \<Rightarrow> int \<Rightarrow> int \<times> 'a" where
  "wrap_spec pre post f a x = (post (fst (f a (pre x))), snd (f a (pre x)))"

section \<open>Channels\<close>

fun run :: "('a \<Rightarrow> int \<Rightarrow> int \<times> 'a) \<Rightarrow> 'a \<Rightarrow> int list \<Rightarrow> int list \<times> 'a" where
  "run f a [] = ([], a)"
| "run f a (x # xs) = (fst (f a x) # fst (run f (snd (f a x)) xs), snd (run f (snd (f a x)) xs))"

lemma run_append:
  "run f a (xs @ ys) = (fst (run f a xs) @ fst (run f (snd (run f a xs)) ys), snd (run f (snd (run f a xs)) ys))"
  by (induction xs arbitrary: a) simp_all

lemma length_run [simp]: "length (fst (run f a xs)) = length xs"
  by (induction xs arbitrary: a) simp_all

lemma nth_run: "k < length xs \<Longrightarrow> fst (run f a xs) ! k = fst (f (snd (run f a (take k xs))) (xs ! k))"
proof (induction xs arbitrary: a k)
  case (Cons x xs)
  then show ?case by (cases k) simp_all
qed simp

lemma run_wrap:
  "run (wrap_spec pre post f) a xs = (map post (fst (run f a (map pre xs))), snd (run f a (map pre xs)))"
  by (induction xs arbitrary: a) (simp_all add: wrap_spec_def)

text \<open>The sample of channel \<open>j\<close> in frame \<open>k\<close> behind the pointer \<open>p\<close>: in a chunk and in a ring.\<close>

definition slot :: "width \<Rightarrow> nat \<Rightarrow> addr \<Rightarrow> nat \<Rightarrow> nat \<Rightarrow> addr" where
  "slot w nch p j k = p + wbytes w * int (nch * k + j)"

definition ring_slot :: "audio_stream \<Rightarrow> width \<Rightarrow> nat \<Rightarrow> addr \<Rightarrow> nat \<Rightarrow> nat \<Rightarrow> addr" where
  "ring_slot b w nch p j k = ring_addr b (slot w nch p j k)"

definition channel_in :: "width \<Rightarrow> mem \<Rightarrow> (nat \<Rightarrow> addr) \<Rightarrow> nat \<Rightarrow> int list" where
  "channel_in w m loc f = map (\<lambda>k. load w m (loc k)) [0..<f]"

text \<open>The memory of the channel states is apart from the source, from the sink and from each other.\<close>

definition separate :: "nat \<Rightarrow> addr set list \<Rightarrow> addr set list \<Rightarrow> addr set \<Rightarrow> addr set \<Rightarrow> bool" where
  "separate nch os us S K \<longleftrightarrow> S \<inter> K = {} \<and>
     (\<forall>j < nch. os ! j \<inter> S = {} \<and> us ! j \<inter> K = {} \<and> (\<forall>i < nch. i \<noteq> j \<longrightarrow> os ! j \<inter> us ! i = {}))"

lemma channel_in_cong:
  "(\<And>k p. k < f \<Longrightarrow> p \<in> cell w (loc k) \<Longrightarrow> m p = m' p) \<Longrightarrow> channel_in w m loc f = channel_in w m' loc f"
  by (auto simp: channel_in_def intro: load_cong)

lemma length_channel_in [simp]: "length (channel_in w m loc f) = f"
  by (simp add: channel_in_def)

lemma channel_in_Suc: "channel_in w m loc (Suc f) = load w m (loc 0) # channel_in w m (\<lambda>k. loc (Suc k)) f"
  by (simp add: channel_in_def upt_conv_Cons map_Suc_upt [symmetric] del: upt_Suc)

lemma channel_in_add: "channel_in w m loc (f + g) = channel_in w m loc f @ channel_in w m (\<lambda>k. loc (f + k)) g"
  by (rule nth_equalityI) (auto simp: channel_in_def nth_append)

lemma slot_inj:
  assumes "j < nch" "i < nch" "slot w nch p j k \<noteq> slot w nch p i l"
  shows "cell w (slot w nch p j k) \<inter> cell w (slot w nch p i l) = {}"
proof -
  let ?d = "int (nch * k + j) - int (nch * l + i)"
  have "?d \<noteq> 0" using assms(3) by (auto simp: slot_def)
  then have "?d \<le> - 1 \<or> 1 \<le> ?d" by linarith
  then have "wbytes w * ?d \<le> - wbytes w \<or> wbytes w \<le> wbytes w * ?d"
    using mult_left_mono [of ?d "- 1" "wbytes w"] mult_left_mono [of 1 ?d "wbytes w"] wbytes_pos [of w] by auto
  then show ?thesis by (auto simp: cell_def slot_def right_diff_distrib)
qed

lemma slot_distinct:
  assumes "j < nch" "i < nch" "(j, k) \<noteq> (i, l)"
  shows "cell w (slot w nch p j k) \<inter> cell w (slot w nch p i l) = {}"
proof (rule slot_inj [OF assms(1,2)])
  have "(nch * k + j) div nch = k" "(nch * l + i) div nch = l" "(nch * k + j) mod nch = j" "(nch * l + i) mod nch = i"
    using assms(1,2) by simp_all
  then have "nch * k + j \<noteq> nch * l + i" using assms(3) by metis
  then show "slot w nch p j k \<noteq> slot w nch p i l"
    by (auto simp: slot_def simp del: of_nat_add of_nat_mult)
qed

text \<open>A pointer of the ring on a frame boundary of a buffer of whole frames.\<close>

definition frame_aligned :: "audio_stream \<Rightarrow> width \<Rightarrow> nat \<Rightarrow> addr \<Rightarrow> bool" where
  "frame_aligned b w nch p \<longleftrightarrow> in_ring b p \<and> wbytes w * int nch dvd end_addr b - p \<and> wbytes w * int nch dvd st_size b"

lemma frame_alignedE:
  assumes "frame_aligned b w nch p" "0 < nch" "stream_wf b"
  obtains E T where "end_addr b - p = wbytes w * int (nch * E)" "st_size b = wbytes w * int (nch * T)" "0 < E" "E \<le> T"
proof -
  obtain e t where e: "end_addr b - p = wbytes w * int nch * e" and t: "st_size b = wbytes w * int nch * t"
    using assms(1) unfolding frame_aligned_def by (auto elim!: dvdE)
  have w: "0 < wbytes w * int nch" using assms(2) by simp
  have "0 < wbytes w * int nch * e" using assms(1) e unfolding frame_aligned_def in_ring_def by simp
  then have "0 < e" using w by (simp add: zero_less_mult_iff)
  moreover have "wbytes w * int nch * e \<le> wbytes w * int nch * t"
    using assms(1,3) unfolding e [symmetric] t [symmetric] frame_aligned_def in_ring_def stream_wf_def by linarith
  then have "e \<le> t" using w by (simp add: mult_le_cancel_left)
  ultimately show thesis using that [of "nat e" "nat t"] e t by (simp add: mult.assoc)
qed

lemma ring_slot_eq:
  assumes "end_addr b - p = wbytes w * int (nch * E)" "st_size b = wbytes w * int (nch * T)" "j < nch"
  shows "ring_slot b w nch p j k = p + wbytes w * (int nch * (if k < E then int k else int k - int T) + int j)"
proof -
  have "slot w nch p j k < end_addr b \<longleftrightarrow> wbytes w * int (nch * k + j) < wbytes w * int (nch * E)"
    unfolding slot_def assms(1) [symmetric] by linarith
  also have "\<dots> \<longleftrightarrow> nch * k + j < nch * E" by (simp del: of_nat_add of_nat_mult)
  also have "\<dots> \<longleftrightarrow> k < E"
  proof
    assume "nch * k + j < nch * E"
    then have "nch * k < nch * E" by linarith
    then show "k < E" by simp
  next
    assume "k < E"
    then have "nch * Suc k \<le> nch * E" by (intro mult_le_mono2) simp
    then show "nch * k + j < nch * E" using assms(3) by simp
  qed
  finally show ?thesis
    unfolding ring_slot_def ring_addr_def assms(2) by (auto simp: slot_def algebra_simps)
qed

lemma frame_cells:
  assumes "0 < nch" "j < nch" "i < nch" "(j, c) \<noteq> (i, d)"
  shows "cell w (p + wbytes w * (int nch * c + int j)) \<inter> cell w (p + wbytes w * (int nch * d + int i)) = {}"
proof -
  let ?d = "(int nch * c + int j) - (int nch * d + int i)"
  have "(int nch * c + int j) div int nch = c" "(int nch * d + int i) div int nch = d"
    "(int nch * c + int j) mod int nch = int j" "(int nch * d + int i) mod int nch = int i"
    using assms(1-3) by simp_all
  then have "?d \<noteq> 0" using assms(4) by (metis eq_iff_diff_eq_0 of_nat_eq_iff)
  then have "?d \<le> - 1 \<or> 1 \<le> ?d" by linarith
  then have "wbytes w * ?d \<le> - wbytes w \<or> wbytes w \<le> wbytes w * ?d"
    using mult_left_mono [of ?d "- 1" "wbytes w"] mult_left_mono [of 1 ?d "wbytes w"] by auto
  then show ?thesis by (auto simp: cell_def right_diff_distrib)
qed

lemma ring_slot_distinct:
  assumes "frame_aligned b w nch p" "stream_wf b" "wbytes w * int (nch * F) \<le> st_size b" "j < nch" "i < nch"
    "k < F" "l < F" "(j, k) \<noteq> (i, l)"
  shows "cell w (ring_slot b w nch p j k) \<inter> cell w (ring_slot b w nch p i l) = {}"
proof -
  have n: "0 < nch" using assms(4) by simp
  obtain E T where e: "end_addr b - p = wbytes w * int (nch * E)" "st_size b = wbytes w * int (nch * T)" "0 < E" "E \<le> T"
    by (rule frame_alignedE [OF assms(1) n assms(2)])
  have "F \<le> T" using assms(3) n unfolding e(2) by (simp add: mult_le_cancel_left del: of_nat_mult)
  then show ?thesis unfolding ring_slot_eq [OF e(1,2) assms(4)] ring_slot_eq [OF e(1,2) assms(5)]
    using assms(6-8) e(4) by (intro frame_cells [OF n assms(4,5)]) (auto split: if_splits)
qed

lemma ring_slot_in_ring:
  assumes "frame_aligned b w nch p" "stream_wf b" "wbytes w * int (nch * F) \<le> st_size b" "j < nch" "k < F"
  shows "cell w (ring_slot b w nch p j k) \<subseteq> {a. in_ring b a}"
proof -
  have n: "0 < nch" using assms(4) by simp
  obtain E T where e: "end_addr b - p = wbytes w * int (nch * E)" "st_size b = wbytes w * int (nch * T)" "0 < E" "E \<le> T"
    by (rule frame_alignedE [OF assms(1) n assms(2)])
  have "F \<le> T" using assms(3) n unfolding e(2) by (simp add: mult_le_cancel_left del: of_nat_mult)
  define c where "c = (if k < E then int k else int k - int T)"
  have c: "int E - int T \<le> c" "c + 1 \<le> int E" using assms(5) e(3,4) \<open>F \<le> T\<close> by (auto simp: c_def)
  have "int nch * (int E - int T) \<le> int nch * c" "int nch * (c + 1) \<le> int nch * int E"
    using c by (auto intro: mult_left_mono)
  then have "int nch * (int E - int T) \<le> int nch * c + int j" "int nch * c + int j + 1 \<le> int nch * int E"
    using assms(4) by (auto simp: algebra_simps)
  then have "wbytes w * (int nch * (int E - int T)) \<le> wbytes w * (int nch * c + int j)"
    "wbytes w * (int nch * c + int j + 1) \<le> wbytes w * (int nch * int E)"
    by (auto intro: mult_left_mono)
  moreover have "end_addr b = st_addr b + st_size b" using assms(2) by (simp add: stream_wf_def)
  ultimately show ?thesis unfolding ring_slot_eq [OF e(1,2) assms(4)] c_def [symmetric]
    using e(1,2) by (auto simp: cell_def in_ring_def algebra_simps)
qed

lemma chunk_slot:
  assumes "end_addr b - p = wbytes w * int (nch * E)" "st_size b = wbytes w * int (nch * T)" "j < nch" "l < E"
  shows "ring_slot b w nch p j l = slot w nch p j l"
  using ring_slot_eq [OF assms(1-3), of l] assms(4) by (simp add: slot_def)

lemma slot_offset: "j < nch \<Longrightarrow> k < F \<Longrightarrow> wbytes w * int (nch * k + j) < wbytes w * int (nch * F)"
proof -
  assume "j < nch" "k < F"
  then have "nch * Suc k \<le> nch * F" by (intro mult_le_mono2) simp
  with \<open>j < nch\<close> have "nch * k + j < nch * F" by simp
  then show ?thesis by (simp del: of_nat_add of_nat_mult)
qed

lemma chunk_advance:
  assumes al: "frame_aligned b w nch p" and wf: "stream_wf b" and k: "0 < k" "wbytes w * int (nch * k) \<le> end_addr b - p" "0 < nch"
  defines "p' \<equiv> ring_addr b (p + wbytes w * int (nch * k))"
  shows "audio_stream_wrap b (p + wbytes w * int (nch * k)) = Some p'" "frame_aligned b w nch p'"
    and "j < nch \<Longrightarrow> k + l < F \<Longrightarrow> wbytes w * int (nch * F) \<le> st_size b \<Longrightarrow>
      ring_slot b w nch p' j l = ring_slot b w nch p j (k + l)"
proof -
  have r: "in_ring b p" using al by (simp add: frame_aligned_def)
  have c: "0 < wbytes w * int (nch * k)" using k by simp
  have w: "audio_stream_wrap b (p + wbytes w * int (nch * k)) = Some p' \<and> in_ring b p'"
    unfolding p'_def using wrap_chunk [OF wf r _ k(2)] c by simp
  then show "audio_stream_wrap b (p + wbytes w * int (nch * k)) = Some p'" ..
  have "wbytes w * int nch dvd wbytes w * int (nch * k)" by simp
  then have d: "wbytes w * int nch dvd end_addr b - p - wbytes w * int (nch * k)"
    using al dvd_diff [of "wbytes w * int nch" "end_addr b - p" "wbytes w * int (nch * k)"] by (simp add: frame_aligned_def)
  have "end_addr b - p' = end_addr b - p - wbytes w * int (nch * k) \<or> end_addr b - p' = st_size b"
    unfolding p'_def ring_addr_def using k(2) by auto
  then have "wbytes w * int nch dvd end_addr b - p'" using d al unfolding frame_aligned_def by metis
  with w al show "frame_aligned b w nch p'" by (simp add: frame_aligned_def)
  assume j: "j < nch" and l: "k + l < F" and F: "wbytes w * int (nch * F) \<le> st_size b"
  let ?o = "wbytes w * int (nch * (k + l) + j)"
  have "?o < st_size b" using slot_offset [OF j l, of w] F by linarith
  moreover have "wbytes w * int (nch * k) \<le> ?o" by (intro mult_left_mono) (simp_all add: algebra_simps)
  ultimately have "ring_addr b (p' + (?o - wbytes w * int (nch * k))) = ring_addr b (p + ?o)"
    unfolding p'_def using wf r c k(2) by (intro ring_addr_advance) auto
  then show "ring_slot b w nch p' j l = ring_slot b w nch p j (k + l)"
    by (simp add: ring_slot_def slot_def algebra_simps)
qed

section \<open>The contract of a channel computation\<close>

text \<open>
  The computation \<open>f\<close> implements the abstract filter \<open>spec\<close>: related states give the same output and
  related states again; the computation writes only to the memory \<open>own\<close> of its state and the relation
  depends only on the memory \<open>uses\<close>.
\<close>

locale channel_op =
  fixes f :: "'c sample_op" and sx :: width and spec :: "'a \<Rightarrow> int \<Rightarrow> int \<times> 'a"
    and rel :: "'c \<Rightarrow> mem \<Rightarrow> 'a \<Rightarrow> bool" and own :: "'c \<Rightarrow> addr set" and uses :: "'c \<Rightarrow> addr set"
  assumes own_uses: "own c \<subseteq> uses c"
    and framed: "rel c m a \<Longrightarrow> (\<And>p. p \<in> uses c \<Longrightarrow> m' p = m p) \<Longrightarrow> rel c m' a"
    and steps: "rel c m a \<Longrightarrow> in_width sx x \<Longrightarrow>
      \<exists>c' m'. f c m x = Some (fst (spec a x), c', m') \<and> rel c' m' (snd (spec a x)) \<and>
        own c' = own c \<and> uses c' = uses c \<and> (\<forall>p. p \<notin> own c \<longrightarrow> m' p = m p)"
begin

lemma wrapped:
  assumes "\<And>x. in_width w x \<Longrightarrow> in_width sx (pre x)"
  shows "channel_op (wrap_op pre post f) w (wrap_spec pre post spec) rel own uses"
proof (unfold_locales, goal_cases)
  case (3 c m a x)
  then show ?case using steps [OF 3(1) assms [OF 3(2)]] by (auto simp: wrap_op_def wrap_spec_def)
qed (fact own_uses, fact framed)

lemma frames_ok:
  assumes "0 < nch" "n = i + int k * int nch" "rel c m a" "S \<inter> K = {}" "own c \<inter> S = {}" "uses c \<inter> K = {}"
    "\<forall>l < k. cell sx (x0 + wbytes sx * int (nch * l)) \<subseteq> S" "\<forall>l < k. cell sy (y0 + wbytes sy * int (nch * l)) \<subseteq> K"
    "xs = channel_in sx m (\<lambda>l. x0 + wbytes sx * int (nch * l)) k"
  shows "\<exists>c' m'. frames_loop f sx sy (int nch) n i x0 y0 c m = Some (c', m') \<and> rel c' m' (snd (run spec a xs)) \<and>
    own c' = own c \<and> uses c' = uses c \<and>
    (\<forall>l < k. load sy m' (y0 + wbytes sy * int (nch * l)) = trunc sy (fst (run spec a xs) ! l)) \<and>
    (\<forall>p. p \<notin> own c \<longrightarrow> (\<forall>l < k. p \<notin> cell sy (y0 + wbytes sy * int (nch * l))) \<longrightarrow> m' p = m p)"
  using assms
proof (induction k arbitrary: i x0 y0 c m a xs)
  case 0
  then show ?case by (subst frames_loop.simps) (simp add: channel_in_def)
next
  case (Suc k)
  let ?x = "load sx m x0"
  let ?x1 = "x0 + wbytes sx * int nch" and ?y1 = "y0 + wbytes sy * int nch"
  obtain c1 m1 where st: "f c m ?x = Some (fst (spec a ?x), c1, m1)" "rel c1 m1 (snd (spec a ?x))"
      "own c1 = own c" "uses c1 = uses c" "\<And>p. p \<notin> own c \<Longrightarrow> m1 p = m p"
    using steps [OF Suc.prems(3) load_in_width [of sx m x0]] by blast
  define m2 where "m2 = store sy m1 y0 (fst (spec a ?x))"
  have y0: "cell sy y0 \<subseteq> K" using Suc.prems(8) [rule_format, of 0] by simp
  have m2: "m2 p = m1 p" if "p \<notin> K" for p unfolding m2_def using that y0 by (intro store_out) auto
  have r2: "rel c1 m2 (snd (spec a ?x))"
    using m2 st(4) Suc.prems(6) by (intro framed [OF st(2)]) auto
  have sh: "x0 + wbytes sx * int (nch * Suc l) = ?x1 + wbytes sx * int (nch * l)"
    "y0 + wbytes sy * int (nch * Suc l) = ?y1 + wbytes sy * int (nch * l)" for l by (simp_all add: algebra_simps)
  have X: "\<forall>l < k. cell sx (?x1 + wbytes sx * int (nch * l)) \<subseteq> S"
    using Suc.prems(7) by (metis sh(1) Suc_mono)
  have Y: "\<forall>l < k. cell sy (?y1 + wbytes sy * int (nch * l)) \<subseteq> K"
    using Suc.prems(8) by (metis sh(2) Suc_mono)
  have Sm: "m2 p = m p" if "p \<in> S" for p using that m2 st(5) Suc.prems(4,5) by (metis disjoint_iff)
  have xs: "xs = ?x # channel_in sx m2 (\<lambda>l. ?x1 + wbytes sx * int (nch * l)) k"
    unfolding Suc.prems(9) channel_in_Suc sh
    using X Sm by (auto simp del: of_nat_mult intro!: channel_in_cong) (metis subsetD)+
  let ?xs = "channel_in sx m2 (\<lambda>l. ?x1 + wbytes sx * int (nch * l)) k"
  obtain c' m' where ih: "frames_loop f sx sy (int nch) n (i + int nch) ?x1 ?y1 c1 m2 = Some (c', m')"
      "rel c' m' (snd (run spec (snd (spec a ?x)) ?xs))" "own c' = own c1" "uses c' = uses c1"
      "\<And>l. l < k \<Longrightarrow> load sy m' (?y1 + wbytes sy * int (nch * l)) = trunc sy (fst (run spec (snd (spec a ?x)) ?xs) ! l)"
      "\<And>p. p \<notin> own c1 \<Longrightarrow> (\<And>l. l < k \<Longrightarrow> p \<notin> cell sy (?y1 + wbytes sy * int (nch * l))) \<Longrightarrow> m' p = m2 p"
    using Suc.IH [of "i + int nch" c1 m2 "snd (spec a ?x)" ?x1 ?y1 ?xs] Suc.prems(1,2,4-6) st(3,4) r2 X Y
    by (auto simp: algebra_simps)
  have go: "frames_loop f sx sy (int nch) n i x0 y0 c m = Some (c', m')"
  proof -
    have "0 < int (Suc k) * int nch" using Suc.prems(1) by simp
    then have "i < n" using Suc.prems(2) by linarith
    then show ?thesis using st(1) ih(1) by (subst frames_loop.simps) (simp add: m2_def mult.commute)
  qed
  have first: "load sy m' y0 = trunc sy (fst (spec a ?x))"
  proof -
    have "m' p = m2 p" if "p \<in> cell sy y0" for p
    proof (rule ih(6))
      show "p \<notin> own c1" using that y0 own_uses [of c] Suc.prems(6) st(3) by blast
      fix l
      have "wbytes sy * 1 \<le> wbytes sy * int nch" using Suc.prems(1) by (intro mult_left_mono) auto
      moreover have "0 \<le> wbytes sy * int (nch * l)" by simp
      ultimately show "p \<notin> cell sy (?y1 + wbytes sy * int (nch * l))"
        using that unfolding cell_def atLeastLessThan_iff by linarith
    qed
    then have "load sy m' y0 = load sy m2 y0" by (rule load_cong)
    then show ?thesis unfolding m2_def by (simp add: load_store)
  qed
  have "load sy m' (y0 + wbytes sy * int (nch * l)) = trunc sy (fst (run spec a xs) ! l)" if "l < Suc k" for l
    using that first ih(5) by (cases l) (simp_all add: xs sh del: of_nat_mult mult_Suc_right)
  moreover have "m' p = m p" if "p \<notin> own c" "\<And>l. l < Suc k \<Longrightarrow> p \<notin> cell sy (y0 + wbytes sy * int (nch * l))" for p
  proof -
    have "m' p = m2 p" using ih(6) [of p] that(1) st(3) that(2) [of "Suc _"] by (auto simp: sh simp del: of_nat_mult mult_Suc_right)
    also have "\<dots> = m1 p" unfolding m2_def using that(2) [of 0] by (intro store_out) simp
    finally show ?thesis using st(5) [OF that(1)] by simp
  qed
  ultimately show ?case using go ih(2-4) st(3,4) by (auto simp: xs)
qed

text \<open>What processing \<open>k\<close> frames of the channels \<open>js\<close> at the places \<open>loc\<close> of the sink does.\<close>

definition channel_result ::
    "width \<Rightarrow> nat set \<Rightarrow> (nat \<Rightarrow> 'a) \<Rightarrow> (nat \<Rightarrow> int list) \<Rightarrow> nat \<Rightarrow> (nat \<Rightarrow> nat \<Rightarrow> addr) \<Rightarrow> 'c list \<Rightarrow> mem \<Rightarrow> 'c list \<Rightarrow> mem \<Rightarrow> bool" where
  "channel_result sy J as xs k loc cs m cs' m' \<longleftrightarrow>
     map own cs' = map own cs \<and> map uses cs' = map uses cs \<and> (\<forall>j. j \<notin> J \<longrightarrow> cs' ! j = cs ! j) \<and>
     (\<forall>j \<in> J. rel (cs' ! j) m' (snd (run spec (as j) (xs j))) \<and>
        (\<forall>l < k. load sy m' (loc j l) = trunc sy (fst (run spec (as j) (xs j)) ! l))) \<and>
     (\<forall>p. (\<forall>j \<in> J. p \<notin> own (cs ! j) \<and> (\<forall>l < k. p \<notin> cell sy (loc j l))) \<longrightarrow> m' p = m p)"

lemma channel_result_own:
  assumes "channel_result sy J as xs k loc cs m cs' m'" "i < length cs"
  shows "own (cs' ! i) = own (cs ! i)" "uses (cs' ! i) = uses (cs ! i)" "length cs' = length cs"
proof -
  have eq: "map own cs' = map own cs" "map uses cs' = map uses cs" using assms(1) by (auto simp: channel_result_def)
  show l: "length cs' = length cs" using eq(1) by (metis length_map)
  show "own (cs' ! i) = own (cs ! i)" "uses (cs' ! i) = uses (cs ! i)"
    using eq l assms(2) by (metis nth_map)+
qed

lemma channel_result_append:
  assumes r1: "channel_result sy J as xs k loc cs m cs1 m1"
    and r2: "channel_result sy J (\<lambda>j. snd (run spec (as j) (xs j))) ys g (\<lambda>j l. loc j (k + l)) cs1 m1 cs2 m2"
    and J: "\<forall>j \<in> J. j < length cs" "\<forall>j \<in> J. length (xs j) = k"
    and apart: "\<forall>j \<in> J. \<forall>l < k. \<forall>i \<in> J. cell sy (loc j l) \<inter> own (cs ! i) = {} \<and>
      (\<forall>l' < g. cell sy (loc j l) \<inter> cell sy (loc i (k + l')) = {})"
  shows "channel_result sy J as (\<lambda>j. xs j @ ys j) (k + g) loc cs m cs2 m2"
proof -
  have keep: "m2 p = m1 p" if "\<And>i. i \<in> J \<Longrightarrow> p \<notin> own (cs ! i) \<and> (\<forall>l < g. p \<notin> cell sy (loc i (k + l)))" for p
  proof -
    have "\<forall>j \<in> J. p \<notin> own (cs1 ! j) \<and> (\<forall>l < g. p \<notin> cell sy (loc j (k + l)))"
      using that J(1) channel_result_own(1) [OF r1] by simp
    then show ?thesis using r2 unfolding channel_result_def by blast
  qed
  have "load sy m2 (loc j l) = trunc sy (fst (run spec (as j) (xs j @ ys j)) ! l)" if j: "j \<in> J" and l: "l < k + g" for j l
  proof (cases "l < k")
    case True
    have "m2 p = m1 p" if "p \<in> cell sy (loc j l)" for p using apart j True that by (intro keep) blast
    then have "load sy m2 (loc j l) = load sy m1 (loc j l)" by (rule load_cong)
    then show ?thesis using r1 j True J(2) by (auto simp: channel_result_def run_append nth_append)
  next
    case False
    then have "l = k + (l - k)" "l - k < g" using l by auto
    then have "load sy m2 (loc j l) = trunc sy (fst (run spec (snd (run spec (as j) (xs j))) (ys j)) ! (l - k))"
      using r2 j unfolding channel_result_def by metis
    then show ?thesis using False J(2) j by (simp add: run_append nth_append)
  qed
  moreover have "m2 p = m p" if "\<forall>j \<in> J. p \<notin> own (cs ! j) \<and> (\<forall>l < k + g. p \<notin> cell sy (loc j l))" for p
  proof -
    have "m2 p = m1 p" using that by (intro keep) simp
    also have "\<dots> = m p" using r1 that by (simp add: channel_result_def)
    finally show ?thesis .
  qed
  ultimately show ?thesis using r1 r2 by (simp add: channel_result_def run_append)
qed

text \<open>One channel and then the others.\<close>

lemma channel_result_insert:
  assumes r: "channel_result sy J as xs k loc (cs[j := c]) m1 cs' m'" and j: "j \<notin> J" "j < length cs"
    and fr: "rel c m1 (snd (run spec (as j) (xs j)))" "own c = own (cs ! j)" "uses c = uses (cs ! j)"
      "\<And>l. l < k \<Longrightarrow> load sy m1 (loc j l) = trunc sy (fst (run spec (as j) (xs j)) ! l)"
      "\<And>p. p \<notin> own (cs ! j) \<Longrightarrow> (\<And>l. l < k \<Longrightarrow> p \<notin> cell sy (loc j l)) \<Longrightarrow> m1 p = m p"
    and apart: "\<And>i. i \<in> J \<Longrightarrow> uses (cs ! j) \<inter> own (cs ! i) = {}"
      "\<And>i l. i \<in> J \<Longrightarrow> l < k \<Longrightarrow> uses (cs ! j) \<inter> cell sy (loc i l) = {}"
      "\<And>i l. i \<in> J \<Longrightarrow> l < k \<Longrightarrow> cell sy (loc j l) \<inter> own (cs ! i) = {}"
      "\<And>i l l'. i \<in> J \<Longrightarrow> l < k \<Longrightarrow> l' < k \<Longrightarrow> cell sy (loc j l) \<inter> cell sy (loc i l') = {}"
  shows "channel_result sy (insert j J) as xs k loc cs m cs' m'"
proof -
  have maps: "map own (cs[j := c]) = map own cs" "map uses (cs[j := c]) = map uses cs"
    using fr(2,3) j(2) by (auto simp: map_update intro!: list_update_same_conv [THEN iffD2])
  have keep: "m' p = m1 p" if "\<And>i. i \<in> J \<Longrightarrow> p \<notin> own (cs ! i) \<and> (\<forall>l < k. p \<notin> cell sy (loc i l))" for p
  proof -
    have "\<forall>i \<in> J. p \<notin> own (cs[j := c] ! i) \<and> (\<forall>l < k. p \<notin> cell sy (loc i l))"
      using that j(1) by (metis nth_list_update_neq)
    then show ?thesis using r unfolding channel_result_def by blast
  qed
  have cs': "cs' ! i = cs[j := c] ! i" if "i \<notin> J" for i using r that unfolding channel_result_def by blast
  have "m' p = m1 p" if "p \<in> uses c" for p
    using that apart(1,2) fr(3) by (intro keep) blast
  then have "rel (cs' ! j) m' (snd (run spec (as j) (xs j)))"
    using framed [OF fr(1)] cs' [OF j(1)] j(2) by simp
  moreover have "load sy m' (loc j l) = trunc sy (fst (run spec (as j) (xs j)) ! l)" if l: "l < k" for l
  proof -
    have "m' p = m1 p" if "p \<in> cell sy (loc j l)" for p
      using that apart(3,4) l by (intro keep) blast
    then show ?thesis using load_cong [of sy "loc j l" m' m1] fr(4) [OF l] by simp
  qed
  moreover have "m' p = m p" if "\<forall>i \<in> insert j J. p \<notin> own (cs ! i) \<and> (\<forall>l < k. p \<notin> cell sy (loc i l))" for p
    using that keep [of p] fr(5) [of p] by simp
  ultimately show ?thesis
    using r cs' maps unfolding channel_result_def by simp
qed

lemma channels_ok:
  assumes "0 < nch" "distinct js" "set js \<subseteq> {..<nch}" "nch \<le> length cs" "separate nch (map own cs) (map uses cs) S K"
    "\<forall>j \<in> set js. rel (cs ! j) m (as j)"
    "\<forall>j < nch. \<forall>l < k. cell sx (slot sx nch x j l) \<subseteq> S" "\<forall>j < nch. \<forall>l < k. cell sy (slot sy nch y j l) \<subseteq> K"
    "\<forall>j \<in> set js. xs j = channel_in sx m (slot sx nch x j) k"
  shows "\<exists>cs' m'. channels_loop f sx sy (int nch) (int k * int nch) x y js cs m = Some (cs', m') \<and>
    channel_result sy (set js) as xs k (slot sy nch y) cs m cs' m'"
  using assms
proof (induction js arbitrary: cs m)
  case Nil
  then show ?case by (simp add: channel_result_def)
next
  case (Cons j js)
  have j: "j < nch" "j < length cs" "j \<notin> set js" "set js \<subseteq> {..<nch}" using Cons.prems(2-4) by auto
  have sp: "S \<inter> K = {}" "own (cs ! i) \<inter> S = {}" "uses (cs ! i) \<inter> K = {}"
      "i \<noteq> l \<Longrightarrow> l < nch \<Longrightarrow> own (cs ! i) \<inter> uses (cs ! l) = {}" if "i < nch" for i l
    using Cons.prems(4,5) that by (auto simp: separate_def)
  have sl: "x + wbytes sx * int j + wbytes sx * int (nch * l) = slot sx nch x j l"
    "y + wbytes sy * int j + wbytes sy * int (nch * l) = slot sy nch y j l" for l
    by (simp_all add: slot_def algebra_simps)
  obtain c m1 where fr: "frames_loop f sx sy (int nch) (int k * int nch) 0 (x + wbytes sx * int j) (y + wbytes sy * int j) (cs ! j) m = Some (c, m1)"
      "rel c m1 (snd (run spec (as j) (xs j)))" "own c = own (cs ! j)" "uses c = uses (cs ! j)"
      "\<And>l. l < k \<Longrightarrow> load sy m1 (slot sy nch y j l) = trunc sy (fst (run spec (as j) (xs j)) ! l)"
      "\<And>p. p \<notin> own (cs ! j) \<Longrightarrow> (\<And>l. l < k \<Longrightarrow> p \<notin> cell sy (slot sy nch y j l)) \<Longrightarrow> m1 p = m p"
    using frames_ok [of nch "int k * int nch" 0 k "cs ! j" m "as j" S K "x + wbytes sx * int j" sy "y + wbytes sy * int j" "xs j", unfolded sl]
      Cons.prems(1,6-9) j(1) sp(1-3) [OF j(1)] by (simp del: of_nat_mult) blast
  let ?cs = "cs[j := c]"
  have maps: "map own ?cs = map own cs" "map uses ?cs = map uses cs"
    using fr(3,4) j(2) by (auto simp: map_update intro!: list_update_same_conv [THEN iffD2])
  have m1: "m1 p = m p" if "p \<notin> own (cs ! j)" "p \<notin> K" for p
    using that fr(6) Cons.prems(8) j(1) by blast
  have rel1: "\<forall>i \<in> set js. rel (?cs ! i) m1 (as i)"
  proof
    fix i assume i: "i \<in> set js"
    then have ij: "i \<noteq> j" "i < nch" using j by auto
    have "m1 p = m p" if "p \<in> uses (cs ! i)" for p
      using that m1 sp(4) [OF j(1), of i] sp(3) [OF ij(2)] ij by (metis disjoint_iff)
    then have "rel (cs ! i) m1 (as i)" using Cons.prems(6) i framed [of "cs ! i" m "as i" m1] by simp
    with ij show "rel (?cs ! i) m1 (as i)" by simp
  qed
  have xs1: "\<forall>i \<in> set js. xs i = channel_in sx m1 (slot sx nch x i) k"
  proof
    fix i assume i: "i \<in> set js"
    then have "xs i = channel_in sx m (slot sx nch x i) k" using Cons.prems(9) by simp
    also have "\<dots> = channel_in sx m1 (slot sx nch x i) k"
    proof (rule channel_in_cong)
      fix l p assume "l < k" "p \<in> cell sx (slot sx nch x i l)"
      then have "p \<in> S" using Cons.prems(7) i j(4) by blast
      then show "m p = m1 p" using m1 sp(1,2) [OF j(1)] by (metis disjoint_iff)
    qed
    finally show "xs i = channel_in sx m1 (slot sx nch x i) k" .
  qed
  obtain cs' m' where ih: "channels_loop f sx sy (int nch) (int k * int nch) x y js ?cs m1 = Some (cs', m')"
      "channel_result sy (set js) as xs k (slot sy nch y) ?cs m1 cs' m'"
    using Cons.IH [of ?cs m1, unfolded maps length_list_update, OF Cons.prems(1) _ j(4) Cons.prems(4,5) rel1 Cons.prems(7,8) xs1]
      Cons.prems(2) by auto
  have "channel_result sy (insert j (set js)) as xs k (slot sy nch y) cs m cs' m'"
  proof (rule channel_result_insert [OF ih(2) j(3,2) fr(2-6)])
    fix i l assume i: "i \<in> set js"
    then have ij: "i < length cs" "i < nch" "i \<noteq> j" using j Cons.prems(4) by auto
    show "uses (cs ! j) \<inter> own (cs ! i) = {}" using sp(4) [OF ij(2), of j] ij j(1) by blast
    show "cell sy (slot sy nch y j l) \<inter> cell sy (slot sy nch y i l') = {}" for l'
      using slot_distinct [OF j(1) ij(2)] ij(3) by simp
    assume l: "l < k"
    show "uses (cs ! j) \<inter> cell sy (slot sy nch y i l) = {}"
      using sp(3) [OF j(1)] Cons.prems(8) ij(2) l by blast
    show "cell sy (slot sy nch y j l) \<inter> own (cs ! i) = {}"
      using sp(3) [OF ij(2)] own_uses Cons.prems(8) j(1) l by blast
  qed
  then show ?case using fr(1) ih(1) j(2) by auto
qed

lemma channel_result_cong:
  assumes "channel_result sy J as xs k loc cs m cs' m'" "\<And>j. j \<in> J \<Longrightarrow> ys j = xs j" "\<And>j l. j \<in> J \<Longrightarrow> l < k \<Longrightarrow> lok j l = loc j l"
  shows "channel_result sy J as ys k lok cs m cs' m'"
  using assms by (simp add: channel_result_def cong: ball_cong)

lemma chunk_ok:
  assumes "0 < nch" "nch \<le> length cs" "separate nch (map own cs) (map uses cs) {p. in_ring source p} {p. in_ring sink p}"
    "\<forall>j < nch. rel (cs ! j) m (as j)"
    and src: "\<And>j l. j < nch \<Longrightarrow> l < k \<Longrightarrow> ring_slot source sx nch x j l = slot sx nch x j l"
      "\<And>j l. j < nch \<Longrightarrow> l < k \<Longrightarrow> cell sx (ring_slot source sx nch x j l) \<subseteq> {p. in_ring source p}"
    and snk: "\<And>j l. j < nch \<Longrightarrow> l < k \<Longrightarrow> ring_slot sink sy nch y j l = slot sy nch y j l"
      "\<And>j l. j < nch \<Longrightarrow> l < k \<Longrightarrow> cell sy (ring_slot sink sy nch y j l) \<subseteq> {p. in_ring sink p}"
  shows "\<exists>cs' m'. channels_loop f sx sy (int nch) (int k * int nch) x y [0..<nch] cs m = Some (cs', m') \<and>
    channel_result sy {..<nch} as (\<lambda>j. channel_in sx m (ring_slot source sx nch x j) k) k (ring_slot sink sy nch y) cs m cs' m'"
proof -
  have "\<exists>cs' m'. channels_loop f sx sy (int nch) (int k * int nch) x y [0..<nch] cs m = Some (cs', m') \<and>
    channel_result sy (set [0..<nch]) as (\<lambda>j. channel_in sx m (slot sx nch x j) k) k (slot sy nch y) cs m cs' m'"
    using assms(1-4) src snk by (intro channels_ok [where S = "{p. in_ring source p}" and K = "{p. in_ring sink p}"]) auto
  then obtain cs' m' where r: "channels_loop f sx sy (int nch) (int k * int nch) x y [0..<nch] cs m = Some (cs', m')"
      "channel_result sy {..<nch} as (\<lambda>j. channel_in sx m (slot sx nch x j) k) k (slot sy nch y) cs m cs' m'"
    by (auto simp: atLeast0LessThan)
  have "channel_in sx m (ring_slot source sx nch x j) k = channel_in sx m (slot sx nch x j) k" if "j < nch" for j
    using src(1) [OF that] by (simp add: channel_in_def)
  then show ?thesis using r(1) channel_result_cong [OF r(2)] snk(1) by auto
qed

lemma samples_step:
  assumes "0 < remaining" "audio_stream_bytes_without_wrap source x = Some (wbytes sx * e)"
    "audio_stream_bytes_without_wrap sink y = Some (wbytes sy * e')" "n = min (min remaining e) e'"
    "channels_loop f sx sy (int nch) n x y [0..<nch] cs m = Some (cs', m')"
    "audio_stream_wrap source (x + wbytes sx * n) = Some x'" "audio_stream_wrap sink (y + wbytes sy * n) = Some y'"
  shows "samples_loop f sx sy (int nch) source sink remaining x y cs m =
    samples_loop f sx sy (int nch) source sink (remaining - n) x' y' cs' m'"
  using assms by (subst samples_loop.simps) (simp add: wbytes_shift)

lemma samples_ok:
  assumes "0 < nch" "stream_wf source" "stream_wf sink" "nch \<le> length cs"
    "frame_aligned source sx nch x" "frame_aligned sink sy nch y"
    "separate nch (map own cs) (map uses cs) {p. in_ring source p} {p. in_ring sink p}"
    "\<forall>j < nch. rel (cs ! j) m (as j)"
    "wbytes sx * int (nch * F) \<le> st_size source" "wbytes sy * int (nch * F) \<le> st_size sink"
  shows "\<exists>cs' m'. samples_loop f sx sy (int nch) source sink (int (nch * F)) x y cs m = Some (cs', m') \<and>
    channel_result sy {..<nch} as (\<lambda>j. channel_in sx m (ring_slot source sx nch x j) F) F (ring_slot sink sy nch y) cs m cs' m'"
  using assms
proof (induction F arbitrary: x y cs m as rule: less_induct)
  case (less F)
  show ?case
  proof (cases "F = 0")
    case True
    then show ?thesis using less.prems(8) by (subst samples_loop.simps) (simp add: channel_result_def channel_in_def)
  next
    case False
    obtain E T where e: "end_addr source - x = wbytes sx * int (nch * E)" "st_size source = wbytes sx * int (nch * T)" "0 < E"
      by (rule frame_alignedE [OF less.prems(5,1,2)])
    obtain E' T' where e': "end_addr sink - y = wbytes sy * int (nch * E')" "st_size sink = wbytes sy * int (nch * T')" "0 < E'"
      by (rule frame_alignedE [OF less.prems(6,1,3)])
    define k where "k = min F (min E E')"
    define g where "g = F - k"
    have k: "0 < k" "k \<le> E" "k \<le> E'" "F = k + g" "g < F" using False e(3) e'(3) by (auto simp: k_def g_def)
    note S = ring_slot_in_ring [OF less.prems(5,2,9)] and K = ring_slot_in_ring [OF less.prems(6,3,10)]
    let ?x = "ring_slot source sx nch x" and ?y = "ring_slot sink sy nch y"
    have "\<exists>cs' m'. channels_loop f sx sy (int nch) (int k * int nch) x y [0..<nch] cs m = Some (cs', m') \<and>
        channel_result sy {..<nch} as (\<lambda>j. channel_in sx m (?x j) k) k ?y cs m cs' m'"
    proof (rule chunk_ok [OF less.prems(1,4,7,8)])
      fix j l assume j: "j < nch" and l: "l < k"
      show "?x j l = slot sx nch x j l" "?y j l = slot sy nch y j l"
        using chunk_slot [OF e(1,2) j, of l] chunk_slot [OF e'(1,2) j, of l] l k(2,3) by simp_all
      show "cell sx (?x j l) \<subseteq> {p. in_ring source p}" "cell sy (?y j l) \<subseteq> {p. in_ring sink p}"
        using S [OF j] K [OF j] l k(4) by simp_all
    qed
    then obtain cs1 m1 where ch: "channels_loop f sx sy (int nch) (int k * int nch) x y [0..<nch] cs m = Some (cs1, m1)"
        "channel_result sy {..<nch} as (\<lambda>j. channel_in sx m (?x j) k) k ?y cs m cs1 m1"
      by blast
    define x' where "x' = ring_addr source (x + wbytes sx * int (nch * k))"
    define y' where "y' = ring_addr sink (y + wbytes sy * int (nch * k))"
    have le: "wbytes sx * int (nch * k) \<le> end_addr source - x" "wbytes sy * int (nch * k) \<le> end_addr sink - y"
      unfolding e(1) e'(1) using k(2,3) by (auto intro!: mult_left_mono)
    note ax = chunk_advance [OF less.prems(5,2) k(1) le(1) less.prems(1), folded x'_def]
    note ay = chunk_advance [OF less.prems(6,3) k(1) le(2) less.prems(1), folded y'_def]
    have loop: "samples_loop f sx sy (int nch) source sink (int (nch * F)) x y cs m =
        samples_loop f sx sy (int nch) source sink (int (nch * g)) x' y' cs1 m1"
    proof (rule samples_step [where e = "int (nch * E)" and e' = "int (nch * E')" and n = "int (nch * k)", THEN trans])
      show "0 < int (nch * F)" using False less.prems(1) by simp
      show "audio_stream_bytes_without_wrap source x = Some (wbytes sx * int (nch * E))"
        using bytes_without_wrap_ring [OF less.prems(2)] less.prems(5) e(1) by (simp add: frame_aligned_def)
      show "audio_stream_bytes_without_wrap sink y = Some (wbytes sy * int (nch * E'))"
        using bytes_without_wrap_ring [OF less.prems(3)] less.prems(6) e'(1) by (simp add: frame_aligned_def)
      show "int (nch * k) = min (min (int (nch * F)) (int (nch * E))) (int (nch * E'))"
        unfolding k_def by (simp add: nat_mult_min_right of_nat_min min.assoc del: of_nat_mult)
      show "channels_loop f sx sy (int nch) (int (nch * k)) x y [0..<nch] cs m = Some (cs1, m1)"
        using ch(1) by (simp add: mult.commute)
    qed (use ax(1) ay(1) k(4) in \<open>simp_all add: algebra_simps\<close>)
    have sp: "own (cs ! j) \<inter> {p. in_ring source p} = {}" "uses (cs ! j) \<inter> {p. in_ring sink p} = {}" if "j < nch" for j
      using less.prems(4,7) that by (auto simp: separate_def)
    have src: "m1 p = m p" if p: "in_ring source p" for p
    proof -
      have "\<not> in_ring sink p" using p less.prems(7) by (auto simp: separate_def)
      then have "\<forall>j \<in> {..<nch}. p \<notin> own (cs ! j) \<and> (\<forall>l < k. p \<notin> cell sy (?y j l))"
        using p sp(1) K k(4) trans_less_add1 by blast
      then show ?thesis using ch(2) unfolding channel_result_def by blast
    qed
    let ?as = "\<lambda>j. snd (run spec (as j) (channel_in sx m (?x j) k))"
    have "\<exists>cs' m'. samples_loop f sx sy (int nch) source sink (int (nch * g)) x' y' cs1 m1 = Some (cs', m') \<and>
        channel_result sy {..<nch} ?as (\<lambda>j. channel_in sx m1 (ring_slot source sx nch x' j) g) g (ring_slot sink sy nch y') cs1 m1 cs' m'"
    proof (rule less.IH [OF k(5) less.prems(1-3) _ ax(2) ay(2)])
      show "nch \<le> length cs1" using ch(2) less.prems(4) unfolding channel_result_def by (metis length_map)
      show "separate nch (map own cs1) (map uses cs1) {p. in_ring source p} {p. in_ring sink p}"
        using ch(2) less.prems(7) by (simp add: channel_result_def)
      show "\<forall>j < nch. rel (cs1 ! j) m1 (?as j)" using ch(2) by (simp add: channel_result_def)
      have "wbytes w * int (nch * g) \<le> wbytes w * int (nch * F)" for w
        using k(4) by (simp add: mult_left_mono del: of_nat_mult)
      then show "wbytes sx * int (nch * g) \<le> st_size source" "wbytes sy * int (nch * g) \<le> st_size sink"
        using less.prems(9,10) by (meson order_trans)+
    qed
    then obtain cs2 m2 where ih: "samples_loop f sx sy (int nch) source sink (int (nch * g)) x' y' cs1 m1 = Some (cs2, m2)"
        "channel_result sy {..<nch} ?as (\<lambda>j. channel_in sx m1 (ring_slot source sx nch x' j) g) g (ring_slot sink sy nch y') cs1 m1 cs2 m2"
      by blast
    have "channel_in sx m (\<lambda>l. ?x j (k + l)) g = channel_in sx m1 (ring_slot source sx nch x' j) g" if j: "j < nch" for j
    proof -
      have "channel_in sx m1 (ring_slot source sx nch x' j) g = channel_in sx m1 (\<lambda>l. ?x j (k + l)) g"
        using ax(3) [OF j, of _ F] less.prems(9) k(4) by (simp add: channel_in_def)
      also have "\<dots> = channel_in sx m (\<lambda>l. ?x j (k + l)) g"
      proof (rule channel_in_cong)
        fix l p assume "l < g" "p \<in> cell sx (?x j (k + l))"
        then have "in_ring source p" using S [OF j, of "k + l"] k(4) by auto
        then show "m1 p = m p" by (rule src)
      qed
      finally show ?thesis by simp
    qed
    moreover have "?y j (k + l) = ring_slot sink sy nch y' j l" if "j < nch" "l < g" for j l
      using ay(3) [OF that(1), of l F] that(2) less.prems(10) k(4) by simp
    ultimately have r2: "channel_result sy {..<nch} ?as (\<lambda>j. channel_in sx m (\<lambda>l. ?x j (k + l)) g) g (\<lambda>j l. ?y j (k + l)) cs1 m1 cs2 m2"
      using ih(2) by (elim channel_result_cong) auto
    have "cell sy (?y j l) \<inter> own (cs ! i) = {}" if "j < nch" "l < k" "i < nch" for i j l
      using K [OF that(1), of l] that(2) k(4) own_uses [of "cs ! i"] sp(2) [OF that(3)] by (simp add: disjoint_iff subset_iff) blast
    moreover have "cell sy (?y j l) \<inter> cell sy (?y i (k + l')) = {}" if "j < nch" "l < k" "i < nch" "l' < g" for i j l l'
      using that k(4) by (intro ring_slot_distinct [OF less.prems(6,3,10)]) auto
    ultimately have "channel_result sy {..<nch} as (\<lambda>j. channel_in sx m (?x j) k @ channel_in sx m (\<lambda>l. ?x j (k + l)) g) (k + g) ?y cs m cs2 m2"
      using less.prems(4) by (intro channel_result_append [OF ch(2) r2]) auto
    then show ?thesis using loop ih(1) by (simp add: channel_in_add k(4))
  qed
qed

end

end
