(* ===== verification/Sof_EQ.thy ===== *)
theory Sof_EQ
  imports Sof_Blob Sof_Firmware Sof_Sample
begin

text \<open>
  What the FIR and the IIR equaliser components share: the state of a component with one source and
  one sink buffer and a configuration blob, its creation and release, the control commands, and the
  order of the cache and pointer updates around the processing of a block.
\<close>

section \<open>Definitions\<close>

text \<open>
  The component with its private data \<open>'cd\<close>. The cache operations and the notifier events are
  recorded in order.
\<close>

record 'cd eq_state =
  eq_mm :: mm
  eq_mem :: mem
  eq_hand :: comp_data_blob_handler
  eq_dev :: comp_dev
  eq_bufs :: "addr \<Rightarrow> comp_buffer"
  eq_cache :: "(addr \<times> int) list"
  eq_events :: "buffer_event list"
  eq_cd :: 'cd

definition COMP_CMD_SET_DATA :: int where "COMP_CMD_SET_DATA = 102"
definition COMP_CMD_GET_DATA :: int where "COMP_CMD_GET_DATA = 103"
definition SOF_CTRL_CMD_BINARY :: int where "SOF_CTRL_CMD_BINARY = 3"

text \<open>\<open>list_first_item\<close> of a buffer list; there is no buffer to use in an empty list.\<close>

definition first_buffer :: "addr list \<Rightarrow> addr option" where
  "first_buffer bs = (case bs of [] \<Rightarrow> None | b # _ \<Rightarrow> Some b)"

definition eq_blob :: "'cd eq_state \<Rightarrow> blob_state" where
  "eq_blob s = (eq_mm s, eq_mem s, eq_hand s)"

definition set_blob :: "blob_state \<Rightarrow> 'cd eq_state \<Rightarrow> 'cd eq_state" where
  "set_blob = (\<lambda>(mm, m, h) s. s\<lparr>eq_mm := mm, eq_mem := m, eq_hand := h\<rparr>)"

definition eq_set_state :: "'cd eq_state \<Rightarrow> int \<Rightarrow> int \<times> 'cd eq_state" where
  "eq_set_state s cmd = (let (ret, dev) = comp_set_state (eq_dev s) cmd in (ret, s\<lparr>eq_dev := dev\<rparr>))"

text \<open>
  Creation: the component, its private data, the blob handler and the initial blob, with the release
  of what was allocated when a later step fails. \<open>init\<close> is the private data of a new component whose
  handler is at the given address.
\<close>

record eq_sizes =
  sizeof_dev :: int
  sizeof_cd :: int
  sizeof_handler :: int

definition eq_new ::
    "plat \<Rightarrow> eq_sizes \<Rightarrow> int \<Rightarrow> (addr \<Rightarrow> 'cd) \<Rightarrow> mm \<Rightarrow> mem \<Rightarrow> addr \<Rightarrow> comp_ipc_config \<Rightarrow> int \<Rightarrow> addr \<Rightarrow>
      (addr \<times> mm \<times> mem \<times> (comp_dev \<times> comp_data_blob_handler \<times> 'cd) option) option" where
  "eq_new plat sz max_size init mm m drv config bs data =
     (if bs > max_size then Some (0, mm, m, None)
      else do {
        (dev, mm1, m1, comps) \<leftarrow> comp_alloc plat mm m (\<lambda>_. zero_comp) drv (sizeof_dev sz);
        if dev = 0 then Some (0, mm1, m1, None)
        else do {
          let d = (comps dev)\<lparr>ipc_config := config\<rparr>;
          (cd, mm2, m2) \<leftarrow> rzalloc plat mm1 m1 SOF_MEM_ZONE_RUNTIME SOF_MEM_CAPS_RAM (sizeof_cd sz);
          if cd = 0 then do { mm3 \<leftarrow> rfree plat mm2 dev; Some (0, mm3, m2, None) }
          else do {
            (hp, mm3, m3, h) \<leftarrow> comp_data_blob_handler_new plat (sizeof_handler sz) mm2 m2;
            (ret, mm4, m4, h1) \<leftarrow> (if hp = 0 then Some (- ENOMEM, mm3, m3, h)
                                   else comp_init_data_blob plat (mm3, m3, h) bs data);
            if hp = 0 \<or> ret < 0
            then do { (mm5, m5, h2) \<leftarrow> comp_data_blob_handler_free plat hp (mm4, m4, h1);
                      mm6 \<leftarrow> rfree plat mm5 cd;
                      mm7 \<leftarrow> rfree plat mm6 dev;
                      Some (0, mm7, m5, None) }
            else Some (dev, mm4, m4, Some (d\<lparr>priv_data := cd, c_state := COMP_STATE_READY\<rparr>, h1, init hp)) } } })"

text \<open>The control commands; \<open>ctrl_cmd\<close> is the \<open>cmd\<close> field of the control data.\<close>

definition eq_cmd_set_data :: "plat \<Rightarrow> 'cd eq_state \<Rightarrow> int \<Rightarrow> ctrl_data \<Rightarrow> (int \<times> 'cd eq_state) option" where
  "eq_cmd_set_data plat s ctrl_cmd cdata =
     (if ctrl_cmd = SOF_CTRL_CMD_BINARY
      then do { (ret, bs) \<leftarrow> comp_data_blob_set_cmd plat (c_state (eq_dev s)) (eq_blob s) cdata;
                Some (ret, set_blob bs s) }
      else Some (- EINVAL, s))"

definition eq_cmd_get_data :: "'cd eq_state \<Rightarrow> int \<Rightarrow> ctrl_data \<Rightarrow> int \<Rightarrow> (int \<times> ctrl_data \<times> 'cd eq_state) option" where
  "eq_cmd_get_data s ctrl_cmd cdata max_size =
     (if ctrl_cmd = SOF_CTRL_CMD_BINARY
      then do { (ret, bs, cdata') \<leftarrow> comp_data_blob_get_cmd (eq_blob s) cdata max_size;
                Some (ret, cdata', set_blob bs s) }
      else Some (- EINVAL, cdata, s))"

definition eq_cmd ::
    "plat \<Rightarrow> 'cd eq_state \<Rightarrow> int \<Rightarrow> int \<Rightarrow> ctrl_data \<Rightarrow> int \<Rightarrow> (int \<times> ctrl_data \<times> 'cd eq_state) option" where
  "eq_cmd plat s cmd ctrl_cmd cdata max_data_size =
     (if cmd = COMP_CMD_SET_DATA
      then do { (ret, s') \<leftarrow> eq_cmd_set_data plat s ctrl_cmd cdata; Some (ret, cdata, s') }
      else if cmd = COMP_CMD_GET_DATA then eq_cmd_get_data s ctrl_cmd cdata max_data_size
      else Some (- EINVAL, cdata, s))"

text \<open>
  Processing of a block by \<open>func\<close>, which maps the streams, the private data and the memory: caches
  before and after, then the pointers of the source and of the sink.
\<close>

definition eq_process ::
    "(audio_stream \<Rightarrow> audio_stream \<Rightarrow> int \<Rightarrow> 'cd \<Rightarrow> mem \<Rightarrow> ('cd \<times> mem) option) \<Rightarrow>
      'cd eq_state \<Rightarrow> addr \<Rightarrow> addr \<Rightarrow> int \<Rightarrow> int \<Rightarrow> int \<Rightarrow> 'cd eq_state option" where
  "eq_process func s source sink frames source_bytes sink_bytes =
     do { let inv = buffer_stream_invalidate (eq_bufs s source) source_bytes;
          (cd, m) \<leftarrow> func (b_stream (eq_bufs s source)) (b_stream (eq_bufs s sink)) frames (eq_cd s) (eq_mem s);
          let wb = buffer_stream_writeback (eq_bufs s sink) sink_bytes;
          (b1, ev1) \<leftarrow> comp_update_buffer_consume source (eq_bufs s source) source_bytes;
          let bufs = (eq_bufs s)(source := b1);
          (b2, ev2) \<leftarrow> comp_update_buffer_produce sink (bufs sink) sink_bytes;
          Some (s\<lparr>eq_cd := cd, eq_mem := m, eq_bufs := bufs(sink := b2),
                  eq_cache := eq_cache s @ inv @ wb, eq_events := eq_events s @ ev1 @ ev2\<rparr>) }"

section \<open>Creation\<close>

text \<open>A component is returned exactly with its private data, in state ready.\<close>

lemma eq_new_result:
  assumes "eq_new plat sz max_size init mm m drv config bs data = Some (p, mm', m', r)"
  shows "(p = 0) = (r = None)"
    and "r = Some (dev, h, cd) \<Longrightarrow> c_state dev = COMP_STATE_READY \<and> ipc_config dev = config \<and> bs \<le> max_size"
  using assms by (auto simp: eq_new_def split: if_splits bind_splits)

end
