(* ===== verification/Sof_FIR.thy ===== *)
theory Sof_FIR
  imports Sof_Sample Sof_Format
begin

text \<open>
  The generic FIR filter of \<open>src/math/fir_generic.c\<close>. The coefficients and the delay line lie in byte
  memory behind the pointers of the filter; the delay line is a ring of the last input samples. The
  filter is shown to be the convolution of its input with the coefficients, in exact arithmetic.
\<close>

section \<open>Definitions\<close>

record fir_state_32x16 =
  rwi :: int
  taps :: int
  flength :: int
  out_shift :: int
  fcoef :: addr
  fdelay :: addr

definition SOF_FIR_MAX_LENGTH :: int where "SOF_FIR_MAX_LENGTH = 256"

text \<open>
  The fields of \<open>struct sof_fir_coef_data\<close> at address \<open>config\<close>: length and shift of two bytes each,
  four reserved words, then the coefficients.
\<close>

definition coef_length :: "mem \<Rightarrow> addr \<Rightarrow> int" where
  "coef_length m config = load W16 m config"

definition coef_shift :: "mem \<Rightarrow> addr \<Rightarrow> int" where
  "coef_shift m config = load W16 m (config + 2)"

definition SOF_FIR_COEF_NHEADER :: int where "SOF_FIR_COEF_NHEADER = 10"

definition fir_reset :: "fir_state_32x16 \<Rightarrow> fir_state_32x16" where
  "fir_reset fir = fir\<lparr>rwi := 0, flength := 0, out_shift := 0, fcoef := 0\<rparr>"

definition fir_delay_size :: "mem \<Rightarrow> addr \<Rightarrow> int" where
  "fir_delay_size m config =
     (if coef_length m config > SOF_FIR_MAX_LENGTH \<or> coef_length m config < 1 then - EINVAL
      else coef_length m config * 4)"

definition fir_init_coef :: "mem \<Rightarrow> fir_state_32x16 \<Rightarrow> addr \<Rightarrow> fir_state_32x16" where
  "fir_init_coef m fir config =
     fir\<lparr>rwi := 0, flength := coef_length m config, taps := coef_length m config,
         out_shift := coef_shift m config, fcoef := config + 2 * SOF_FIR_COEF_NHEADER\<rparr>"

definition fir_init_delay :: "fir_state_32x16 \<Rightarrow> addr \<Rightarrow> fir_state_32x16 \<times> addr" where
  "fir_init_delay fir data = (fir\<lparr>fdelay := data\<rparr>, data + 4 * flength fir)"

text \<open>The accumulation loops: \<open>coef\<close> goes up, \<open>data\<close> goes down, the sum is an \<open>int64_t\<close>.\<close>

fun fir_mac :: "mem \<Rightarrow> nat \<Rightarrow> addr \<Rightarrow> addr \<Rightarrow> int \<Rightarrow> int" where
  "fir_mac m 0 coef data y = y"
| "fir_mac m (Suc n) coef data y =
     fir_mac m n (coef + 2) (data - 4) (s64 (y + load W16 m coef * load W32 m data))"

text \<open>A shift by a negative amount or by the width of the type is undefined.\<close>

definition fir_out :: "fir_state_32x16 \<Rightarrow> int \<Rightarrow> int option" where
  "fir_out fir y =
     (let n = 15 + out_shift fir
      in if 0 \<le> n \<and> n < 64 then Some (sat_int32 (drop_bit (nat n) y)) else None)"

definition fir_32x16 :: "fir_state_32x16 \<Rightarrow> mem \<Rightarrow> int \<Rightarrow> (int \<times> fir_state_32x16 \<times> mem) option" where
  "fir_32x16 fir m x =
     (if flength fir = 0 then Some (x, fir, m)
      else do {
        let data = fdelay fir + 4 * rwi fir;
        let m' = store W32 m data x;
        let n1 = rwi fir + 1;
        let fir' = fir\<lparr>rwi := (if n1 = flength fir then 0 else n1)\<rparr>;
        z \<leftarrow> (if n1 > flength fir then fir_out fir (fir_mac m' (nat (flength fir)) (fcoef fir) data 0)
             else
               let y = fir_mac m' (nat n1) (fcoef fir) data 0;
                   n2 = flength fir - n1
               in fir_out fir (fir_mac m' (nat n2) (fcoef fir + 2 * int (nat n1))
                                 (fdelay fir + 4 * (flength fir - 1)) y));
        Some (z, fir', m') })"

section \<open>Convolution\<close>

text \<open>
  The abstract filter: coefficients, output shift and the last inputs, the newest first. A filter
  without coefficients passes its input.
\<close>

type_synonym fir_abs = "int list \<times> int \<times> int list"

definition dot :: "int list \<Rightarrow> int list \<Rightarrow> int" where
  "dot cs h = (\<Sum>i < length cs. cs ! i * h ! i)"

definition fir_spec :: "fir_abs \<Rightarrow> int \<Rightarrow> int \<times> fir_abs" where
  "fir_spec = (\<lambda>(cs, sh, h) x.
     if cs = [] then (x, cs, sh, h)
     else let h' = x # butlast h in (sat_int32 (drop_bit (nat (15 + sh)) (dot cs h')), cs, sh, h'))"

text \<open>The response to the input \<open>xs\<close> from a cleared delay line: sample \<open>k\<close> of the convolution.\<close>

definition convolution :: "int list \<Rightarrow> int list \<Rightarrow> nat \<Rightarrow> int" where
  "convolution cs xs k = (\<Sum>i < length cs. cs ! i * (if i \<le> k then xs ! (k - i) else 0))"

text \<open>The memory of a filter and what it holds.\<close>

definition fir_own :: "fir_state_32x16 \<Rightarrow> addr set" where
  "fir_own fir = {fdelay fir..<fdelay fir + 4 * flength fir}"

definition fir_uses :: "fir_state_32x16 \<Rightarrow> addr set" where
  "fir_uses fir = fir_own fir \<union> {fcoef fir..<fcoef fir + 2 * flength fir}"

definition fir_rel :: "fir_state_32x16 \<Rightarrow> mem \<Rightarrow> fir_abs \<Rightarrow> bool" where
  "fir_rel fir m = (\<lambda>(cs, sh, h).
     flength fir = int (length cs) \<and>
     (cs \<noteq> [] \<longrightarrow>
       length cs \<le> 256 \<and> length h = length cs \<and> 0 \<le> rwi fir \<and> rwi fir < flength fir \<and>
       out_shift fir = sh \<and> - 15 \<le> sh \<and> sh < 49 \<and>
       {fcoef fir..<fcoef fir + 2 * flength fir} \<inter> fir_own fir = {} \<and>
       (\<forall>i < length cs. load W16 m (fcoef fir + 2 * int i) = cs ! i) \<and>
       (\<forall>i < length cs. load W32 m (fdelay fir + 4 * ((rwi fir - 1 - int i) mod flength fir)) = h ! i)))"

text \<open>The accumulator never leaves its 64 bits.\<close>

lemma product_bound:
  assumes "is_s16 c" "is_s32 x"
  shows "\<bar>c * x\<bar> \<le> 32768 * 2147483648"
proof -
  have "\<bar>c\<bar> \<le> 32768" "\<bar>x\<bar> \<le> 2147483648" using assms by auto
  then have "\<bar>c\<bar> * \<bar>x\<bar> \<le> 32768 * 2147483648" by (intro mult_mono) auto
  then show ?thesis by (simp add: abs_mult)
qed

lemma fir_mac_sum:
  assumes "\<bar>y\<bar> + int n * (32768 * 2147483648) < 2 ^ 63"
  shows "fir_mac m n coef data y = y + (\<Sum>i < n. load W16 m (coef + 2 * int i) * load W32 m (data - 4 * int i))"
  using assms
proof (induction n arbitrary: coef data y)
  case (Suc n)
  let ?p = "load W16 m coef * load W32 m data"
  have p: "\<bar>?p\<bar> \<le> 32768 * 2147483648"
    using product_bound [of "load W16 m coef" "load W32 m data"] load_in_width [of W16 m coef] load_in_width [of W32 m data] by simp
  then have "is_s64 (y + ?p)" using Suc.prems by auto
  then have "fir_mac m (Suc n) coef data y = fir_mac m n (coef + 2) (data - 4) (y + ?p)" by (simp add: s64_id)
  also have "\<dots> = y + ?p + (\<Sum>i < n. load W16 m (coef + 2 + 2 * int i) * load W32 m (data - 4 - 4 * int i))"
    using p Suc.prems by (intro Suc.IH) auto
  also have "\<dots> = y + (\<Sum>i < Suc n. load W16 m (coef + 2 * int i) * load W32 m (data - 4 * int i))"
    by (simp add: sum.lessThan_Suc_shift algebra_simps del: sum.lessThan_Suc)
  finally show ?case .
qed simp

lemma sum_split: "(\<Sum>i < a + b. f i) = (\<Sum>i < a. f i) + (\<Sum>i < b. f (a + i))" for f :: "nat \<Rightarrow> int"
  by (induction b) simp_all

text \<open>The address of the input sample of age \<open>i\<close> once a new one has been written at the index.\<close>

definition aged :: "fir_state_32x16 \<Rightarrow> nat \<Rightarrow> addr" where
  "aged fir i = fdelay fir + 4 * ((rwi fir - int i) mod flength fir)"

lemma aged_cell:
  assumes "0 < flength fir" "a = aged fir i"
  shows "cell W32 a \<subseteq> fir_own fir"
proof -
  have "0 \<le> (rwi fir - int i) mod flength fir" "(rwi fir - int i) mod flength fir < flength fir" using assms(1) by simp_all
  then show ?thesis unfolding assms(2) aged_def cell_def fir_own_def by auto
qed

lemma aged_apart:
  assumes "0 \<le> rwi fir" "rwi fir < flength fir" "0 < i" "int i < flength fir"
  shows "cell W32 (aged fir i) \<inter> cell W32 (fdelay fir + 4 * rwi fir) = {}"
proof -
  have "(rwi fir - int i) mod flength fir \<noteq> rwi fir mod flength fir"
  proof
    assume "(rwi fir - int i) mod flength fir = rwi fir mod flength fir"
    then have "flength fir dvd rwi fir - int i - rwi fir" by (simp only: mod_eq_dvd_iff)
    then have "flength fir dvd int i" by simp
    then show False using assms(3,4) zdvd_not_zless [of "int i" "flength fir"] by simp
  qed
  then show ?thesis using assms(1,2) by (auto simp: aged_def cell_def)
qed

text \<open>The delay line after a step: the new sample at the front, the oldest one dropped.\<close>

lemma line_step:
  assumes rel: "fir_rel fir m (cs, sh, h)" "cs \<noteq> []" and x: "is_s32 x"
    and m': "m' = store W32 m (fdelay fir + 4 * rwi fir) x" and i: "i < length cs"
  shows "load W32 m' (aged fir i) = (x # butlast h) ! i"
proof -
  have r: "0 \<le> rwi fir" "rwi fir < flength fir" "flength fir = int (length cs)" "length h = length cs"
      "\<And>i. i < length cs \<Longrightarrow> load W32 m (fdelay fir + 4 * ((rwi fir - 1 - int i) mod flength fir)) = h ! i"
    using rel by (auto simp: fir_rel_def)
  show ?thesis
  proof (cases i)
    case 0
    then have "aged fir i = fdelay fir + 4 * rwi fir" using r(1,2) by (simp add: aged_def)
    then show ?thesis unfolding m' using 0 x load_store [of W32 m "fdelay fir + 4 * rwi fir" x] by (simp add: s32_id)
  next
    case (Suc j)
    have "cell W32 (aged fir i) \<inter> cell W32 (fdelay fir + 4 * rwi fir) = {}"
      using r(1-3) i Suc by (intro aged_apart) auto
    then have "load W32 m' (aged fir i) = load W32 m (aged fir i)"
      unfolding m' by (intro load_cong store_out) auto
    also have "\<dots> = h ! j" using r(5) [of j] i Suc by (simp add: aged_def algebra_simps)
    finally show ?thesis using Suc i r(4) by (simp add: nth_butlast)
  qed
qed

lemma coef_step:
  assumes rel: "fir_rel fir m (cs, sh, h)" "cs \<noteq> []"
    and m': "m' = store W32 m (fdelay fir + 4 * rwi fir) x" and i: "i < length cs"
  shows "load W16 m' (fcoef fir + 2 * int i) = cs ! i"
proof -
  have r: "0 \<le> rwi fir" "rwi fir < flength fir" "flength fir = int (length cs)"
      "{fcoef fir..<fcoef fir + 2 * flength fir} \<inter> fir_own fir = {}" "load W16 m (fcoef fir + 2 * int i) = cs ! i"
    using rel i by (auto simp: fir_rel_def)
  have "cell W16 (fcoef fir + 2 * int i) \<subseteq> {fcoef fir..<fcoef fir + 2 * flength fir}"
    using i r(3) by (auto simp: cell_def)
  moreover have "cell W32 (fdelay fir + 4 * rwi fir) \<subseteq> fir_own fir" using r(1,2) by (auto simp: cell_def fir_own_def)
  ultimately have "load W16 m' (fcoef fir + 2 * int i) = load W16 m (fcoef fir + 2 * int i)"
    unfolding m' using r(4) by (intro load_cong store_out) blast
  with r(5) show ?thesis by simp
qed

text \<open>The two accumulation loops together visit the delay line from the newest to the oldest sample.\<close>

lemma mac_parts:
  assumes rel: "fir_rel fir m (cs, sh, h)" "cs \<noteq> []" and x: "is_s32 x"
    and m': "m' = store W32 m (fdelay fir + 4 * rwi fir) x"
  shows "fir_mac m' (nat (flength fir - (rwi fir + 1))) (fcoef fir + 2 * int (nat (rwi fir + 1))) (fdelay fir + 4 * (flength fir - 1))
      (fir_mac m' (nat (rwi fir + 1)) (fcoef fir) (fdelay fir + 4 * rwi fir) 0) = dot cs (x # butlast h)"
proof -
  have r: "0 \<le> rwi fir" "rwi fir < flength fir" "flength fir = int (length cs)" "length cs \<le> 256"
    using rel by (auto simp: fir_rel_def)
  define a where "a = nat (rwi fir + 1)"
  define b where "b = nat (flength fir - (rwi fir + 1))"
  have ab: "int a = rwi fir + 1" "int b = flength fir - (rwi fir + 1)" "a + b = length cs" using r by (auto simp: a_def b_def)
  let ?f = "\<lambda>i. cs ! i * (x # butlast h) ! i"
  have tm: "load W16 m' (fcoef fir + 2 * int i) * load W32 m' (aged fir i) = ?f i" if "i < length cs" for i
    using line_step [OF rel x m' that] coef_step [OF rel m' that] by simp
  have "fdelay fir + 4 * rwi fir - 4 * int i = aged fir i" if "i < a" for i
    using that ab r(1,2) by (simp add: aged_def mod_pos_pos_trivial)
  then have one: "fir_mac m' a (fcoef fir) (fdelay fir + 4 * rwi fir) 0 = (\<Sum>i < a. ?f i)"
    using fir_mac_sum [of 0 a m' "fcoef fir" "fdelay fir + 4 * rwi fir"] tm ab(3) r(4) by simp
  have older: "fdelay fir + 4 * (flength fir - 1) - 4 * int i = aged fir (a + i)" if "i < b" for i
  proof -
    have "(rwi fir - int (a + i)) mod flength fir = (- 1 - int i + flength fir) mod flength fir" using ab(1) by simp
    also have "\<dots> = flength fir - 1 - int i" using that ab(2) r by (intro mod_pos_pos_trivial [THEN trans]) auto
    finally show ?thesis by (simp add: aged_def)
  qed
  have bnd: "\<bar>\<Sum>i < a. ?f i\<bar> \<le> int a * (32768 * 2147483648)"
  proof -
    have "\<bar>?f i\<bar> \<le> 32768 * 2147483648" if "i \<in> {..<a}" for i
      using tm [of i] that ab(3) product_bound load_in_width [of W16 m' "fcoef fir + 2 * int i"] load_in_width [of W32 m' "aged fir i"]
      by (metis in_width.simps lessThan_iff trans_less_add1)
    then have "(\<Sum>i < a. \<bar>?f i\<bar>) \<le> of_nat (card {..<a}) * (32768 * 2147483648)" by (rule sum_bounded_above)
    moreover have "\<bar>\<Sum>i < a. ?f i\<bar> \<le> (\<Sum>i < a. \<bar>?f i\<bar>)" by (rule sum_abs)
    ultimately show ?thesis unfolding card_lessThan by linarith
  qed
  have "fir_mac m' b (fcoef fir + 2 * int a) (fdelay fir + 4 * (flength fir - 1)) (\<Sum>i < a. ?f i) =
      (\<Sum>i < a. ?f i) + (\<Sum>i < b. ?f (a + i))"
  proof (rule fir_mac_sum [THEN trans])
    show "\<bar>\<Sum>i < a. ?f i\<bar> + int b * (32768 * 2147483648) < 2 ^ 63"
      using bnd ab(3) r(4) by (simp add: algebra_simps)
    have "load W16 m' (fcoef fir + 2 * int a + 2 * int i) * load W32 m' (fdelay fir + 4 * (flength fir - 1) - 4 * int i) = ?f (a + i)"
      if "i < b" for i using tm [of "a + i"] older [OF that] that ab(3) by (simp add: algebra_simps)
    then show "(\<Sum>i < a. ?f i) + (\<Sum>i < b. load W16 m' (fcoef fir + 2 * int a + 2 * int i) *
        load W32 m' (fdelay fir + 4 * (flength fir - 1) - 4 * int i)) = (\<Sum>i < a. ?f i) + (\<Sum>i < b. ?f (a + i))"
      by simp
  qed
  then show ?thesis using one ab(3) sum_split [of ?f a b] by (simp add: a_def b_def dot_def)
qed

lemma fir_step:
  assumes rel: "fir_rel fir m a" and x: "is_s32 x"
  shows "\<exists>fir' m'. fir_32x16 fir m x = Some (fst (fir_spec a x), fir', m') \<and> fir_rel fir' m' (snd (fir_spec a x)) \<and>
    fir_own fir' = fir_own fir \<and> fir_uses fir' = fir_uses fir \<and> (\<forall>p. p \<notin> fir_own fir \<longrightarrow> m' p = m p)"
proof -
  obtain cs sh h where a: "a = (cs, sh, h)" by (cases a)
  show ?thesis
  proof (cases "cs = []")
    case True
    then show ?thesis using rel by (simp add: a fir_rel_def fir_spec_def fir_32x16_def)
  next
    case False
    define m' where "m' = store W32 m (fdelay fir + 4 * rwi fir) x"
    define fir' where "fir' = fir\<lparr>rwi := (if rwi fir + 1 = flength fir then 0 else rwi fir + 1)\<rparr>"
    have r: "0 \<le> rwi fir" "rwi fir < flength fir" "flength fir = int (length cs)" "length h = length cs" "out_shift fir = sh"
        "- 15 \<le> sh" "sh < 49"
      using rel False by (auto simp: fir_rel_def a)
    have out: "fir_32x16 fir m x = Some (fst (fir_spec a x), fir', m')"
      using mac_parts [OF rel [unfolded a] False x m'_def] r False
      by (simp add: fir_32x16_def fir_out_def fir_spec_def a m'_def fir'_def Let_def)
    have fl: "flength fir' = flength fir" "fdelay fir' = fdelay fir" "fcoef fir' = fcoef fir" "out_shift fir' = sh"
        "0 \<le> rwi fir'" "rwi fir' < flength fir" "fir_own fir' = fir_own fir"
      using r(1,2,5) by (auto simp: fir'_def fir_own_def)
    have new: "fdelay fir + 4 * ((rwi fir' - 1 - int i) mod flength fir) = aged fir i" for i
    proof (cases "rwi fir + 1 = flength fir")
      case True
      then have "rwi fir - int i = - 1 - int i + flength fir" by simp
      then have "(rwi fir - int i) mod flength fir = (- 1 - int i) mod flength fir" by (metis mod_add_self2)
      then show ?thesis using True by (simp add: fir'_def aged_def)
    qed (simp add: fir'_def aged_def)
    have "fir_rel fir' m' (cs, sh, x # butlast h)"
      unfolding fir_rel_def prod.case fl new
      using rel False line_step [OF rel [unfolded a] False x m'_def] coef_step [OF rel [unfolded a] False m'_def] r fl(5,6)
      by (simp add: fir_rel_def a)
    then have "fir_rel fir' m' (snd (fir_spec a x))" using False by (simp add: fir_spec_def a Let_def)
    moreover have "m' p = m p" if "p \<notin> fir_own fir" for p
      unfolding m'_def using that r(1,2) by (intro store_out) (auto simp: cell_def fir_own_def)
    ultimately show ?thesis using out by (auto simp: fir'_def fir_own_def fir_uses_def)
  qed
qed

lemma fir_framed:
  assumes "fir_rel fir m a" "\<And>p. p \<in> fir_uses fir \<Longrightarrow> m' p = m p"
  shows "fir_rel fir m' a"
proof -
  obtain cs sh h where a: "a = (cs, sh, h)" by (cases a)
  have "load W16 m' (fcoef fir + 2 * int i) = load W16 m (fcoef fir + 2 * int i)" if "int i < flength fir" for i
    using that assms(2) by (intro load_cong) (auto simp: cell_def fir_uses_def)
  moreover have "load W32 m' (fdelay fir + 4 * ((rwi fir - 1 - int i) mod flength fir)) =
      load W32 m (fdelay fir + 4 * ((rwi fir - 1 - int i) mod flength fir))" if "0 < flength fir" for i
    using aged_cell [OF that, of _ "Suc i"] assms(2) by (intro load_cong) (auto simp: aged_def fir_uses_def algebra_simps)
  ultimately show ?thesis using assms(1) unfolding a fir_rel_def by auto
qed

text \<open>The filter meets the contract of a channel computation.\<close>

interpretation fir_ch: channel_op fir_32x16 W32 fir_spec fir_rel fir_own fir_uses
proof (unfold_locales, goal_cases)
  case (1 c)
  then show ?case by (simp add: fir_uses_def)
next
  case (2 c m a m')
  then show ?case by (rule fir_framed)
next
  case (3 c m a x)
  then show ?case using fir_step by simp
qed

text \<open>From a cleared delay line the state holds the last inputs, and the output is the convolution.\<close>

lemma fir_history:
  assumes "cs \<noteq> []" "length h = length cs"
  shows "snd (run fir_spec (cs, sh, h) xs) = (cs, sh, take (length cs) (rev xs @ h))"
  using assms(2)
proof (induction xs arbitrary: h)
  case (Cons x xs)
  have "butlast h = take (length cs - 1) h" using Cons.prems by (simp add: butlast_conv_take)
  then have "rev xs @ x # butlast h = take (length xs + length cs) (rev xs @ x # h)"
    using assms(1) by (cases cs) simp_all
  then show ?case
    using Cons.IH [of "x # butlast h"] Cons.prems assms(1) by (simp add: fir_spec_def Let_def min_def)
qed simp

lemma fir_convolution:
  assumes "cs \<noteq> []" "k < length xs"
  shows "fst (run fir_spec (cs, sh, replicate (length cs) 0) xs) ! k =
    sat_int32 (drop_bit (nat (15 + sh)) (convolution cs xs k))"
proof -
  let ?h = "take (length cs) (rev (take k xs) @ replicate (length cs) 0)"
  have "dot cs (xs ! k # butlast ?h) = convolution cs xs k" unfolding dot_def convolution_def
  proof (rule sum.cong [OF refl])
    fix i assume "i \<in> {..<length cs}"
    then have i: "i < length cs" by simp
    have "(xs ! k # butlast ?h) ! i = (if i \<le> k then xs ! (k - i) else 0)"
      using i assms(2) by (cases i) (auto simp: nth_butlast nth_append rev_nth min_def)
    then show "cs ! i * (xs ! k # butlast ?h) ! i = cs ! i * (if i \<le> k then xs ! (k - i) else 0)" by simp
  qed
  moreover have "fst (fir_spec (cs, sh, h) x) = sat_int32 (drop_bit (nat (15 + sh)) (dot cs (x # butlast h)))" for h x
    using assms(1) by (simp add: fir_spec_def Let_def)
  ultimately show ?thesis
    unfolding nth_run [OF assms(2)] using fir_history [OF assms(1), of "replicate (length cs) 0" sh "take k xs"] by simp
qed

end
