(* ===== verification/Sof_EQ_FIR.thy ===== *)
theory Sof_EQ_FIR
  imports Sof_EQ Sof_FIR
begin

text \<open>
  The FIR equaliser of \<open>src/audio/eq_fir/eq_fir.c\<close> and \<open>eq_fir_generic.c\<close>: parsing of the configuration
  blob, allocation of the delay lines, the processing functions of the three sample formats and the
  operations of the component.
\<close>

section \<open>Definitions\<close>

datatype eq_fir_func = EQ_FIR_NULL | EQ_FIR_S16 | EQ_FIR_S24 | EQ_FIR_S32 | EQ_FIR_PASSTHROUGH

text \<open>The private data; the number of filters is \<open>PLATFORM_MAX_CHANNELS\<close> of the platform.\<close>

record eq_fir_data =
  fir :: "fir_state_32x16 list"
  model_handler :: addr
  fe_config :: addr
  fir_delay :: addr
  fir_delay_sz :: int
  fir_func :: eq_fir_func

definition SOF_EQ_FIR_MAX_SIZE :: int where "SOF_EQ_FIR_MAX_SIZE = 4096"
definition SOF_EQ_FIR_MAX_RESPONSES :: int where "SOF_EQ_FIR_MAX_RESPONSES = 8"

text \<open>The processing functions of the three formats.\<close>

definition eq_fir_s16 ::
    "fir_state_32x16 list \<Rightarrow> audio_stream \<Rightarrow> audio_stream \<Rightarrow> int \<Rightarrow> int \<Rightarrow> mem \<Rightarrow> (fir_state_32x16 list \<times> mem) option" where
  "eq_fir_s16 fs source sink frames nch m =
     samples_loop (wrap_op (\<lambda>x. s32 (push_bit 16 x)) (\<lambda>z. sat_int16 (Q_SHIFT_RND z 31 15)) fir_32x16)
       W16 W16 nch source sink (s32 (frames * nch)) (r_ptr source) (w_ptr sink) fs m"

definition eq_fir_s24 ::
    "fir_state_32x16 list \<Rightarrow> audio_stream \<Rightarrow> audio_stream \<Rightarrow> int \<Rightarrow> int \<Rightarrow> mem \<Rightarrow> (fir_state_32x16 list \<times> mem) option" where
  "eq_fir_s24 fs source sink frames nch m =
     samples_loop (wrap_op (\<lambda>x. s32 (push_bit 8 x)) (\<lambda>z. sat_int24 (Q_SHIFT_RND z 31 23)) fir_32x16)
       W32 W32 nch source sink (s32 (frames * nch)) (r_ptr source) (w_ptr sink) fs m"

definition eq_fir_s32 ::
    "fir_state_32x16 list \<Rightarrow> audio_stream \<Rightarrow> audio_stream \<Rightarrow> int \<Rightarrow> int \<Rightarrow> mem \<Rightarrow> (fir_state_32x16 list \<times> mem) option" where
  "eq_fir_s32 fs source sink frames nch m =
     samples_loop fir_32x16 W32 W32 nch source sink (s32 (frames * nch)) (r_ptr source) (w_ptr sink) fs m"

definition eq_fir_passthrough ::
    "fir_state_32x16 list \<Rightarrow> audio_stream \<Rightarrow> audio_stream \<Rightarrow> int \<Rightarrow> int \<Rightarrow> mem \<Rightarrow> (fir_state_32x16 list \<times> mem) option" where
  "eq_fir_passthrough fs source sink frames nch m =
     do { (_, m') \<leftarrow> audio_stream_copy source 0 sink 0 (u32 (frames * nch)) m; Some (fs, m') }"

text \<open>The call through \<open>cd->eq_fir_func\<close>; a call through NULL does not return.\<close>

fun call_fir_func ::
    "eq_fir_func \<Rightarrow> fir_state_32x16 list \<Rightarrow> audio_stream \<Rightarrow> audio_stream \<Rightarrow> int \<Rightarrow> int \<Rightarrow> mem \<Rightarrow>
      (fir_state_32x16 list \<times> mem) option" where
  "call_fir_func EQ_FIR_NULL fs source sink frames nch m = None"
| "call_fir_func EQ_FIR_S16 fs source sink frames nch m = eq_fir_s16 fs source sink frames nch m"
| "call_fir_func EQ_FIR_S24 fs source sink frames nch m = eq_fir_s24 fs source sink frames nch m"
| "call_fir_func EQ_FIR_S32 fs source sink frames nch m = eq_fir_s32 fs source sink frames nch m"
| "call_fir_func EQ_FIR_PASSTHROUGH fs source sink frames nch m = eq_fir_passthrough fs source sink frames nch m"

definition set_fir_func :: "int \<Rightarrow> eq_fir_data \<Rightarrow> int \<times> eq_fir_data" where
  "set_fir_func fmt cd =
     (if fmt = SOF_IPC_FRAME_S16_LE then (0, cd\<lparr>fir_func := EQ_FIR_S16\<rparr>)
      else if fmt = SOF_IPC_FRAME_S24_4LE then (0, cd\<lparr>fir_func := EQ_FIR_S24\<rparr>)
      else if fmt = SOF_IPC_FRAME_S32_LE then (0, cd\<lparr>fir_func := EQ_FIR_S32\<rparr>)
      else (- EINVAL, cd))"

definition eq_fir_free_delaylines :: "plat \<Rightarrow> mm \<Rightarrow> eq_fir_data \<Rightarrow> (mm \<times> eq_fir_data) option" where
  "eq_fir_free_delaylines plat mm cd =
     do { mm' \<leftarrow> rfree plat mm (fir_delay cd);
          Some (mm', cd\<lparr>fir_delay := 0, fir_delay_sz := 0, fir := map (\<lambda>f. f\<lparr>fdelay := 0\<rparr>) (fir cd)\<rparr>) }"

text \<open>
  The configuration at address \<open>config\<close>: size (4 bytes), channels and responses (2 bytes each), four
  reserved words, then \<open>int16_t data[]\<close> with the assignments and the responses.
\<close>

definition channels_in_config :: "mem \<Rightarrow> addr \<Rightarrow> int" where
  "channels_in_config m config = u16 (load W16 m (config + 4))"

definition number_of_responses :: "mem \<Rightarrow> addr \<Rightarrow> int" where
  "number_of_responses m config = u16 (load W16 m (config + 6))"

definition assign_response :: "mem \<Rightarrow> addr \<Rightarrow> nat \<Rightarrow> int" where
  "assign_response m config i = load W16 m (config + 24 + 2 * int i)"

text \<open>The start of each response: every response is followed by the next one.\<close>

fun response_starts :: "mem \<Rightarrow> addr \<Rightarrow> nat \<Rightarrow> int \<Rightarrow> addr list" where
  "response_starts m coef_data 0 j = []"
| "response_starts m coef_data (Suc n) j =
     (coef_data + 2 * j) #
     response_starts m coef_data n (j + SOF_FIR_COEF_NHEADER + load W16 m (coef_data + 2 * j))"

definition fir_lookup :: "mem \<Rightarrow> addr \<Rightarrow> addr list" where
  "fir_lookup m config =
     response_starts m (config + 24 + 2 * channels_in_config m config) (nat (number_of_responses m config)) 0"

text \<open>
  The loop over the channels. \<open>limit\<close> is \<open>FIR_MAX_LENGTH_BUILD_SPECIFIC\<close> where the build defines it.
\<close>

fun fir_assign ::
    "int option \<Rightarrow> mem \<Rightarrow> addr \<Rightarrow> int \<Rightarrow> nat \<Rightarrow> nat \<Rightarrow> int \<Rightarrow> int \<Rightarrow> fir_state_32x16 list \<Rightarrow> int \<times> fir_state_32x16 list" where
  "fir_assign limit m config nch 0 i resp delay_sum fs = (delay_sum, fs)"
| "fir_assign limit m config nch (Suc n) i resp delay_sum fs =
     (let resp = (if int i < channels_in_config m config then assign_response m config i else resp)
      in if resp < 0 then fir_assign limit m config nch n (Suc i) resp delay_sum (fs[i := fir_reset (fs ! i)])
         else if resp \<ge> number_of_responses m config then (- EINVAL, fs)
         else
           let eq = fir_lookup m config ! nat resp; s = fir_delay_size m eq
           in if s \<le> 0 then (- EINVAL, fs)
              else if (case limit of None \<Rightarrow> False | Some max_taps \<Rightarrow> taps (fs ! i) * nch > max_taps) then (- EINVAL, fs)
              else fir_assign limit m config nch n (Suc i) resp (delay_sum + s) (fs[i := fir_init_coef m (fs ! i) eq]))"

definition eq_fir_init_coef ::
    "int option \<Rightarrow> mem \<Rightarrow> addr \<Rightarrow> fir_state_32x16 list \<Rightarrow> int \<Rightarrow> int \<times> fir_state_32x16 list" where
  "eq_fir_init_coef limit m config fs nch =
     (if nch > int (length fs) \<or> channels_in_config m config > int (length fs) \<or> channels_in_config m config = 0
      then (- EINVAL, fs)
      else if number_of_responses m config > SOF_EQ_FIR_MAX_RESPONSES then (- EINVAL, fs)
      else fir_assign limit m config nch (nat nch) 0 0 0 fs)"

fun fir_delays :: "nat \<Rightarrow> nat \<Rightarrow> addr \<Rightarrow> fir_state_32x16 list \<Rightarrow> fir_state_32x16 list" where
  "fir_delays 0 i p fs = fs"
| "fir_delays (Suc n) i p fs =
     (if flength (fs ! i) > 0
      then let (f, p') = fir_init_delay (fs ! i) p in fir_delays n (Suc i) p' (fs[i := f])
      else fir_delays n (Suc i) p fs)"

definition eq_fir_init_delay :: "fir_state_32x16 list \<Rightarrow> addr \<Rightarrow> int \<Rightarrow> fir_state_32x16 list" where
  "eq_fir_init_delay fs delay_start nch = fir_delays (nat nch) 0 delay_start fs"

definition eq_fir_setup ::
    "plat \<Rightarrow> int option \<Rightarrow> mm \<Rightarrow> mem \<Rightarrow> eq_fir_data \<Rightarrow> int \<Rightarrow> (int \<times> mm \<times> mem \<times> eq_fir_data) option" where
  "eq_fir_setup plat limit mm m cd nch =
     do { (mm1, cd1) \<leftarrow> eq_fir_free_delaylines plat mm cd;
          let (delay_size, fs) = eq_fir_init_coef limit m (fe_config cd1) (fir cd1) nch;
          let cd2 = cd1\<lparr>fir := fs\<rparr>;
          if delay_size < 0 then Some (delay_size, mm1, m, cd2)
          else if delay_size = 0 then Some (0, mm1, m, cd2)
          else do {
            (p, mm2) \<leftarrow> rballoc plat mm1 0 SOF_MEM_CAPS_RAM delay_size;
            let cd3 = cd2\<lparr>fir_delay := p\<rparr>;
            if p = 0 then Some (- ENOMEM, mm2, m, cd3)
            else Some (0, mm2, memset m p 0 delay_size,
                       cd3\<lparr>fir_delay_sz := delay_size, fir := eq_fir_init_delay fs p nch\<rparr>) } }"

text \<open>The operations of the component.\<close>

definition zero_fir :: fir_state_32x16 where
  "zero_fir = \<lparr>rwi = 0, taps = 0, flength = 0, out_shift = 0, fcoef = 0, fdelay = 0\<rparr>"

definition eq_fir_new ::
    "plat \<Rightarrow> eq_sizes \<Rightarrow> nat \<Rightarrow> mm \<Rightarrow> mem \<Rightarrow> addr \<Rightarrow> comp_ipc_config \<Rightarrow> int \<Rightarrow> addr \<Rightarrow>
      (addr \<times> mm \<times> mem \<times> (comp_dev \<times> comp_data_blob_handler \<times> eq_fir_data) option) option" where
  "eq_fir_new plat sz max_channels mm m drv config bs data =
     eq_new plat sz SOF_EQ_FIR_MAX_SIZE
       (\<lambda>hp. \<lparr>fir = map fir_reset (replicate max_channels zero_fir), model_handler = hp, fe_config = 0,
              fir_delay = 0, fir_delay_sz = 0, fir_func = EQ_FIR_NULL\<rparr>)
       mm m drv config bs data"

definition eq_fir_free :: "plat \<Rightarrow> addr \<Rightarrow> eq_fir_data eq_state \<Rightarrow> eq_fir_data eq_state option" where
  "eq_fir_free plat dev s =
     do { (mm1, cd) \<leftarrow> eq_fir_free_delaylines plat (eq_mm s) (eq_cd s);
          bs \<leftarrow> comp_data_blob_handler_free plat (model_handler cd) (eq_blob (s\<lparr>eq_mm := mm1\<rparr>));
          let s1 = set_blob bs (s\<lparr>eq_cd := cd\<rparr>);
          mm2 \<leftarrow> rfree plat (eq_mm s1) (priv_data (eq_dev s1));
          mm3 \<leftarrow> rfree plat mm2 dev;
          Some (s1\<lparr>eq_mm := mm3\<rparr>) }"

definition fir_cmd_set_data ::
    "plat \<Rightarrow> eq_fir_data eq_state \<Rightarrow> int \<Rightarrow> ctrl_data \<Rightarrow> (int \<times> eq_fir_data eq_state) option" where
  "fir_cmd_set_data = eq_cmd_set_data"

definition fir_cmd_get_data ::
    "eq_fir_data eq_state \<Rightarrow> int \<Rightarrow> ctrl_data \<Rightarrow> int \<Rightarrow> (int \<times> ctrl_data \<times> eq_fir_data eq_state) option" where
  "fir_cmd_get_data = eq_cmd_get_data"

definition eq_fir_cmd ::
    "plat \<Rightarrow> eq_fir_data eq_state \<Rightarrow> int \<Rightarrow> int \<Rightarrow> ctrl_data \<Rightarrow> int \<Rightarrow>
      (int \<times> ctrl_data \<times> eq_fir_data eq_state) option" where
  "eq_fir_cmd = eq_cmd"

definition eq_fir_trigger :: "eq_fir_data eq_state \<Rightarrow> int \<Rightarrow> (int \<times> eq_fir_data eq_state) option" where
  "eq_fir_trigger s cmd =
     do { _ \<leftarrow> (if cmd = COMP_TRIGGER_START \<or> cmd = COMP_TRIGGER_RELEASE
                then c_assert (fir_func (eq_cd s) \<noteq> EQ_FIR_NULL) else Some ());
          Some (eq_set_state s cmd) }"

definition eq_fir_process ::
    "eq_fir_data eq_state \<Rightarrow> addr \<Rightarrow> addr \<Rightarrow> int \<Rightarrow> int \<Rightarrow> int \<Rightarrow> eq_fir_data eq_state option" where
  "eq_fir_process =
     eq_process (\<lambda>source sink frames cd m.
       do { (fs, m') \<leftarrow> call_fir_func (fir_func cd) (fir cd) source sink frames (st_channels source) m;
            Some (cd\<lparr>fir := fs\<rparr>, m') })"

text \<open>A new configuration is taken over at the start of a copy, with the set-up of the filters.\<close>

definition eq_fir_configure ::
    "plat \<Rightarrow> int option \<Rightarrow> eq_fir_data eq_state \<Rightarrow> int \<Rightarrow> (int \<times> eq_fir_data eq_state) option" where
  "eq_fir_configure plat limit s nch =
     do { (ret, mm, m, cd) \<leftarrow> eq_fir_setup plat limit (eq_mm s) (eq_mem s) (eq_cd s) nch;
          Some (ret, s\<lparr>eq_mm := mm, eq_mem := m, eq_cd := cd\<rparr>) }"

definition eq_fir_load_config :: "plat \<Rightarrow> eq_fir_data eq_state \<Rightarrow> eq_fir_data eq_state option" where
  "eq_fir_load_config plat s =
     do { (config, _, _, bs) \<leftarrow> comp_get_data_blob plat (eq_blob s);
          Some (set_blob bs (s\<lparr>eq_cd := (eq_cd s)\<lparr>fe_config := config\<rparr>\<rparr>)) }"

definition eq_fir_copy ::
    "plat \<Rightarrow> int option \<Rightarrow> eq_fir_data eq_state \<Rightarrow> (int \<times> eq_fir_data eq_state) option" where
  "eq_fir_copy plat limit s =
     do { sourceb \<leftarrow> first_buffer (bsource_list (eq_dev s));
          (ret, s1) \<leftarrow> (if comp_is_new_data_blob_available (eq_hand s)
                       then do { s1 \<leftarrow> eq_fir_load_config plat s;
                                 eq_fir_configure plat limit s1 (st_channels (b_stream (eq_bufs s1 sourceb))) }
                       else Some (0, s));
          if ret < 0 then Some (ret, s1)
          else do {
            sinkb \<leftarrow> first_buffer (bsink_list (eq_dev s1));
            cl \<leftarrow> comp_get_copy_limits (b_stream (eq_bufs s1 sourceb)) (b_stream (eq_bufs s1 sinkb));
            if cl_frames cl \<ge> 2
            then do {
              let n = push_bit 1 (drop_bit 1 (cl_frames cl));
              s2 \<leftarrow> eq_fir_process s1 sourceb sinkb n (u32 (n * cl_source_frame_bytes cl)) (u32 (n * cl_sink_frame_bytes cl));
              Some (0, s2) }
            else Some (0, s1) } }"

definition eq_fir_prepare ::
    "plat \<Rightarrow> int option \<Rightarrow> eq_fir_data eq_state \<Rightarrow> (int \<times> eq_fir_data eq_state) option" where
  "eq_fir_prepare plat limit s =
     (let (ret, s1) = eq_set_state s COMP_TRIGGER_PREPARE
      in if ret < 0 then Some (ret, s1)
         else if ret = COMP_STATUS_STATE_ALREADY_SET then Some (PPL_STATUS_PATH_STOP, s1)
         else do {
           sourceb \<leftarrow> first_buffer (bsource_list (eq_dev s1));
           sinkb \<leftarrow> first_buffer (bsink_list (eq_dev s1));
           if st_size (b_stream (eq_bufs s1 sinkb)) < audio_stream_period_bytes (b_stream (eq_bufs s1 sinkb)) (c_frames (eq_dev s1))
           then Some (- ENOMEM, snd (eq_set_state s1 COMP_TRIGGER_RESET))
           else do {
             s2 \<leftarrow> eq_fir_load_config plat s1;
             if fe_config (eq_cd s2) \<noteq> 0
             then do {
               (ret, s3) \<leftarrow> eq_fir_configure plat limit s2 (st_channels (b_stream (eq_bufs s2 sourceb)));
               if ret < 0 then Some (ret, snd (eq_set_state s3 COMP_TRIGGER_RESET))
               else let (ret, cd) = set_fir_func (frame_fmt (b_stream (eq_bufs s3 sourceb))) (eq_cd s3)
                    in Some (ret, s3\<lparr>eq_cd := cd\<rparr>) }
             else Some (ret, s2\<lparr>eq_cd := (eq_cd s2)\<lparr>fir_func := EQ_FIR_PASSTHROUGH\<rparr>\<rparr>) } })"

definition eq_fir_reset :: "plat \<Rightarrow> eq_fir_data eq_state \<Rightarrow> (int \<times> eq_fir_data eq_state) option" where
  "eq_fir_reset plat s =
     do { (mm, cd) \<leftarrow> eq_fir_free_delaylines plat (eq_mm s) (eq_cd s);
          let s1 = s\<lparr>eq_mm := mm, eq_cd := cd\<lparr>fir_func := EQ_FIR_NULL, fir := map fir_reset (fir cd)\<rparr>\<rparr>;
          Some (0, snd (eq_set_state s1 COMP_TRIGGER_RESET)) }"

section \<open>Set-up of the filters\<close>

text \<open>
  The response of a channel: channels behind the assignment map have the response of the last
  assigned one.
\<close>

definition effective_response :: "mem \<Rightarrow> addr \<Rightarrow> nat \<Rightarrow> int" where
  "effective_response m config j = assign_response m config (min j (nat (channels_in_config m config) - 1))"

definition response_at :: "mem \<Rightarrow> addr \<Rightarrow> int \<Rightarrow> addr" where
  "response_at m config r = fir_lookup m config ! nat r"

text \<open>The abstract filter a response describes: a pass-through, or the coefficients with a cleared delay line.\<close>

definition response_filter :: "mem \<Rightarrow> addr \<Rightarrow> int \<Rightarrow> fir_abs" where
  "response_filter m config r =
     (if r < 0 then ([], 0, [])
      else let eq = response_at m config r; n = nat (coef_length m eq)
           in (map (\<lambda>i. load W16 m (eq + 20 + 2 * int i)) [0..<n], coef_shift m eq, replicate n 0))"

definition assigned :: "mem \<Rightarrow> addr \<Rightarrow> int \<Rightarrow> fir_state_32x16 \<Rightarrow> fir_state_32x16" where
  "assigned m config r f =
     (if r < 0 then fir_reset f else fir_init_coef m f (response_at m config r))"

definition response_ok :: "mem \<Rightarrow> addr \<Rightarrow> int \<Rightarrow> bool" where
  "response_ok m config r \<longleftrightarrow> r < 0 \<or>
     (r < number_of_responses m config \<and> 1 \<le> coef_length m (response_at m config r) \<and>
      coef_length m (response_at m config r) \<le> 256)"

lemma assigned_length:
  "response_ok m config r \<Longrightarrow> 0 \<le> flength (assigned m config r f) \<and> flength (assigned m config r f) \<le> 256"
  by (auto simp: response_ok_def assigned_def fir_reset_def fir_init_coef_def)

lemma effective_step:
  assumes "0 < channels_in_config m config" "0 < i \<Longrightarrow> resp = effective_response m config (i - 1)"
  shows "(if int i < channels_in_config m config then assign_response m config i else resp) = effective_response m config i"
  using assms by (auto simp: effective_response_def min_def intro!: arg_cong [where f = "assign_response m config"])

text \<open>The loop over the channels either fails or assigns every channel its response.\<close>

lemma fir_assign_ok:
  assumes "fir_assign limit m config nch n i resp acc fs = (sz, fs')" "0 \<le> sz" "i + n \<le> length fs"
    "0 < channels_in_config m config" "0 < i \<longrightarrow> resp = effective_response m config (i - 1)"
  shows "length fs' = length fs \<and> (\<forall>j. (j < i \<or> i + n \<le> j) \<longrightarrow> fs' ! j = fs ! j) \<and>
    (\<forall>j. i \<le> j \<and> j < i + n \<longrightarrow> response_ok m config (effective_response m config j) \<and>
       fs' ! j = assigned m config (effective_response m config j) (fs ! j)) \<and>
    sz = acc + 4 * (\<Sum>j = i..<i + n. flength (fs' ! j))"
  using assms
proof (induction n arbitrary: i resp acc fs)
  case (Suc n)
  define r where "r = effective_response m config i"
  define f where "f = assigned m config r (fs ! i)"
  have r: "(if int i < channels_in_config m config then assign_response m config i else resp) = r"
    unfolding r_def using Suc.prems(4,5) by (intro effective_step) auto
  have ok: "response_ok m config r" and
    go: "fir_assign limit m config nch n (Suc i) r (acc + 4 * flength f) (fs[i := f]) = (sz, fs')"
    using Suc.prems(1,2) unfolding fir_assign.simps r
    by (auto simp: Let_def f_def assigned_def response_ok_def response_at_def fir_reset_def fir_delay_size_def
        SOF_FIR_MAX_LENGTH_def fir_init_coef_def EINVAL_def mult.commute split: if_splits)
  have ih: "length fs' = length (fs[i := f]) \<and> (\<forall>j. (j < Suc i \<or> Suc i + n \<le> j) \<longrightarrow> fs' ! j = fs[i := f] ! j) \<and>
      (\<forall>j. Suc i \<le> j \<and> j < Suc i + n \<longrightarrow> response_ok m config (effective_response m config j) \<and>
         fs' ! j = assigned m config (effective_response m config j) (fs[i := f] ! j)) \<and>
      sz = acc + 4 * flength f + 4 * (\<Sum>j = Suc i..<Suc i + n. flength (fs' ! j))"
    by (rule Suc.IH [OF go Suc.prems(2)]) (use Suc.prems(3,4) in \<open>simp_all add: r_def\<close>)
  then have fi: "fs' ! i = f" using Suc.prems(3) by simp
  have "(\<Sum>j = i..<i + Suc n. flength (fs' ! j)) = flength f + (\<Sum>j = Suc i..<Suc i + n. flength (fs' ! j))"
    using fi by (simp add: sum.atLeast_Suc_lessThan)
  moreover have "fs' ! j = assigned m config (effective_response m config j) (fs ! j) \<and>
      response_ok m config (effective_response m config j)" if "i \<le> j" "j < i + Suc n" for j
    using that ih fi ok by (cases "j = i") (auto simp: f_def r_def)
  ultimately show ?case using ih by auto
qed auto

text \<open>The delay lines are laid out one behind the other.\<close>

lemma fir_delays_layout:
  assumes "i + n \<le> length fs" "\<forall>j < i + n. 0 \<le> flength (fs ! j)"
  shows "length (fir_delays n i p fs) = length fs \<and> (\<forall>j. (j < i \<or> i + n \<le> j) \<longrightarrow> fir_delays n i p fs ! j = fs ! j) \<and>
    (\<forall>j. i \<le> j \<and> j < i + n \<longrightarrow> fir_delays n i p fs ! j =
      (if flength (fs ! j) > 0 then (fs ! j)\<lparr>fdelay := p + 4 * (\<Sum>l = i..<j. flength (fs ! l))\<rparr> else fs ! j))"
  using assms
proof (induction n arbitrary: i p fs)
  case (Suc n)
  let ?l = "flength (fs ! i)"
  define gs where "gs = fs[i := (if ?l > 0 then (fs ! i)\<lparr>fdelay := p\<rparr> else fs ! i)]"
  have i: "i < length fs" "0 \<le> ?l" using Suc.prems by auto
  have go: "fir_delays (Suc n) i p fs = fir_delays n (Suc i) (p + 4 * ?l) gs"
    using i by (auto simp: gs_def fir_init_delay_def)
  have fl: "flength (gs ! j) = flength (fs ! j)" for j using i(1) by (auto simp: gs_def nth_list_update)
  have len: "length gs = length fs" by (simp add: gs_def)
  let ?D = "fir_delays n (Suc i) (p + 4 * ?l) gs"
  have ih: "length ?D = length fs" "\<And>j. j < Suc i \<or> Suc i + n \<le> j \<Longrightarrow> ?D ! j = gs ! j"
      "\<And>j. Suc i \<le> j \<Longrightarrow> j < Suc i + n \<Longrightarrow> ?D ! j =
        (if flength (fs ! j) > 0 then (gs ! j)\<lparr>fdelay := p + 4 * ?l + 4 * (\<Sum>l = Suc i..<j. flength (fs ! l))\<rparr> else gs ! j)"
    using Suc.IH [of "Suc i" gs "p + 4 * ?l", unfolded fl len] Suc.prems by auto
  have gs: "gs ! j = fs ! j" if "j \<noteq> i" for j using that by (simp add: gs_def)
  have "?D ! j = (if flength (fs ! j) > 0 then (fs ! j)\<lparr>fdelay := p + 4 * (\<Sum>l = i..<j. flength (fs ! l))\<rparr> else fs ! j)"
    if "i \<le> j" "j < i + Suc n" for j
  proof (cases "j = i")
    case True
    then show ?thesis using ih(2) [of i] i(1) by (simp add: gs_def)
  next
    case False
    then have "Suc i \<le> j" "j < Suc i + n" "(\<Sum>l = i..<j. flength (fs ! l)) = ?l + (\<Sum>l = Suc i..<j. flength (fs ! l))"
      using that by (auto simp: sum.atLeast_Suc_lessThan)
    then show ?thesis using ih(3) [of j] gs [OF False] by (simp add: algebra_simps)
  qed
  moreover have "?D ! j = fs ! j" if "j < i \<or> i + Suc n \<le> j" for j using that ih(2) [of j] gs [of j] by auto
  ultimately show ?case unfolding go using ih(1) by blast
qed auto

text \<open>A filter with its response and a cleared delay line is the filter the response describes.\<close>

definition coef_area :: "mem \<Rightarrow> addr \<Rightarrow> int \<Rightarrow> addr set" where
  "coef_area m config r =
     (let eq = response_at m config r in if r < 0 then {} else {eq + 20..<eq + 20 + 2 * coef_length m eq})"

definition shift_ok :: "mem \<Rightarrow> addr \<Rightarrow> int \<Rightarrow> bool" where
  "shift_ok m config r \<longleftrightarrow>
     r < 0 \<or> (- 15 \<le> coef_shift m (response_at m config r) \<and> coef_shift m (response_at m config r) < 49)"

lemma filter_rel:
  assumes f: "f = assigned m config r f0" and ok: "response_ok m config r" "shift_ok m config r"
    and g: "g = (if flength f > 0 then f\<lparr>fdelay := q\<rparr> else f)" and D: "fir_own g \<subseteq> D" "coef_area m config r \<inter> D = {}"
    and m': "\<And>p. p \<in> D \<Longrightarrow> m' p = 0" "\<And>p. p \<notin> D \<Longrightarrow> m' p = m p"
  shows "fir_rel g m' (response_filter m config r)" "fir_uses g \<subseteq> fir_own g \<union> coef_area m config r"
proof -
  let ?eq = "response_at m config r"
  show "fir_uses g \<subseteq> fir_own g \<union> coef_area m config r"
    using f g ok(1) D(1) unfolding fir_uses_def
    by (auto simp: assigned_def fir_reset_def fir_init_coef_def response_ok_def coef_area_def Let_def SOF_FIR_COEF_NHEADER_def split: if_splits)
  show "fir_rel g m' (response_filter m config r)"
  proof (cases "r < 0")
    case True
    then show ?thesis using f g by (simp add: assigned_def fir_reset_def response_filter_def fir_rel_def)
  next
    case False
    let ?n = "nat (coef_length m ?eq)"
    have n: "0 < coef_length m ?eq" "coef_length m ?eq \<le> 256" using ok(1) False by (auto simp: response_ok_def)
    have gf: "flength g = coef_length m ?eq" "rwi g = 0" "out_shift g = coef_shift m ?eq" "fcoef g = ?eq + 20"
      using f g False n by (auto simp: assigned_def fir_init_coef_def SOF_FIR_COEF_NHEADER_def)
    have area: "coef_area m config r = {fcoef g..<fcoef g + 2 * flength g}" using False gf by (simp add: coef_area_def Let_def)
    have "load W16 m' (fcoef g + 2 * int i) = load W16 m (fcoef g + 2 * int i)" if "i < ?n" for i
    proof (rule load_cong)
      fix p assume "p \<in> cell W16 (fcoef g + 2 * int i)"
      then have "p \<in> coef_area m config r" using that gf(1) area by (auto simp: cell_def)
      then show "m' p = m p" using D(2) m'(2) by blast
    qed
    moreover have "load W32 m' (fdelay g + 4 * ((rwi g - 1 - int i) mod flength g)) = 0" for i
    proof -
      have "cell W32 (fdelay g + 4 * ((rwi g - 1 - int i) mod flength g)) \<subseteq> D"
        using aged_cell [of g _ "Suc i"] n gf(1) D(1) by (force simp: aged_def algebra_simps)
      then have "load W32 m' (fdelay g + 4 * ((rwi g - 1 - int i) mod flength g)) = load W32 (\<lambda>_. 0) (fdelay g + 4 * ((rwi g - 1 - int i) mod flength g))"
        using m'(1) by (intro load_cong) auto
      then show ?thesis by (simp add: s32_def)
    qed
    moreover have "{fcoef g..<fcoef g + 2 * flength g} \<inter> fir_own g = {}" using area D by blast
    ultimately show ?thesis using False n ok(2) gf
      by (simp add: fir_rel_def response_filter_def Let_def shift_ok_def)
  qed
qed

text \<open>Reading the configuration, when it succeeds.\<close>

lemma init_coef_form:
  assumes "eq_fir_init_coef limit m c fs0 (int nch) = (sz, fs)" "0 \<le> sz"
  shows "nch \<le> length fs0" "length fs = length fs0" "sz = 4 * (\<Sum>l < nch. flength (fs ! l))"
    "\<And>j. j < nch \<Longrightarrow> response_ok m c (effective_response m c j)"
    "\<And>j. j < nch \<Longrightarrow> fs ! j = assigned m c (effective_response m c j) (fs0 ! j)"
    "\<And>j. j < nch \<Longrightarrow> 0 \<le> flength (fs ! j)"
proof -
  show cfg: "nch \<le> length fs0"
    using assms by (auto simp: eq_fir_init_coef_def EINVAL_def split: if_splits)
  have cfg': "0 < channels_in_config m c" "fir_assign limit m c (int nch) nch 0 0 0 fs0 = (sz, fs)"
    using assms u16_range [of "load W16 m (c + 4)"]
    by (auto simp: eq_fir_init_coef_def EINVAL_def channels_in_config_def split: if_splits)
  show "length fs = length fs0" "sz = 4 * (\<Sum>l < nch. flength (fs ! l))"
    "\<And>j. j < nch \<Longrightarrow> response_ok m c (effective_response m c j)"
    "\<And>j. j < nch \<Longrightarrow> fs ! j = assigned m c (effective_response m c j) (fs0 ! j)"
    using fir_assign_ok [OF cfg'(2) assms(2) _ cfg'(1)] cfg by (auto simp: atLeast0LessThan)
  then show "\<And>j. j < nch \<Longrightarrow> 0 \<le> flength (fs ! j)" using assigned_length by metis
qed

text \<open>What a successful set-up has done.\<close>

lemma setup_form:
  assumes "eq_fir_setup plat limit mm m cd (int nch) = Some (0, mm', m', cd')"
  obtains fs where "nch \<le> length fs" "length (fir cd') = length fs"
    "\<And>j. j < nch \<Longrightarrow> response_ok m (fe_config cd) (effective_response m (fe_config cd) j)"
    "\<And>j. j < nch \<Longrightarrow> \<exists>f0. fs ! j = assigned m (fe_config cd) (effective_response m (fe_config cd) j) f0"
    "\<And>j. j < nch \<Longrightarrow> fir cd' ! j =
      (if flength (fs ! j) > 0 then (fs ! j)\<lparr>fdelay := fir_delay cd' + 4 * (\<Sum>l < j. flength (fs ! l))\<rparr> else fs ! j)"
    "fir_delay_sz cd' = 4 * (\<Sum>l < nch. flength (fs ! l))"
    "m' = (if fir_delay_sz cd' = 0 then m else memset m (fir_delay cd') 0 (fir_delay_sz cd'))"
proof -
  let ?c = "fe_config cd" and ?fs0 = "map (\<lambda>f. f\<lparr>fdelay := 0\<rparr>) (fir cd)"
  obtain mm1 where fr: "rfree plat mm (fir_delay cd) = Some mm1"
    using assms by (auto simp: eq_fir_setup_def eq_fir_free_delaylines_def split: bind_splits)
  obtain sz fs where ic: "eq_fir_init_coef limit m ?c ?fs0 (int nch) = (sz, fs)" by (cases "eq_fir_init_coef limit m ?c ?fs0 (int nch)")
  note st = assms [unfolded eq_fir_setup_def eq_fir_free_delaylines_def, simplified fr, simplified, simplified ic, simplified, unfolded Let_def]
  have sz: "0 \<le> sz" using st by (auto split: if_splits)
  note as = init_coef_form [OF ic sz]
  have nn: "\<forall>j < nch. 0 \<le> flength (fs ! j)" using as(6) by blast
  show thesis
  proof (cases "sz = 0")
    case True
    then have cd': "cd' = cd\<lparr>fir_delay := 0, fir_delay_sz := 0, fir := fs\<rparr>" "m' = m" using st by auto
    have "flength (fs ! j) = 0" if "j < nch" for j
      using as(3) True nn that sum_nonneg_0 [of "{..<nch}" "\<lambda>l. flength (fs ! l)" j] by auto
    then show thesis by (intro that [of fs]) (use as cd' True in auto)
  next
    case False
    then obtain p where cd': "cd' = cd\<lparr>fir_delay := p, fir_delay_sz := sz, fir := eq_fir_init_delay fs p (int nch)\<rparr>"
        "m' = memset m p 0 sz" using st sz by (auto simp: ENOMEM_def split: if_splits bind_splits)
    have lay: "length (fir cd') = length fs" "\<And>j. j < nch \<Longrightarrow> fir cd' ! j =
        (if flength (fs ! j) > 0 then (fs ! j)\<lparr>fdelay := fir_delay cd' + 4 * (\<Sum>l < j. flength (fs ! l))\<rparr> else fs ! j)"
      using fir_delays_layout [of 0 nch fs p] nn as(1,2) by (auto simp: cd' eq_fir_init_delay_def atLeast0LessThan)
    show thesis by (rule that [of fs]) (use as lay cd' False in auto)
  qed
qed

lemma sum_prefix:
  fixes g :: "nat \<Rightarrow> int"
  assumes "i < j" "\<And>l. l < j \<Longrightarrow> 0 \<le> g l"
  shows "(\<Sum>l < i. g l) + g i \<le> (\<Sum>l < j. g l)"
proof -
  have "(\<Sum>l < Suc i. g l) \<le> (\<Sum>l < j. g l)" using assms by (intro sum_mono2) auto
  then show ?thesis by simp
qed

definition delay_area :: "eq_fir_data \<Rightarrow> addr set" where
  "delay_area cd = {fir_delay cd..<fir_delay cd + fir_delay_sz cd}"

lemma setup_areas:
  assumes st: "eq_fir_setup plat limit mm m cd (int nch) = Some (0, mm', m', cd')"
  shows "j < nch \<Longrightarrow> fir_own (fir cd' ! j) \<subseteq> delay_area cd'"
    and "j < nch \<Longrightarrow> i < nch \<Longrightarrow> i \<noteq> j \<Longrightarrow> fir_own (fir cd' ! j) \<inter> fir_own (fir cd' ! i) = {}"
proof -
  obtain fs where fs: "\<And>j. j < nch \<Longrightarrow> response_ok m (fe_config cd) (effective_response m (fe_config cd) j)"
    "\<And>j. j < nch \<Longrightarrow> \<exists>f0. fs ! j = assigned m (fe_config cd) (effective_response m (fe_config cd) j) f0"
    "\<And>j. j < nch \<Longrightarrow> fir cd' ! j =
      (if flength (fs ! j) > 0 then (fs ! j)\<lparr>fdelay := fir_delay cd' + 4 * (\<Sum>l < j. flength (fs ! l))\<rparr> else fs ! j)"
    "fir_delay_sz cd' = 4 * (\<Sum>l < nch. flength (fs ! l))"
    by (rule setup_form [OF st]) blast
  have nn: "0 \<le> flength (fs ! l)" if "l < nch" for l using fs(1,2) [OF that] assigned_length by metis
  let ?S = "\<lambda>j. \<Sum>l < j. flength (fs ! l)"
  have own: "fir_own (fir cd' ! j) = {fir_delay cd' + 4 * ?S j..<fir_delay cd' + 4 * (?S j + flength (fs ! j))}
      \<or> fir_own (fir cd' ! j) = {}" if "j < nch" for j
    using fs(3) [OF that] nn [OF that] by (auto simp: fir_own_def algebra_simps)
  have S: "0 \<le> ?S j" if "j \<le> nch" for j using that nn by (intro sum_nonneg) auto
  have mono: "?S i + flength (fs ! i) \<le> ?S j" if "i < j" "j \<le> nch" for i j
    using that nn by (intro sum_prefix) auto
  show "fir_own (fir cd' ! j) \<subseteq> delay_area cd'" if "j < nch"
    using own [OF that] S [of j] mono [OF that order_refl] that fs(4) by (auto simp: delay_area_def)
  show "fir_own (fir cd' ! j) \<inter> fir_own (fir cd' ! i) = {}" if "j < nch" "i < nch" "i \<noteq> j"
    using own [OF that(1)] own [OF that(2)] mono [of i j] mono [of j i] that by (cases "i < j") auto
qed

text \<open>
  C11: a set-up that returns 0 leaves a well-typed filter in every channel of the stream. The channel
  is the filter its response in the blob describes, with a cleared delay line; channels behind the
  assignment map have the response of the last assigned channel. Each delay line lies inside the one
  allocation, and no filter writes to what another filter reads. The hypotheses are that the shifts of
  the assigned responses are defined in C, that the allocator did not return memory of the blob, and
  that the allocation lies in the 32-bit address space.
\<close>

theorem eq_fir_setup_well_formed:
  assumes st: "eq_fir_setup plat limit mm m cd (int nch) = Some (0, mm', m', cd')"
    and addr: "0 \<le> fir_delay cd'" "fir_delay cd' + fir_delay_sz cd' + 4 \<le> 4294967296"
    and resp: "\<forall>j < nch. shift_ok m (fe_config cd) (effective_response m (fe_config cd) j) \<and>
      coef_area m (fe_config cd) (effective_response m (fe_config cd) j) \<inter> delay_area cd' = {}"
  shows "nch \<le> length (fir cd') \<and>
    (\<forall>j < nch. fir_rel (fir cd' ! j) m' (response_filter m (fe_config cd) (effective_response m (fe_config cd) j)) \<and>
       fir_own (fir cd' ! j) \<subseteq> delay_area cd' \<and>
       fir_uses (fir cd' ! j) \<subseteq> fir_own (fir cd' ! j) \<union> coef_area m (fe_config cd) (effective_response m (fe_config cd) j) \<and>
       (\<forall>i < nch. i \<noteq> j \<longrightarrow> fir_own (fir cd' ! j) \<inter> fir_uses (fir cd' ! i) = {}))"
proof -
  let ?c = "fe_config cd" and ?r = "\<lambda>j. effective_response m (fe_config cd) j"
  obtain fs where fs: "nch \<le> length fs" "length (fir cd') = length fs"
    "\<And>j. j < nch \<Longrightarrow> response_ok m ?c (?r j)" "\<And>j. j < nch \<Longrightarrow> \<exists>f0. fs ! j = assigned m ?c (?r j) f0"
    "\<And>j. j < nch \<Longrightarrow> fir cd' ! j =
      (if flength (fs ! j) > 0 then (fs ! j)\<lparr>fdelay := fir_delay cd' + 4 * (\<Sum>l < j. flength (fs ! l))\<rparr> else fs ! j)"
    "fir_delay_sz cd' = 4 * (\<Sum>l < nch. flength (fs ! l))"
    "m' = (if fir_delay_sz cd' = 0 then m else memset m (fir_delay cd') 0 (fir_delay_sz cd'))"
    by (rule setup_form [OF st]) blast
  have "0 \<le> flength (fs ! l)" if "l < nch" for l using fs(3,4) [OF that] assigned_length by metis
  then have "0 \<le> fir_delay_sz cd'" unfolding fs(6) by (intro mult_nonneg_nonneg sum_nonneg) auto
  then have m': "m' = mem_set m (fir_delay cd') 0 (fir_delay_sz cd')"
    using fs(7) memset_is_fill [OF addr(1,2), of m 0] by (auto simp: u8_def mem_set_def)
  have rel: "fir_rel (fir cd' ! j) m' (response_filter m ?c (?r j)) \<and> fir_uses (fir cd' ! j) \<subseteq> fir_own (fir cd' ! j) \<union> coef_area m ?c (?r j)"
    if j: "j < nch" for j
  proof -
    obtain f0 where f0: "fs ! j = assigned m ?c (?r j) f0" using fs(4) [OF j] ..
    have "\<And>p. p \<in> delay_area cd' \<Longrightarrow> m' p = 0" "\<And>p. p \<notin> delay_area cd' \<Longrightarrow> m' p = m p"
      unfolding m' by (auto simp: delay_area_def mem_set_def)
    then show ?thesis
      using filter_rel [OF f0 fs(3) [OF j] _ fs(5) [OF j] setup_areas(1) [OF st j], of m'] resp j by blast
  qed
  have "fir_own (fir cd' ! j) \<inter> fir_uses (fir cd' ! i) = {}" if "j < nch" "i < nch" "i \<noteq> j" for i j
    using setup_areas [OF st] rel [OF that(2)] resp that by blast
  then show ?thesis using fs(1,2) setup_areas(1) [OF st] rel by auto
qed

section \<open>The processing functions\<close>

text \<open>The sample width of a processing function and its conversions to and from 32 bits.\<close>

fun fir_width :: "eq_fir_func \<Rightarrow> width" where
  "fir_width EQ_FIR_S16 = W16"
| "fir_width _ = W32"

fun fir_pre :: "eq_fir_func \<Rightarrow> int \<Rightarrow> int" where
  "fir_pre EQ_FIR_S16 x = s32 (push_bit 16 x)"
| "fir_pre EQ_FIR_S24 x = s32 (push_bit 8 x)"
| "fir_pre _ x = x"

fun fir_post :: "eq_fir_func \<Rightarrow> int \<Rightarrow> int" where
  "fir_post EQ_FIR_S16 z = sat_int16 (Q_SHIFT_RND z 31 15)"
| "fir_post EQ_FIR_S24 z = sat_int24 (Q_SHIFT_RND z 31 23)"
| "fir_post _ z = z"

definition fir_response :: "int list \<Rightarrow> int \<Rightarrow> int list \<Rightarrow> nat \<Rightarrow> int" where
  "fir_response cs sh xs k =
     (if cs = [] then xs ! k else sat_int32 (drop_bit (nat (15 + sh)) (convolution cs xs k)))"

lemma fir_passes: "fst (run fir_spec ([], sh, h) xs) = xs"
  by (induction xs) (simp_all add: fir_spec_def)

lemma run_response:
  "k < length xs \<Longrightarrow> fst (run fir_spec (cs, sh, replicate (length cs) 0) xs) ! k = fir_response cs sh xs k"
  by (cases "cs = []") (simp_all add: fir_response_def fir_passes fir_convolution)

lemma response_s32: "is_s32 (xs ! k) \<Longrightarrow> is_s32 (fir_response cs sh xs k)"
  by (auto simp: fir_response_def sat_int32_clamp clamp_def)

lemma post_in_width: "func \<noteq> EQ_FIR_S16 \<longrightarrow> is_s32 z \<Longrightarrow> in_width (fir_width func) (fir_post func z)"
  by (cases func) (auto simp: sat_int16_clamp sat_int24_clamp clamp_def)

lemma fir_conversions:
  "fir_pre EQ_FIR_S16 = (\<lambda>x. s32 (push_bit 16 x))" "fir_post EQ_FIR_S16 = (\<lambda>z. sat_int16 (Q_SHIFT_RND z 31 15))"
  "fir_pre EQ_FIR_S24 = (\<lambda>x. s32 (push_bit 8 x))" "fir_post EQ_FIR_S24 = (\<lambda>z. sat_int24 (Q_SHIFT_RND z 31 23))"
  "fir_pre EQ_FIR_S32 = (\<lambda>x. x)" "fir_post EQ_FIR_S32 = (\<lambda>z. z)"
  by (simp_all add: fun_eq_iff)

lemma fir_func_loop:
  assumes "func \<noteq> EQ_FIR_NULL" "func \<noteq> EQ_FIR_PASSTHROUGH"
  shows "call_fir_func func fs source sink frames nch m =
    samples_loop (wrap_op (fir_pre func) (fir_post func) fir_32x16) (fir_width func) (fir_width func) nch source sink
      (s32 (frames * nch)) (r_ptr source) (w_ptr sink) fs m"
proof -
  have "wrap_op (\<lambda>x. x) (\<lambda>x. x) fir_32x16 = fir_32x16" by (intro ext) (simp add: wrap_op_def)
  then show ?thesis using assms by (cases func) (simp_all add: eq_fir_s16_def eq_fir_s24_def eq_fir_s32_def fir_conversions)
qed

text \<open>Every processing function meets the contract of a channel computation.\<close>

interpretation fir_fmt: channel_op "wrap_op (fir_pre func) (fir_post func) fir_32x16" "fir_width func"
    "wrap_spec (fir_pre func) (fir_post func) fir_spec" fir_rel fir_own fir_uses for func
proof (rule fir_ch.wrapped)
  show "in_width (fir_width func) x \<Longrightarrow> in_width W32 (fir_pre func x)" for x
    using s32_range by (cases func) auto
qed

text \<open>
  C3: each of the three processing functions returns and computes, for every channel and frame, the
  saturated convolution of the channel's input with its coefficients, converted from and to the sample
  format; a channel without a response passes its converted input. The chunks between the wrap points
  of the two rings and the order of the channels do not matter. The hypotheses are well-formed streams
  on frame boundaries with \<open>F\<close> frames available and free, filters with a cleared delay line, and
  memory of the filters apart from the streams and from each other.
\<close>

theorem eq_fir_convolves:
  assumes fmt: "func \<noteq> EQ_FIR_NULL" "func \<noteq> EQ_FIR_PASSTHROUGH"
    and streams: "stream_wf source" "stream_wf sink" "0 < nch" "nch \<le> length fs"
    and aligned: "frame_aligned source (fir_width func) nch (r_ptr source)" "frame_aligned sink (fir_width func) nch (w_ptr sink)"
    and room: "wbytes (fir_width func) * int (nch * F) \<le> st_avail source" "wbytes (fir_width func) * int (nch * F) \<le> st_free sink"
    and apart: "separate nch (map fir_own fs) (map fir_uses fs) {p. in_ring source p} {p. in_ring sink p}"
    and filters: "\<forall>j < nch. fir_rel (fs ! j) m (cs j, sh j, replicate (length (cs j)) 0)"
  shows "\<exists>fs' m'. call_fir_func func fs source sink (int F) (int nch) m = Some (fs', m') \<and>
    (\<forall>j < nch. \<forall>k < F. load (fir_width func) m' (ring_slot sink (fir_width func) nch (w_ptr sink) j k) =
       fir_post func (fir_response (cs j) (sh j)
         (map (fir_pre func) (channel_in (fir_width func) m (ring_slot source (fir_width func) nch (r_ptr source) j) F)) k))"
proof -
  let ?w = "fir_width func"
  let ?x = "\<lambda>j. channel_in ?w m (ring_slot source ?w nch (r_ptr source) j) F"
  have sz: "wbytes ?w * int (nch * F) \<le> st_size source" "wbytes ?w * int (nch * F) \<le> st_size sink"
    using room streams(1,2) by (auto simp: stream_wf_def)
  have "1 * int (nch * F) \<le> wbytes ?w * int (nch * F)" by (intro mult_right_mono) (cases func; simp)+
  then have "int (nch * F) < 2147483648" using sz(1) streams(1) by (simp add: stream_wf_def)
  then have "s32 (int (nch * F)) = int (nch * F)"
    using of_nat_0_le_iff [of "nch * F"] by (intro s32_id conjI) linarith+
  then have rem: "s32 (int F * int nch) = int (nch * F)" by (simp add: mult.commute)
  obtain fs' m' where r: "samples_loop (wrap_op (fir_pre func) (fir_post func) fir_32x16) ?w ?w (int nch) source sink
        (int (nch * F)) (r_ptr source) (w_ptr sink) fs m = Some (fs', m')"
      "fir_fmt.channel_result func ?w {..<nch} (\<lambda>j. (cs j, sh j, replicate (length (cs j)) 0)) ?x F
        (ring_slot sink ?w nch (w_ptr sink)) fs m fs' m'"
    using fir_fmt.samples_ok [OF streams(3,1,2,4) aligned apart filters sz] by blast
  have "load ?w m' (ring_slot sink ?w nch (w_ptr sink) j k) =
      fir_post func (fir_response (cs j) (sh j) (map (fir_pre func) (?x j)) k)" if "j < nch" "k < F" for j k
  proof -
    have "is_s32 (map (fir_pre func) (?x j) ! k)" if "func \<noteq> EQ_FIR_S16"
      using that fmt \<open>k < F\<close> load_in_width [of W32] s32_range by (cases func) (auto simp: channel_in_def)
    then have "in_width ?w (fir_post func (fir_response (cs j) (sh j) (map (fir_pre func) (?x j)) k))"
      using response_s32 by (intro post_in_width) blast
    moreover have "load ?w m' (ring_slot sink ?w nch (w_ptr sink) j k) =
        trunc ?w (fst (run (wrap_spec (fir_pre func) (fir_post func) fir_spec) (cs j, sh j, replicate (length (cs j)) 0) (?x j)) ! k)"
      using r(2) that by (simp add: fir_fmt.channel_result_def)
    ultimately show ?thesis using that(2) by (simp add: run_wrap run_response trunc_in_width)
  qed
  then show ?thesis using r(1) fir_func_loop [OF fmt] rem by auto
qed

section \<open>A failed set-up\<close>

lemma fir_assign_errors:
  "0 \<le> acc \<Longrightarrow> fst (fir_assign limit m config nch n i resp acc fs) = - EINVAL \<or>
     0 \<le> fst (fir_assign limit m config nch n i resp acc fs)"
proof (induction n arbitrary: i resp acc fs)
  case (Suc n)
  then show ?case by (simp add: Let_def fir_delay_size_def EINVAL_def)
qed simp

lemma init_coef_errors: "eq_fir_init_coef limit m c fs nch = (sz, fs') \<Longrightarrow> sz = - EINVAL \<or> 0 \<le> sz"
  using fir_assign_errors [of 0 limit m c nch "nat nch" 0 0 fs]
  by (auto simp: eq_fir_init_coef_def split: if_splits)

text \<open>
  C19: a set-up that fails for lack of memory leaves the processing function installed and at least
  one channel with an active filter whose delay line is NULL: the next sample of that channel is
  stored at address 0. The component only reports the error of that one copy.
\<close>

theorem eq_fir_setup_failure_dangles:
  assumes st: "eq_fir_setup plat limit mm m cd (int nch) = Some (- ENOMEM, mm', m', cd')"
    and sh: "\<forall>j < nch. shift_ok m (fe_config cd) (effective_response m (fe_config cd) j)"
  shows "fir_func cd' = fir_func cd \<and>
    (\<exists>j < nch. 0 < flength (fir cd' ! j) \<and> fdelay (fir cd' ! j) = 0 \<and>
      (\<forall>x. \<exists>z f. fir_32x16 (fir cd' ! j) m' x = Some (z, f, store W32 m' 0 x)))"
proof -
  let ?c = "fe_config cd" and ?fs0 = "map (\<lambda>f. f\<lparr>fdelay := 0\<rparr>) (fir cd)"
  obtain mm1 where fr: "rfree plat mm (fir_delay cd) = Some mm1"
    using st by (auto simp: eq_fir_setup_def eq_fir_free_delaylines_def split: bind_splits)
  obtain sz fs where ic: "eq_fir_init_coef limit m ?c ?fs0 (int nch) = (sz, fs)" by (cases "eq_fir_init_coef limit m ?c ?fs0 (int nch)")
  note st' = st [unfolded eq_fir_setup_def eq_fir_free_delaylines_def, simplified fr, simplified, simplified ic, simplified, unfolded Let_def]
  have sz: "0 < sz" and cd': "m' = m" "fir cd' = fs" "fir_func cd' = fir_func cd"
    using st' init_coef_errors [OF ic] by (auto simp: EINVAL_def ENOMEM_def split: if_splits bind_splits)
  note as = init_coef_form [OF ic less_imp_le [OF sz]]
  have "\<exists>j < nch. flength (fs ! j) \<noteq> 0"
  proof (rule ccontr)
    assume "\<not> (\<exists>j < nch. flength (fs ! j) \<noteq> 0)"
    then have "(\<Sum>l < nch. flength (fs ! l)) = 0" by (intro sum.neutral) simp
    with as(3) sz show False by simp
  qed
  then obtain j where j: "j < nch" "0 < flength (fs ! j)" using as(6) by (metis order_le_less)
  let ?r = "effective_response m ?c j"
  have r: "0 \<le> ?r" using j(2) as(5) [OF j(1)] by (auto simp: assigned_def fir_reset_def split: if_splits)
  then have f: "fs ! j = fir_init_coef m (?fs0 ! j) (response_at m ?c ?r)" using as(5) [OF j(1)] by (simp add: assigned_def)
  have z: "fdelay (fs ! j) = 0" "rwi (fs ! j) = 0" using f j(1) as(1) by (simp_all add: fir_init_coef_def)
  have "0 \<le> 15 + out_shift (fs ! j)" "15 + out_shift (fs ! j) < 64"
    using sh j(1) r f by (auto simp: shift_ok_def fir_init_coef_def)
  then have "\<exists>z g. fir_32x16 (fs ! j) m x = Some (z, g, store W32 m 0 x)" for x
    using j(2) z by (auto simp: fir_32x16_def fir_out_def Let_def)
  then show ?thesis using j z(1) cd' by auto
qed

section \<open>An example configuration\<close>

text \<open>
  A blob at address 100 for two channels with one response of two taps: the first channel has the
  response, the second one passes its input.
\<close>

definition demo_fir_blob :: mem where
  "demo_fir_blob = (\<lambda>_. 0)(104 := 2, 106 := 1, 126 := 255, 127 := 255, 128 := 2, 149 := 64, 151 := 32)"

definition demo_eq_fir :: eq_fir_data where
  "demo_eq_fir = \<lparr>fir = [zero_fir, zero_fir], model_handler = 0, fe_config = 100, fir_delay = 0, fir_delay_sz = 0,
     fir_func = EQ_FIR_S16\<rparr>"

lemma demo_setup:
  "case eq_fir_setup demo_plat None demo_mm demo_fir_blob demo_eq_fir 2 of None \<Rightarrow> False
   | Some (r, mm, m, cd) \<Rightarrow> r = 0 \<and> fir_delay cd = 4096 \<and> fir_delay_sz cd = 8"
  by code_simp

lemma demo_responses:
  "effective_response demo_fir_blob 100 0 = 0" "effective_response demo_fir_blob 100 (Suc 0) = - 1"
  "response_at demo_fir_blob 100 0 = 128" "coef_length demo_fir_blob 128 = 2" "coef_shift demo_fir_blob 128 = 0"
  "response_filter demo_fir_blob 100 0 = ([16384, 8192], 0, [0, 0])" "response_filter demo_fir_blob 100 (- 1) = ([], 0, [])"
  by code_simp+

theorem eq_fir_setup_well_formed_witness:
  "\<exists>mm' m' cd'. eq_fir_setup demo_plat None demo_mm demo_fir_blob demo_eq_fir 2 = Some (0, mm', m', cd') \<and>
     fir_rel (fir cd' ! 0) m' ([16384, 8192], 0, [0, 0]) \<and> fir_rel (fir cd' ! 1) m' ([], 0, []) \<and>
     fir_own (fir cd' ! 0) \<subseteq> {4096..<4104}"
proof -
  obtain mm' m' cd' where st: "eq_fir_setup demo_plat None demo_mm demo_fir_blob demo_eq_fir 2 = Some (0, mm', m', cd')"
      and d: "fir_delay cd' = 4096" "fir_delay_sz cd' = 8"
    using demo_setup by (auto split: option.splits)
  have c: "fe_config demo_eq_fir = 100" by (simp add: demo_eq_fir_def)
  let ?ok = "\<lambda>j. shift_ok demo_fir_blob 100 (effective_response demo_fir_blob 100 j) \<and>
      coef_area demo_fir_blob 100 (effective_response demo_fir_blob 100 j) \<inter> delay_area cd' = {}"
  have "?ok 0" "?ok (Suc 0)"
    unfolding demo_responses by (simp_all add: demo_responses shift_ok_def coef_area_def delay_area_def d)
  then have "\<forall>j < 2. ?ok j" by (simp add: numeral_2_eq_2 All_less_Suc)
  then show ?thesis
    using eq_fir_setup_well_formed [of demo_plat None demo_mm demo_fir_blob demo_eq_fir 2 mm' m' cd'] st d
    by (auto simp: c demo_responses delay_area_def numeral_2_eq_2)
qed

theorem eq_fir_setup_failure_dangles_witness:
  "\<exists>mm' m' cd'. eq_fir_setup demo_plat None (demo_mm\<lparr>mm_buffer := []\<rparr>) demo_fir_blob demo_eq_fir 1 = Some (- ENOMEM, mm', m', cd') \<and>
     fir_func cd' = EQ_FIR_S16 \<and> fdelay (fir cd' ! 0) = 0 \<and>
     (\<exists>z f. fir_32x16 (fir cd' ! 0) m' 5 = Some (z, f, store W32 m' 0 5))"
proof -
  have "case eq_fir_setup demo_plat None (demo_mm\<lparr>mm_buffer := []\<rparr>) demo_fir_blob demo_eq_fir 1 of None \<Rightarrow> False
     | Some (r, mm, m, cd) \<Rightarrow> r = - ENOMEM" by code_simp
  then obtain mm' m' cd' where
      st: "eq_fir_setup demo_plat None (demo_mm\<lparr>mm_buffer := []\<rparr>) demo_fir_blob demo_eq_fir 1 = Some (- ENOMEM, mm', m', cd')"
    by (auto split: option.splits)
  have "\<forall>j < 1. shift_ok demo_fir_blob (fe_config demo_eq_fir) (effective_response demo_fir_blob (fe_config demo_eq_fir) j)"
    by (simp add: demo_eq_fir_def demo_responses shift_ok_def)
  then show ?thesis
    using eq_fir_setup_failure_dangles [of demo_plat None "demo_mm\<lparr>mm_buffer := []\<rparr>" demo_fir_blob demo_eq_fir 1 mm' m' cd'] st
    by (auto simp: demo_eq_fir_def)
qed

text \<open>Three frames of one channel that wrap around both rings.\<close>

definition demo_fir_source :: audio_stream where
  "demo_fir_source = \<lparr>st_size = 8, st_avail = 6, st_free = 2, w_ptr = 8194, r_ptr = 8196, st_addr = 8192, end_addr = 8200,
     frame_fmt = 0, valid_sample_fmt = 0, st_rate = 48000, st_channels = 1, overrun_permitted = False, underrun_permitted = False\<rparr>"

definition demo_fir_sink :: audio_stream where
  "demo_fir_sink = \<lparr>st_size = 8, st_avail = 0, st_free = 8, w_ptr = 8262, r_ptr = 8262, st_addr = 8256, end_addr = 8264,
     frame_fmt = 0, valid_sample_fmt = 0, st_rate = 48000, st_channels = 1, overrun_permitted = False, underrun_permitted = False\<rparr>"

definition demo_audio :: mem where
  "demo_audio = demo_fir_blob(8196 := 232, 8197 := 3, 8198 := 208, 8199 := 7, 8192 := 72, 8193 := 244)"

definition demo_filter :: fir_state_32x16 where
  "demo_filter = \<lparr>rwi = 0, taps = 2, flength = 2, out_shift = 0, fcoef = 148, fdelay = 4096\<rparr>"

lemma demo_filter_rel: "fir_rel demo_filter demo_audio ([16384, 8192], 0, [0, 0])"
proof -
  have "\<forall>i < 2. load W16 demo_audio (148 + 2 * int i) = [16384, 8192] ! i" by code_simp
  moreover have "\<forall>i < 2. load W32 demo_audio (4096 + 4 * ((- 1 - int i) mod 2)) = [0, 0] ! i" by code_simp
  ultimately show ?thesis by (simp add: fir_rel_def demo_filter_def fir_own_def numeral_2_eq_2)
qed

theorem eq_fir_convolves_witness:
  "\<exists>fs' m'. call_fir_func EQ_FIR_S16 [demo_filter] demo_fir_source demo_fir_sink 3 1 demo_audio = Some (fs', m') \<and>
     load W16 m' 8262 = 500 \<and> load W16 m' 8256 = 1250 \<and> load W16 m' 8258 = - 1000"
proof -
  have wf: "stream_wf demo_fir_source" "stream_wf demo_fir_sink"
    by (simp_all add: stream_wf_defs demo_fir_source_def demo_fir_sink_def)
  have al: "frame_aligned demo_fir_source W16 1 (r_ptr demo_fir_source)" "frame_aligned demo_fir_sink W16 1 (w_ptr demo_fir_sink)"
    by (simp_all add: frame_aligned_def in_ring_def demo_fir_source_def demo_fir_sink_def)
  have sep: "separate 1 (map fir_own [demo_filter]) (map fir_uses [demo_filter])
      {p. in_ring demo_fir_source p} {p. in_ring demo_fir_sink p}"
    by (auto simp: separate_def in_ring_def fir_own_def fir_uses_def demo_filter_def demo_fir_source_def demo_fir_sink_def)
  let ?x = "[65536000, 131072000, - 196608000]"
  have x: "map (fir_pre EQ_FIR_S16) (channel_in W16 demo_audio (ring_slot demo_fir_source W16 1 (r_ptr demo_fir_source) 0) 3) = ?x"
    by code_simp
  have y: "ring_slot demo_fir_sink W16 1 (w_ptr demo_fir_sink) 0 0 = 8262" "fir_post EQ_FIR_S16 (fir_response [16384, 8192] 0 ?x 0) = 500"
    "ring_slot demo_fir_sink W16 1 (w_ptr demo_fir_sink) 0 1 = 8256" "fir_post EQ_FIR_S16 (fir_response [16384, 8192] 0 ?x 1) = 1250"
    "ring_slot demo_fir_sink W16 1 (w_ptr demo_fir_sink) 0 2 = 8258" "fir_post EQ_FIR_S16 (fir_response [16384, 8192] 0 ?x 2) = - 1000"
    by code_simp+
  have "wbytes W16 * int (1 * 3) \<le> st_avail demo_fir_source" "wbytes W16 * int (1 * 3) \<le> st_free demo_fir_sink"
    by (simp_all add: demo_fir_source_def demo_fir_sink_def)
  moreover have "\<forall>j < 1. fir_rel ([demo_filter] ! j) demo_audio ([16384, 8192], 0, replicate (length [16384 :: int, 8192]) 0)"
    using demo_filter_rel by (simp add: numeral_2_eq_2)
  ultimately obtain fs' m' where r: "call_fir_func EQ_FIR_S16 [demo_filter] demo_fir_source demo_fir_sink (int 3) (int 1) demo_audio = Some (fs', m')"
      "\<forall>j < 1. \<forall>k < 3. load W16 m' (ring_slot demo_fir_sink W16 1 (w_ptr demo_fir_sink) j k) =
         fir_post EQ_FIR_S16 (fir_response [16384, 8192] 0
           (map (fir_pre EQ_FIR_S16) (channel_in W16 demo_audio (ring_slot demo_fir_source W16 1 (r_ptr demo_fir_source) j) 3)) k)"
    using eq_fir_convolves [where func = EQ_FIR_S16 and nch = 1 and fs = "[demo_filter]" and F = 3 and m = demo_audio
        and cs = "\<lambda>_. [16384, 8192]" and sh = "\<lambda>_. 0", unfolded fir_width.simps, OF _ _ wf _ _ al _ _ sep]
    by (metis One_nat_def eq_fir_func.simps le_refl length_Cons list.size(3) zero_less_one)
  have "load W16 m' 8262 = 500" "load W16 m' 8256 = 1250" "load W16 m' 8258 = - 1000"
    using r(2) [rule_format, of 0 0, unfolded x] r(2) [rule_format, of 0 1, unfolded x] r(2) [rule_format, of 0 2, unfolded x] y
    by (simp_all only: zero_less_one)
  then show ?thesis using r(1) by auto
qed

end
