(* ===== verification/Sof_Pipeline.thy ===== *)
theory Sof_Pipeline
  imports Sof_Firmware
begin

text \<open>
  The audio pipelines of \<open>src/audio/pipeline\<close>: the generic walk over the graph of components and
  buffers, the operations built on it (complete, reset, params, prepare, copy, trigger, timestamp,
  xrun), and the pipeline task.

  A walk takes the next component through a buffer that it marks as walking; the recursion is
  therefore at most as deep as there are buffers. The model bounds the depth by the fuel
  \<open>walk_fuel\<close> of the environment; theory \<open>Sof_Walk\<close> shows that any fuel above the number of buffers
  is enough. The list of buffers of a component is read once per visit: no operation of this
  file changes it.
\<close>

section \<open>Walking the graph\<close>

text \<open>
  The data of a walk: \<open>struct pipeline_data\<close> and the list of pipelines of the walk context, a linked
  list with head \<open>walk_head\<close> whose items are the pipelines themselves.
\<close>

record wdata =
  wd_start :: addr
  wd_params :: sof_ipc_stream_params
  wd_posn :: stream_posn
  wd_p :: addr
  wd_cmd :: int
  wd_delay_ms :: int
  wd_pipelines :: links

definition walk_head :: addr where
  "walk_head = - 1"

definition zero_params :: sof_ipc_stream_params where
  "zero_params = \<lparr>p_direction = 0, p_frame_fmt = 0, p_buffer_fmt = 0, p_rate = 0, p_channels = 0,
     p_chmap = replicate SOF_IPC_MAX_CHANNELS 0\<rparr>"

definition init_pipelines :: "wdata \<Rightarrow> wdata" where
  "init_pipelines d = d\<lparr>wd_pipelines := list_init (wd_pipelines d) walk_head\<rparr>"

definition walk_data :: "addr \<Rightarrow> addr \<Rightarrow> int \<Rightarrow> wdata" where
  "walk_data start p cmd = init_pipelines
     \<lparr>wd_start = start, wd_params = zero_params, wd_posn = zero_posn, wd_p = p, wd_cmd = cmd, wd_delay_ms = 0,
      wd_pipelines = (\<lambda>_. \<lparr>nx = 0, pv = 0\<rparr>)\<rparr>"

type_synonym 'p wst = "'p fw \<times> wdata"

text \<open>A component function gets the current component, the calling buffer and the direction.\<close>

type_synonym 'p comp_func = "addr \<Rightarrow> addr \<Rightarrow> int \<Rightarrow> 'p wst \<Rightarrow> (int \<times> 'p wst) option"

text \<open>
  The walk context. The component function calls \<open>pipeline_for_each_comp\<close> to continue the walk: that
  call is its first argument.
\<close>

record 'p walk_ctx =
  cx_comp :: "(addr \<Rightarrow> int \<Rightarrow> 'p wst \<Rightarrow> (int \<times> 'p wst) option) \<Rightarrow> 'p comp_func"
  cx_buff :: "addr \<Rightarrow> 'p wst \<Rightarrow> 'p wst"
  skip_incomplete :: bool

definition set_walking :: "addr \<Rightarrow> bool \<Rightarrow> 'p wst \<Rightarrow> 'p wst" where
  "set_walking b v = (\<lambda>(s, d). (upd_buf b (\<lambda>x. x\<lparr>walking := v\<rparr>) s, d))"

definition stops :: "int \<Rightarrow> bool" where
  "stops err \<longleftrightarrow> err < 0 \<or> err = PPL_STATUS_PATH_STOP"

fun for_buffers :: "'p walk_ctx \<Rightarrow> 'p comp_func \<Rightarrow> int \<Rightarrow> addr list \<Rightarrow> 'p wst \<Rightarrow> (int \<times> 'p wst) option" where
  "for_buffers ctx f dir [] w = Some (0, w)"
| "for_buffers ctx f dir (b # bs) w =
     (if walking (buf (fst w) b) then for_buffers ctx f dir bs w
      else
        let w1 = cx_buff ctx b w; c = buffer_get_comp (buf (fst w1) b) dir
        in if c = 0 \<or> skip_incomplete ctx \<and> c_pipeline (cdev (fst w1) c) = 0 then for_buffers ctx f dir bs w1
           else do {
             (err, w2) \<leftarrow> f c b dir (set_walking b True w1);
             let w3 = set_walking b False w2;
             if stops err then Some (err, w3) else for_buffers ctx f dir bs w3 })"

definition pipeline_for_each_comp ::
    "'p walk_ctx \<Rightarrow> 'p comp_func \<Rightarrow> addr \<Rightarrow> int \<Rightarrow> 'p wst \<Rightarrow> (int \<times> 'p wst) option" where
  "pipeline_for_each_comp ctx f current dir w =
     for_buffers ctx f dir (comp_buffer_list (cdev (fst w) current) dir) w"

fun run_walk :: "nat \<Rightarrow> 'p walk_ctx \<Rightarrow> 'p comp_func" where
  "run_walk 0 ctx current b dir w = None"
| "run_walk (Suc n) ctx current b dir w =
     cx_comp ctx (pipeline_for_each_comp ctx (run_walk n ctx)) current b dir w"

text \<open>
  A pipeline connected to the starting one in the improper direction stops the propagation: capture
  towards a DAI, playback towards a host, or either towards a plain node.
\<close>

definition improper_direction :: "comp_endpoint_type \<Rightarrow> int \<Rightarrow> bool" where
  "improper_direction end_type stream_direction \<longleftrightarrow>
     (stream_direction = SOF_IPC_STREAM_PLAYBACK \<and> (end_type = COMP_ENDPOINT_HOST \<or> end_type = COMP_ENDPOINT_NODE)) \<or>
     (stream_direction = SOF_IPC_STREAM_CAPTURE \<and> (end_type = COMP_ENDPOINT_DAI \<or> end_type = COMP_ENDPOINT_NODE))"

definition sink_end_type :: "'p fw \<Rightarrow> addr \<Rightarrow> comp_endpoint_type" where
  "sink_end_type s current = comp_get_endpoint_type (cdev s (sink_comp (pipe s (c_pipeline (cdev s current)))))"

definition trace_heap :: "'p fw \<Rightarrow> 'p fw" where
  "trace_heap s = set_mm (heap_trace_all 0 (bs_mm (fw_buf s))) s"

section \<open>Completion and reset\<close>

definition pipeline_comp_complete ::
    "(addr \<Rightarrow> int \<Rightarrow> 'p wst \<Rightarrow> (int \<times> 'p wst) option) \<Rightarrow> 'p comp_func" where
  "pipeline_comp_complete next current calling_buf dir = (\<lambda>(s, d).
     if \<not> comp_is_single_pipeline (cdev s current) (cdev s (wd_start d)) then Some (0, s, d)
     else next current dir
            (upd_comp current (\<lambda>c. c\<lparr>c_pipeline := wd_p d, c_period := pp_period (pipe s (wd_p d)),
                                      c_priority := pp_priority (pipe s (wd_p d))\<rparr>) s, d))"

definition complete_ctx :: "'p walk_ctx" where
  "complete_ctx = \<lparr>cx_comp = pipeline_comp_complete, cx_buff = (\<lambda>b w. w), skip_incomplete = False\<rparr>"

definition pipeline_complete :: "'p fw_env \<Rightarrow> addr \<Rightarrow> addr \<Rightarrow> addr \<Rightarrow> 'p fw \<Rightarrow> (int \<times> 'p fw) option" where
  "pipeline_complete env p source sink s =
     (if pp_status (pipe s p) \<noteq> COMP_STATE_INIT then Some (- EINVAL, s)
      else do {
        (ret, s1, _) \<leftarrow> run_walk (walk_fuel env) complete_ctx source 0 PPL_DIR_DOWNSTREAM (s, walk_data source p 0);
        Some (ret, trace_heap (upd_pipe p (\<lambda>q. q\<lparr>source_comp := source, sink_comp := sink,
                                                 pp_status := COMP_STATE_READY\<rparr>) s1)) })"

definition pipeline_comp_reset ::
    "'p fw_env \<Rightarrow> (addr \<Rightarrow> int \<Rightarrow> 'p wst \<Rightarrow> (int \<times> 'p wst) option) \<Rightarrow> 'p comp_func" where
  "pipeline_comp_reset env next current calling_buf dir = (\<lambda>(s, d).
     let p = pipe s (wd_p d);
         is_single_ppl = comp_is_single_pipeline (cdev s current) (cdev s (source_comp p));
         is_same_sched = pipeline_is_same_sched_comp (pipe s (c_pipeline (cdev s current))) p
     in if \<not> is_single_ppl \<and> \<not> is_same_sched \<and> improper_direction (sink_end_type s current) dir
        then Some (0, s, d)
        else do {
          (err, s1) \<leftarrow> comp_reset env current s;
          if stops err then Some (err, s1, d) else next current dir (s1, d) })"

definition reset_ctx :: "'p fw_env \<Rightarrow> 'p walk_ctx" where
  "reset_ctx env = \<lparr>cx_comp = pipeline_comp_reset env,
     cx_buff = (\<lambda>b (s, d). (upd_buf b buffer_reset_params s, d)), skip_incomplete = True\<rparr>"

definition pipeline_reset :: "'p fw_env \<Rightarrow> addr \<Rightarrow> addr \<Rightarrow> 'p fw \<Rightarrow> (int \<times> 'p fw) option" where
  "pipeline_reset env p host s =
     do { (ret, s1, _) \<leftarrow> run_walk (walk_fuel env) (reset_ctx env) host 0 (c_direction (cdev s host)) (s, walk_data 0 p 0);
          if ret < 0 then Some (ret, s1)
          else Some (ret, upd_pipe p (\<lambda>q. q\<lparr>pp_status := COMP_STATE_READY\<rparr>) s1) }"

section \<open>Parameters\<close>

definition pipeline_comp_params_neg :: "'p comp_func" where
  "pipeline_comp_params_neg current calling_buf dir = (\<lambda>(s, d).
     if c_state (cdev s current) \<noteq> COMP_STATE_INIT \<and> c_state (cdev s current) \<noteq> COMP_STATE_READY then
       (if buffer_params_match (buf s calling_buf) (wd_params d) (BUFF_PARAMS_FRAME_FMT OR BUFF_PARAMS_RATE)
        then Some (0, s, d) else Some (- EINVAL, s, d))
     else if calling_buf \<noteq> 0 then
       (let (err, b) = buffer_set_params (buf s calling_buf) (Some (wd_params d)) True
        in Some (err, upd_buf calling_buf (\<lambda>_. b) s, d))
     else Some (0, s, d))"

definition param_neg_ctx :: "'p walk_ctx" where
  "param_neg_ctx = \<lparr>cx_comp = (\<lambda>next. pipeline_comp_params_neg), cx_buff = (\<lambda>b w. w), skip_incomplete = True\<rparr>"

definition opposite :: "int \<Rightarrow> int" where
  "opposite dir = of_cond (dir = 0)"

definition pipeline_comp_params ::
    "'p fw_env \<Rightarrow> (addr \<Rightarrow> int \<Rightarrow> 'p wst \<Rightarrow> (int \<times> 'p wst) option) \<Rightarrow> 'p comp_func" where
  "pipeline_comp_params env next current calling_buf dir = (\<lambda>(s, d).
     if \<not> comp_is_single_pipeline (cdev s current) (cdev s (wd_start d)) \<and>
        improper_direction (sink_end_type s current) (p_direction (wd_params d)) then Some (0, s, d)
     else if c_state (cdev s current) = COMP_STATE_ACTIVE then Some (0, s, d)
     else do {
       (err, s1, d1) \<leftarrow> pipeline_for_each_comp param_neg_ctx pipeline_comp_params_neg current (opposite dir) (s, d);
       if stops err then Some (err, s1, d1)
       else do {
         let s2 = upd_comp current (\<lambda>c. c\<lparr>c_direction := p_direction (wd_params d1)\<rparr>) s1;
         (err, params, s3) \<leftarrow> comp_params env current (wd_params d1) s2;
         let d2 = d1\<lparr>wd_params := params\<rparr>;
         if stops err then Some (err, s3, d2) else next current dir (s3, d2) } })"

definition pipeline_update_buffer_pcm_params :: "comp_buffer \<Rightarrow> sof_ipc_stream_params \<Rightarrow> sof_ipc_stream_params" where
  "pipeline_update_buffer_pcm_params buffer params =
     params\<lparr>p_buffer_fmt := b_buffer_fmt buffer, p_frame_fmt := frame_fmt (b_stream buffer),
            p_rate := st_rate (b_stream buffer), p_channels := st_channels (b_stream buffer),
            p_chmap := map (\<lambda>i. b_chmap buffer ! i) [0..<SOF_IPC_MAX_CHANNELS]\<rparr>"

definition pipeline_comp_hw_params ::
    "'p fw_env \<Rightarrow> (addr \<Rightarrow> int \<Rightarrow> 'p wst \<Rightarrow> (int \<times> 'p wst) option) \<Rightarrow> 'p comp_func" where
  "pipeline_comp_hw_params env next current calling_buf dir w =
     do { (ret, s, d) \<leftarrow> next current dir w;
          if ret < 0 then Some (ret, s, d)
          else do {
            (ret, d1, s1) \<leftarrow>
              (if dev_comp_type (cdev s current) = SOF_COMP_DAI
               then do { (r, params, s1) \<leftarrow> comp_dai_get_hw_params env current (wd_params d) dir s;
                         Some (r, d\<lparr>wd_params := params\<rparr>, s1) }
               else Some (ret, d, s));
            if ret < 0 then Some (ret, s1, d1)
            else if calling_buf \<noteq> 0 then
              (let (r, b) = buffer_set_params (buf s1 calling_buf) (Some (wd_params d1)) False
               in Some (r, upd_buf calling_buf (\<lambda>_. b) s1, d1))
            else Some (ret, s1, d1) } }"

definition hw_param_ctx :: "'p fw_env \<Rightarrow> 'p walk_ctx" where
  "hw_param_ctx env = \<lparr>cx_comp = pipeline_comp_hw_params env, cx_buff = (\<lambda>b w. w), skip_incomplete = True\<rparr>"

definition param_ctx :: "'p fw_env \<Rightarrow> 'p walk_ctx" where
  "param_ctx env = \<lparr>cx_comp = pipeline_comp_params env,
     cx_buff = (\<lambda>b (s, d). (s, d\<lparr>wd_params := pipeline_update_buffer_pcm_params (buf s b) (wd_params d)\<rparr>)),
     skip_incomplete = True\<rparr>"

text \<open>\<open>hw_params\<close> is what the stack holds where the code declares the variable without initialising it.\<close>

definition pipeline_params ::
    "'p fw_env \<Rightarrow> addr \<Rightarrow> addr \<Rightarrow> sof_ipc_stream_params \<Rightarrow> sof_ipc_stream_params \<Rightarrow> 'p fw \<Rightarrow>
      (int \<times> sof_ipc_stream_params \<times> 'p fw) option" where
  "pipeline_params env p host params hw_params s =
     do { (ret, s1, _) \<leftarrow>
            run_walk (walk_fuel env) (hw_param_ctx env) host 0 (p_direction params)
              (s, (walk_data host 0 0)\<lparr>wd_params := hw_params\<rparr>);
          if ret < 0 then Some (ret, params, s1)
          else do {
            (ret, s2, d2) \<leftarrow>
              run_walk (walk_fuel env) (param_ctx env) host 0 (p_direction params)
                (s1, (walk_data host 0 0)\<lparr>wd_params := params\<rparr>);
            Some (ret, wd_params d2, s2) } }"

section \<open>Tasks and scheduling\<close>

datatype task_state =
    SOF_TASK_STATE_INIT | SOF_TASK_STATE_QUEUED | SOF_TASK_STATE_PENDING | SOF_TASK_STATE_RUNNING
  | SOF_TASK_STATE_PREEMPTED | SOF_TASK_STATE_COMPLETED | SOF_TASK_STATE_FREE | SOF_TASK_STATE_CANCEL
  | SOF_TASK_STATE_RESCHEDULE

definition SOF_SCHEDULE_LL_TIMER :: int where "SOF_SCHEDULE_LL_TIMER = 1"
definition SOF_SCHEDULE_LL_DMA :: int where "SOF_SCHEDULE_LL_DMA = 2"

definition pipeline_schedule_cancel :: "'p fw_env \<Rightarrow> addr \<Rightarrow> 'p fw \<Rightarrow> 'p fw" where
  "pipeline_schedule_cancel env p s =
     emit (Panic_On_Delay True) (schedule_task_cancel (env_sched env) (pipe_task (pipe s p)) s)"

definition pipeline_task_init :: "'p fw_env \<Rightarrow> addr \<Rightarrow> int \<Rightarrow> 'p fw \<Rightarrow> (addr \<times> 'p fw) option" where
  "pipeline_task_init env p typ s =
     do { (task, s1) \<leftarrow> fw_rzalloc (env_plat env) SOF_MEM_ZONE_RUNTIME (sizeof_pipeline_task env) s;
          if task = 0 then Some (0, s1)
          else
            let (ret, s2) = schedule_task_init_ll (env_sched env) task typ (pp_priority (pipe s1 p)) p (pp_core (pipe s1 p)) s1
            in if ret < 0 then do { s3 \<leftarrow> fw_rfree (env_plat env) task s2; Some (0, s3) }
               else Some (task, s2\<lparr>ptasks := (ptasks s2)(task :=
                      \<lparr>registrable = (p = c_pipeline (cdev s2 (sched_comp (pipe s2 p)))),
                       pt_sched_comp = sched_comp (pipe s2 p)\<rparr>)\<rparr>) }"

definition pipeline_schedule_config :: "addr \<Rightarrow> int \<Rightarrow> int \<Rightarrow> int \<Rightarrow> int \<Rightarrow> int \<Rightarrow> int \<Rightarrow> 'p fw \<Rightarrow> 'p fw" where
  "pipeline_schedule_config p sid core period period_mips frames_per_sched time_domain =
     upd_pipe p (\<lambda>q. q\<lparr>pp_sched_id := sid, pp_core := core, pp_period := period, pp_period_mips := period_mips,
                       pp_frames_per_sched := frames_per_sched, pp_time_domain := time_domain\<rparr>)"

definition pipeline_comp_task_init :: "'p fw_env \<Rightarrow> addr \<Rightarrow> 'p fw \<Rightarrow> (int \<times> 'p fw) option" where
  "pipeline_comp_task_init env p s =
     (if pipe_task (pipe s p) = 0 then do {
        (task, s1) \<leftarrow> pipeline_task_init env p
           (if pipeline_is_timer_driven (pipe s p) then SOF_SCHEDULE_LL_TIMER else SOF_SCHEDULE_LL_DMA) s;
        Some (if task = 0 then - ENOMEM else 0, upd_pipe p (\<lambda>q. q\<lparr>pipe_task := task\<rparr>) s1) }
      else Some (0, s))"

definition pipeline_comp_trigger_sched_comp :: "addr \<Rightarrow> addr \<Rightarrow> 'p wst \<Rightarrow> 'p wst" where
  "pipeline_comp_trigger_sched_comp p c = (\<lambda>(s, d).
     let sched = sched_comp (pipe s p)
     in if dev_comp_id (cdev s sched) \<noteq> dev_comp_id (cdev s c) \<and>
           (pp_pipeline_id (pipe s p) = pp_pipeline_id (pipe s (c_pipeline (cdev s sched))) \<or>
            dev_comp_id (cdev s (sink_comp (pipe s p))) \<noteq> dev_comp_id (cdev s c))
        then (s, d)
        else (s, d\<lparr>wd_pipelines := list_item_append (wd_pipelines d) p walk_head\<rparr>))"

definition pipeline_schedule_copy :: "'p fw_env \<Rightarrow> addr \<Rightarrow> int \<Rightarrow> 'p fw \<Rightarrow> 'p fw" where
  "pipeline_schedule_copy env p start s =
     (let s1 = (if \<not> pipeline_is_timer_driven (pipe s p) then emit (Panic_On_Delay False) s else s);
          q = pipe s1 p; sch = env_sched env;
          next_task = pipe_task (pipe s1 (sched_next q)); prev_task = pipe_task (pipe s1 (sched_prev q))
      in if sched_next q \<noteq> 0 \<and> task_is_active sch next_task s1
         then schedule_task_before sch (pipe_task q) start (pp_period q) next_task s1
         else if sched_prev q \<noteq> 0 \<and> task_is_active sch prev_task s1
         then schedule_task_after sch (pipe_task q) start (pp_period q) prev_task s1
         else schedule_task sch (pipe_task q) start (pp_period q) s1)"

text \<open>One pipeline of the list; the state carries the host that the first timer driven pipeline takes.\<close>

definition triggered_stop :: "'p fw_env \<Rightarrow> int \<Rightarrow> addr \<Rightarrow> addr \<times> 'p fw \<Rightarrow> addr \<times> 'p fw" where
  "triggered_stop env cmd p = (\<lambda>(start, s).
     if pipeline_is_timer_driven (pipe s p) \<and> pp_status (pipe s p) \<noteq> COMP_STATE_PAUSED
     then (0, upd_pipe p (\<lambda>q. q\<lparr>trig_cmd := cmd, trig_host := start\<rparr>) s)
     else (start, upd_pipe p (\<lambda>q. q\<lparr>pp_status := COMP_STATE_PAUSED\<rparr>) (pipeline_schedule_cancel env p s)))"

definition triggered_start :: "'p fw_env \<Rightarrow> int \<Rightarrow> addr \<Rightarrow> addr \<times> 'p fw \<Rightarrow> addr \<times> 'p fw" where
  "triggered_start env cmd p = (\<lambda>(start, s).
     let s1 = upd_pipe p (\<lambda>q. q\<lparr>xrun_bytes := 0\<rparr>) s
     in if pipeline_is_timer_driven (pipe s1 p)
        then (0, pipeline_schedule_copy env p 0 (upd_pipe p (\<lambda>q. q\<lparr>trig_cmd := cmd, trig_host := start\<rparr>) s1))
        else (start, pipeline_schedule_copy env p 0 (upd_pipe p (\<lambda>q. q\<lparr>pp_status := COMP_STATE_ACTIVE\<rparr>) s1)))"

definition triggered_xrun :: "addr \<Rightarrow> 'p fw \<Rightarrow> 'p fw" where
  "triggered_xrun p s = (if xrun_bytes (pipe s p) = 0 then upd_pipe p (\<lambda>q. q\<lparr>xrun_bytes := 1\<rparr>) s else s)"

definition pipeline_schedule_triggered :: "'p fw_env \<Rightarrow> int \<Rightarrow> 'p wst \<Rightarrow> 'p wst option" where
  "pipeline_schedule_triggered env cmd = (\<lambda>(s, d).
     do { ps \<leftarrow> list_for_item (wd_pipelines d) (nx (wd_pipelines d walk_head)) walk_head;
          if cmd = COMP_TRIGGER_PAUSE \<or> cmd = COMP_TRIGGER_STOP then
            (let (start, s1) = fold (triggered_stop env cmd) ps (wd_start d, s) in Some (s1, d\<lparr>wd_start := start\<rparr>))
          else if cmd = COMP_TRIGGER_PRE_RELEASE \<or> cmd = COMP_TRIGGER_PRE_START then
            (let (start, s1) = fold (triggered_start env cmd) ps (wd_start d, s) in Some (s1, d\<lparr>wd_start := start\<rparr>))
          else if cmd = COMP_TRIGGER_XRUN then Some (fold triggered_xrun ps s, d)
          else Some (s, d) })"

section \<open>Prepare\<close>

definition pipeline_comp_prepare ::
    "'p fw_env \<Rightarrow> (addr \<Rightarrow> int \<Rightarrow> 'p wst \<Rightarrow> (int \<times> 'p wst) option) \<Rightarrow> 'p comp_func" where
  "pipeline_comp_prepare env next current calling_buf dir = (\<lambda>(s, d).
     if \<not> comp_is_single_pipeline (cdev s current) (cdev s (wd_start d)) \<and>
        improper_direction (sink_end_type s current) dir then Some (0, s, d)
     else do {
       (err, s1) \<leftarrow> pipeline_comp_task_init env (c_pipeline (cdev s current)) s;
       if err < 0 then Some (err, s1, d)
       else do {
         (err, s2) \<leftarrow> comp_prepare env current s1;
         if stops err then Some (err, s2, d) else next current dir (s2, d) } })"

definition fw_buffer_reset_pos :: "addr \<Rightarrow> 'p fw \<Rightarrow> 'p fw" where
  "fw_buffer_reset_pos b s =
     (let (b', m', _) = buffer_reset_pos (buf s b) (bs_mem (fw_buf s))
      in upd_buf b (\<lambda>_. b') (s\<lparr>fw_buf := (fw_buf s)\<lparr>bs_mem := m'\<rparr>\<rparr>))"

definition prepare_ctx :: "'p fw_env \<Rightarrow> 'p walk_ctx" where
  "prepare_ctx env = \<lparr>cx_comp = pipeline_comp_prepare env,
     cx_buff = (\<lambda>b (s, d). (fw_buffer_reset_pos b s, d)), skip_incomplete = True\<rparr>"

definition pipeline_prepare :: "'p fw_env \<Rightarrow> addr \<Rightarrow> addr \<Rightarrow> 'p fw \<Rightarrow> (int \<times> 'p fw) option" where
  "pipeline_prepare env p dev s =
     do { (ret, s1, _) \<leftarrow> run_walk (walk_fuel env) (prepare_ctx env) dev 0 (c_direction (cdev s dev)) (s, walk_data dev 0 0);
          if ret < 0 then Some (ret, s1)
          else Some (ret, upd_pipe p (\<lambda>q. q\<lparr>pp_status := COMP_STATE_PREPARE\<rparr>) s1) }"

section \<open>Copy\<close>

definition pipeline_comp_copy ::
    "'p fw_env \<Rightarrow> (addr \<Rightarrow> int \<Rightarrow> 'p wst \<Rightarrow> (int \<times> 'p wst) option) \<Rightarrow> 'p comp_func" where
  "pipeline_comp_copy env next current calling_buf dir = (\<lambda>(s, d).
     if \<not> comp_is_single_pipeline (cdev s current) (cdev s (wd_start d)) then Some (0, s, d)
     else if \<not> comp_is_active (cdev s current) then Some (0, s, d)
     else do {
       (err, s1) \<leftarrow> (if dir = PPL_DIR_DOWNSTREAM then comp_copy env current s else Some (0, s));
       if dir = PPL_DIR_DOWNSTREAM \<and> stops err then Some (err, s1, d)
       else do {
         (err, s2, d2) \<leftarrow> next current dir (s1, d);
         if stops err then Some (err, s2, d2)
         else if dir = PPL_DIR_UPSTREAM then do { (err, s3) \<leftarrow> comp_copy env current s2; Some (err, s3, d2) }
         else Some (err, s2, d2) } })"

definition copy_ctx :: "'p fw_env \<Rightarrow> 'p walk_ctx" where
  "copy_ctx env = \<lparr>cx_comp = pipeline_comp_copy env, cx_buff = (\<lambda>b w. w), skip_incomplete = True\<rparr>"

definition pipeline_copy :: "'p fw_env \<Rightarrow> addr \<Rightarrow> 'p fw \<Rightarrow> (int \<times> 'p fw) option" where
  "pipeline_copy env p s =
     (let q = pipe s p;
          (dir, start) = (if c_direction (cdev s (source_comp q)) = SOF_IPC_STREAM_PLAYBACK
                          then (PPL_DIR_UPSTREAM, sink_comp q) else (PPL_DIR_DOWNSTREAM, source_comp q))
      in do { (ret, s1, _) \<leftarrow> run_walk (walk_fuel env) (copy_ctx env) start 0 dir (s, walk_data start p 0);
              Some (ret, s1) })"

section \<open>Trigger\<close>

definition pipeline_should_report_enodata_on_trigger :: "addr \<Rightarrow> int \<Rightarrow> 'p wst \<Rightarrow> bool" where
  "pipeline_should_report_enodata_on_trigger rsrc dir = (\<lambda>(s, d).
     let pipe_source = source_comp (pipe s (c_pipeline (cdev s (wd_start d))))
     in if dir \<noteq> SOF_IPC_STREAM_CAPTURE then False
        else if wd_cmd d \<noteq> COMP_TRIGGER_START \<and> wd_cmd d \<noteq> COMP_TRIGGER_RELEASE then False
        else if pipe_source \<noteq> 0 \<and> dev_comp_type (cdev s pipe_source) = SOF_COMP_DAI then False
        else c_state (cdev s rsrc) \<noteq> COMP_STATE_ACTIVE)"

definition pipeline_comp_list ::
    "(addr \<Rightarrow> int \<Rightarrow> 'p wst \<Rightarrow> (int \<times> 'p wst) option) \<Rightarrow> 'p comp_func" where
  "pipeline_comp_list next current calling_buf dir = (\<lambda>(s, d).
     let is_single_ppl = comp_is_single_pipeline (cdev s current) (cdev s (wd_start d));
         is_same_sched = pipeline_is_same_sched_comp (pipe s (c_pipeline (cdev s current)))
                           (pipe s (c_pipeline (cdev s (wd_start d))))
     in if \<not> is_single_ppl \<and> \<not> is_same_sched then Some (0, s, d)
        else next current dir (pipeline_comp_trigger_sched_comp (c_pipeline (cdev s current)) current (s, d)))"

definition list_ctx :: "'p walk_ctx" where
  "list_ctx = \<lparr>cx_comp = pipeline_comp_list, cx_buff = (\<lambda>b w. w), skip_incomplete = True\<rparr>"

text \<open>The scheduling order of connected pipelines, each with its predecessor in the list.\<close>

definition chain_pipeline :: "addr \<Rightarrow> addr \<times> 'p fw \<Rightarrow> addr \<times> 'p fw" where
  "chain_pipeline p = (\<lambda>(upstream, s).
     (p, if c_direction (cdev s (sched_comp (pipe s p))) = SOF_IPC_STREAM_PLAYBACK
         then (let s1 = upd_pipe p (\<lambda>q. q\<lparr>sched_prev := upstream\<rparr>) s
               in if upstream \<noteq> 0 then upd_pipe upstream (\<lambda>q. q\<lparr>sched_next := p\<rparr>) s1 else s1)
         else (let s1 = upd_pipe p (\<lambda>q. q\<lparr>sched_next := upstream\<rparr>) s
               in if upstream \<noteq> 0 then upd_pipe upstream (\<lambda>q. q\<lparr>sched_prev := p\<rparr>) s1 else s1)))"

definition pipeline_trigger_list :: "'p fw_env \<Rightarrow> addr \<Rightarrow> addr \<Rightarrow> int \<Rightarrow> 'p fw \<Rightarrow> (int \<times> 'p fw) option" where
  "pipeline_trigger_list env p host cmd s =
     do { (ret, s1, d) \<leftarrow> run_walk (walk_fuel env) list_ctx host 0 (c_direction (cdev s host)) (s, walk_data host 0 cmd);
          if ret < 0 then Some (ret, s1)
          else do {
            s2 \<leftarrow> (if cmd = COMP_TRIGGER_PRE_START then do {
                      ps \<leftarrow> list_for_item (wd_pipelines d) (nx (wd_pipelines d walk_head)) walk_head;
                      Some (snd (fold chain_pipeline ps (0, s1))) }
                    else Some s1);
            (s3, _) \<leftarrow> pipeline_schedule_triggered env cmd (s2, d);
            Some (ret, s3) } }"

text \<open>The search for the host of an xrun, against the direction of the stream; it may not end.\<close>

definition xrun_next :: "addr \<Rightarrow> 'p fw \<Rightarrow> addr option" where
  "xrun_next host s =
     (let dir = (if c_direction (cdev s host) = PPL_DIR_DOWNSTREAM then PPL_DIR_UPSTREAM else PPL_DIR_DOWNSTREAM);
          linked = (\<lambda>b. pipe s (c_pipeline (cdev s (buffer_get_comp (buf s b) dir))))
      in map_option (\<lambda>b. if c_direction (cdev s host) = PPL_DIR_DOWNSTREAM then source_comp (linked b) else sink_comp (linked b))
           (find (\<lambda>b. pp_status (linked b) = COMP_STATE_ACTIVE \<or> pp_status (linked b) = COMP_STATE_PREPARE)
              (comp_buffer_list (cdev s host) dir)))"

partial_function (option) pipeline_trigger_xrun :: "addr \<Rightarrow> 'p fw \<Rightarrow> addr option" where
  "pipeline_trigger_xrun host s =
     (case xrun_next host s of None \<Rightarrow> Some host | Some host' \<Rightarrow> pipeline_trigger_xrun host' s)"

definition pipeline_comp_trigger ::
    "'p fw_env \<Rightarrow> (addr \<Rightarrow> int \<Rightarrow> 'p wst \<Rightarrow> (int \<times> 'p wst) option) \<Rightarrow> 'p comp_func" where
  "pipeline_comp_trigger env next current calling_buf dir = (\<lambda>(s, d).
     let cmd = wd_cmd d; pre = (cmd = COMP_TRIGGER_PRE_RELEASE \<or> cmd = COMP_TRIGGER_PRE_START)
     in if \<not> pre \<and> cmd \<noteq> COMP_TRIGGER_PAUSE \<and> cmd \<noteq> COMP_TRIGGER_STOP \<and> cmd \<noteq> COMP_TRIGGER_RELEASE \<and>
           cmd \<noteq> COMP_TRIGGER_START then Some (- EINVAL, s, d)
        else
          let d1 = (if pre \<and> comp_get_endpoint_type (cdev s current) = COMP_ENDPOINT_DAI
                    then d\<lparr>wd_delay_ms := dai_get_init_delay_ms env current s\<rparr> else d);
              is_single_ppl = comp_is_single_pipeline (cdev s current) (cdev s (wd_start d));
              is_same_sched = pipeline_is_same_sched_comp (pipe s (c_pipeline (cdev s current)))
                                (pipe s (c_pipeline (cdev s (wd_start d))))
          in if \<not> is_single_ppl \<and> \<not> is_same_sched then
               (if pipeline_should_report_enodata_on_trigger current dir (s, d1) then Some (- ENODATA, s, d1)
                else Some (0, s, d1))
             else do {
               (err, s1) \<leftarrow> comp_trigger env current cmd s;
               let p = c_pipeline (cdev s1 current);
               if err < 0 then Some (err, s1, d1)
               else if err = PPL_STATUS_PATH_STOP then Some (err, upd_pipe p (\<lambda>q. q\<lparr>trig_aborted := True\<rparr>) s1, d1)
               else
                 let s2 = (if (cmd = COMP_TRIGGER_PAUSE \<or> cmd = COMP_TRIGGER_STOP) \<and> pipeline_is_timer_driven (pipe s1 p)
                           then upd_pipe p (\<lambda>q. q\<lparr>pp_status := COMP_STATE_PAUSED\<rparr>) s1 else s1)
                 in next current dir
                      (if \<not> pipeline_is_timer_driven (pipe s2 p) then pipeline_comp_trigger_sched_comp p current (s2, d1)
                       else (s2, d1)) })"

definition trigger_ctx :: "'p fw_env \<Rightarrow> 'p walk_ctx" where
  "trigger_ctx env = \<lparr>cx_comp = pipeline_comp_trigger env, cx_buff = (\<lambda>b w. w), skip_incomplete = True\<rparr>"

section \<open>Xrun and trigger execution\<close>

definition pipeline_xrun_recover :: "addr \<Rightarrow> 'p fw \<Rightarrow> int \<times> 'p fw" where
  "pipeline_xrun_recover p s = (- EINVAL, s)"

definition pipeline_xrun_set_limit :: "addr \<Rightarrow> int \<Rightarrow> 'p fw \<Rightarrow> int \<times> 'p fw" where
  "pipeline_xrun_set_limit p limit s = (0, upd_pipe p (\<lambda>q. q\<lparr>pp_xrun_limit_usecs := limit\<rparr>) s)"

definition pipeline_xrun_handle_trigger :: "'p fw_env \<Rightarrow> addr \<Rightarrow> int \<Rightarrow> 'p fw \<Rightarrow> (int \<times> 'p fw) option" where
  "pipeline_xrun_handle_trigger env p cmd s =
     (if xrun_bytes (pipe s p) = 0 \<or> pp_status (pipe s p) \<noteq> COMP_STATE_PAUSED then Some (0, s)
      else if cmd = COMP_TRIGGER_START then
        do { (ret, s1) \<leftarrow> pipeline_prepare env p (source_comp (pipe s p)) s;
             if ret < 0 then Some (ret, s1) else Some (ret, upd_pipe p (\<lambda>q. q\<lparr>xrun_bytes := 0\<rparr>) s1) }
      else if cmd = COMP_TRIGGER_STOP then Some (PPL_STATUS_PATH_STOP, s)
      else Some (0, s))"

text \<open>The end of \<open>pipeline_trigger_run\<close>: the pipelines collected by the walk are scheduled.\<close>

definition trigger_out :: "'p fw_env \<Rightarrow> int \<Rightarrow> int \<Rightarrow> 'p wst \<Rightarrow> (int \<times> 'p fw) option" where
  "trigger_out env cmd ret w = do { (s, _) \<leftarrow> pipeline_schedule_triggered env cmd w; Some (ret, s) }"

definition trigger_walk :: "'p fw_env \<Rightarrow> addr \<Rightarrow> addr \<Rightarrow> int \<Rightarrow> 'p fw \<Rightarrow> (int \<times> 'p fw) option" where
  "trigger_walk env p host cmd s =
     do { (ret, s1, d1) \<leftarrow>
            run_walk (walk_fuel env) (trigger_ctx env) host 0 (c_direction (cdev s host)) (s, walk_data host 0 cmd);
          if ret < 0 then trigger_out env cmd ret (s1, d1)
          else
            let cmd2 = (if cmd = COMP_TRIGGER_PRE_START then COMP_TRIGGER_START
                        else if cmd = COMP_TRIGGER_PRE_RELEASE then COMP_TRIGGER_RELEASE else cmd)
            in if cmd2 = cmd then trigger_out env cmd ret (s1, d1)
               else if wd_delay_ms d1 \<noteq> 0 \<and> pipeline_is_timer_driven (pipe s1 p) then
                 (let period = pp_period (pipe s1 p)
                  in if period = 0 then None
                     else Some (0, upd_pipe p (\<lambda>q. q\<lparr>trig_delay := u32 (wd_delay_ms d1 * 1000 + period - 1) div period,
                                                       trig_cmd := cmd2\<rparr>) s1))
               else do {
                 let s2 = (if wd_delay_ms d1 \<noteq> 0 then emit (Wait_Delay (wd_delay_ms d1)) s1 else s1);
                 (ret, s3, d3) \<leftarrow>
                   run_walk (walk_fuel env) (trigger_ctx env) host 0 (c_direction (cdev s2 host))
                     (s2, init_pipelines (d1\<lparr>wd_cmd := cmd2\<rparr>));
                 let ret' = (if ret = PPL_STATUS_PATH_STOP then 0 else ret);
                 if pipeline_is_timer_driven (pipe s3 p) then Some (ret', s3)
                 else trigger_out env cmd ret' (s3, d3) } }"

definition pipeline_trigger_run :: "'p fw_env \<Rightarrow> addr \<Rightarrow> addr \<Rightarrow> int \<Rightarrow> 'p fw \<Rightarrow> (int \<times> 'p fw) option" where
  "pipeline_trigger_run env p host cmd s =
     (let s0 = upd_pipe p (\<lambda>q. q\<lparr>trig_aborted := False\<rparr>) s
      in if xrun_bytes (pipe s0 p) \<noteq> 0
         then do {
           (ret, s1) \<leftarrow> pipeline_xrun_handle_trigger env p cmd s0;
           if ret < 0 then Some (ret, s1)
           else if ret = PPL_STATUS_PATH_STOP then Some (of_cond (pipeline_is_timer_driven (pipe s1 p)), s1)
           else trigger_walk env p host cmd s1 }
         else trigger_walk env p host cmd s0)"

definition pipeline_trigger :: "'p fw_env \<Rightarrow> addr \<Rightarrow> addr \<Rightarrow> int \<Rightarrow> 'p fw \<Rightarrow> (int \<times> 'p fw) option" where
  "pipeline_trigger env p host cmd s =
     (let s0 = upd_pipe p (\<lambda>q. q\<lparr>trig_aborted := False\<rparr>) s
      in if (cmd = COMP_TRIGGER_PAUSE \<or> cmd = COMP_TRIGGER_STOP) \<and>
            (pp_status (pipe s0 p) = COMP_STATE_PAUSED \<or> xrun_bytes (pipe s0 p) \<noteq> 0)
         then do { (ret, s1) \<leftarrow> pipeline_trigger_run env p host cmd s0; Some (if ret < 0 then ret else 0, s1) }
         else if cmd = COMP_TRIGGER_PAUSE \<or> cmd = COMP_TRIGGER_STOP \<or> cmd = COMP_TRIGGER_XRUN \<or>
                 cmd = COMP_TRIGGER_PRE_RELEASE \<or> cmd = COMP_TRIGGER_PRE_START
         then do {
           host' \<leftarrow> (if cmd = COMP_TRIGGER_XRUN then pipeline_trigger_xrun host s0 else Some host);
           (ret, s1) \<leftarrow> pipeline_trigger_list env p host' cmd s0;
           Some (if ret < 0 then ret else PPL_STATUS_SCHEDULED, s1) }
         else Some (0, s0))"

definition pipeline_comp_xrun ::
    "'p fw_env \<Rightarrow> (addr \<Rightarrow> int \<Rightarrow> 'p wst \<Rightarrow> (int \<times> 'p wst) option) \<Rightarrow> 'p comp_func" where
  "pipeline_comp_xrun env next current calling_buf dir = (\<lambda>(s, d).
     if dev_comp_type (cdev s current) = SOF_COMP_HOST then
       (let posn = platform_host_timestamp env current (wd_posn d) s; p = pipe s (wd_p d)
        in next current dir
             (emit (Msg_Send (pp_msg p) posn) (emit (Mailbox_Write (posn_offset p) posn) s), d\<lparr>wd_posn := posn\<rparr>))
     else next current dir (s, d))"

definition xrun_ctx :: "'p fw_env \<Rightarrow> 'p walk_ctx" where
  "xrun_ctx env = \<lparr>cx_comp = pipeline_comp_xrun env, cx_buff = (\<lambda>b w. w), skip_incomplete = True\<rparr>"

definition pipeline_xrun :: "'p fw_env \<Rightarrow> addr \<Rightarrow> addr \<Rightarrow> int \<Rightarrow> 'p fw \<Rightarrow> 'p fw option" where
  "pipeline_xrun env p dev bytes s =
     (if xrun_bytes (pipe s p) \<noteq> 0 then Some s
      else if c_state (cdev s dev) \<noteq> COMP_STATE_ACTIVE then Some s
      else do {
        (_, s1) \<leftarrow> pipeline_trigger env p (source_comp (pipe s p)) COMP_TRIGGER_XRUN s;
        let cid = dev_comp_id (cdev s1 dev);
        let posn = (ipc_build_stream_posn (sizeof_posn env) zero_posn SOF_IPC_STREAM_TRIG_XRUN cid)
                     \<lparr>xrun_size := bytes, xrun_comp_id := cid\<rparr>;
        let s2 = upd_pipe p (\<lambda>q. q\<lparr>xrun_bytes := bytes\<rparr>) s1;
        (_, s3, _) \<leftarrow> run_walk (walk_fuel env) (xrun_ctx env) dev 0 (c_direction (cdev s2 dev))
                        (s2, (walk_data 0 p 0)\<lparr>wd_posn := posn\<rparr>);
        Some s3 })"

definition comp_underrun :: "'p fw_env \<Rightarrow> addr \<Rightarrow> addr \<Rightarrow> int \<Rightarrow> 'p fw \<Rightarrow> 'p fw option" where
  "comp_underrun env dev source copy_bytes s =
     pipeline_xrun env (c_pipeline (cdev s dev)) dev
       (s32 (u32 (s32 (audio_stream_get_avail_bytes (b_stream (buf s source))) - copy_bytes))) s"

definition comp_overrun :: "'p fw_env \<Rightarrow> addr \<Rightarrow> addr \<Rightarrow> int \<Rightarrow> 'p fw \<Rightarrow> 'p fw option" where
  "comp_overrun env dev sink copy_bytes s =
     pipeline_xrun env (c_pipeline (cdev s dev)) dev
       (s32 (u32 (s32 copy_bytes - audio_stream_get_free_bytes (b_stream (buf s sink))))) s"

section \<open>Time stamps\<close>

definition pipeline_comp_timestamp ::
    "'p fw_env \<Rightarrow> (addr \<Rightarrow> int \<Rightarrow> 'p wst \<Rightarrow> (int \<times> 'p wst) option) \<Rightarrow> 'p comp_func" where
  "pipeline_comp_timestamp env next current calling_buf dir = (\<lambda>(s, d).
     if \<not> comp_is_active (cdev s current) then Some (0, s, d)
     else if current \<noteq> wd_start d \<and>
             (dev_comp_type (cdev s current) = SOF_COMP_DAI \<or> dev_comp_type (cdev s current) = SOF_COMP_SG_DAI)
     then Some (PPL_STATUS_PATH_STOP, s, d\<lparr>wd_posn := platform_dai_timestamp env current (wd_posn d) s\<rparr>)
     else next current dir (s, d))"

definition timestamp_ctx :: "'p fw_env \<Rightarrow> 'p walk_ctx" where
  "timestamp_ctx env = \<lparr>cx_comp = pipeline_comp_timestamp env, cx_buff = (\<lambda>b w. w), skip_incomplete = True\<rparr>"

definition pipeline_get_timestamp ::
    "'p fw_env \<Rightarrow> addr \<Rightarrow> addr \<Rightarrow> stream_posn \<Rightarrow> 'p fw \<Rightarrow> (stream_posn \<times> 'p fw) option" where
  "pipeline_get_timestamp env p host posn s =
     do { (_, s1, d) \<leftarrow> run_walk (walk_fuel env) (timestamp_ctx env) host 0 (c_direction (cdev s host))
            (s, (walk_data host 0 0)\<lparr>wd_posn := platform_host_timestamp env host posn s\<rparr>);
          Some ((wd_posn d)\<lparr>timestamp_ns := u32 (pp_period (pipe s1 p) * 1000)\<rparr>, s1) }"

section \<open>The pipeline task\<close>

definition pipeline_task_cmd :: "'p fw_env \<Rightarrow> addr \<Rightarrow> 'p fw \<Rightarrow> (task_state \<times> 'p fw) option" where
  "pipeline_task_cmd env p s =
     (let cmd = trig_cmd (pipe s p); no_action = upd_pipe p (\<lambda>q. q\<lparr>trig_cmd := COMP_TRIGGER_NO_ACTION\<rparr>);
          set_status = (\<lambda>st. upd_pipe p (\<lambda>q. q\<lparr>pp_status := st\<rparr>))
      in if trig_host (pipe s p) = 0 then
           (let s1 = no_action s
            in if cmd = COMP_TRIGGER_STOP \<or> cmd = COMP_TRIGGER_PAUSE
               then Some (if trig_aborted (pipe s1 p) then SOF_TASK_STATE_RUNNING else SOF_TASK_STATE_COMPLETED, s1)
               else if cmd = COMP_TRIGGER_PRE_START \<or> cmd = COMP_TRIGGER_PRE_RELEASE
               then Some (SOF_TASK_STATE_RESCHEDULE, set_status COMP_STATE_ACTIVE s1)
               else Some (SOF_TASK_STATE_RESCHEDULE, s1))
         else do {
           (err, s1) \<leftarrow> pipeline_trigger_run env p (trig_host (pipe s p)) cmd s;
           if err < 0 then Some (SOF_TASK_STATE_COMPLETED, emit (Ipc_Reply err) (no_action s1))
           else
             let s2 = (if cmd = COMP_TRIGGER_START \<or> cmd = COMP_TRIGGER_RELEASE then set_status COMP_STATE_ACTIVE s1
                       else if cmd = COMP_TRIGGER_PRE_START \<or> cmd = COMP_TRIGGER_PRE_RELEASE
                       then set_status COMP_STATE_PRE_ACTIVE s1
                       else if cmd = COMP_TRIGGER_STOP \<or> cmd = COMP_TRIGGER_PAUSE
                       then set_status COMP_STATE_PAUSED s1 else s1);
                 done = (\<lambda>st s'. Some (st, emit (Ipc_Reply 0) (no_action s')))
             in if err = PPL_STATUS_PATH_STOP then done SOF_TASK_STATE_COMPLETED s2
                else if trig_cmd (pipe s2 p) \<noteq> cmd then
                  (if trig_delay (pipe s2 p) \<noteq> 0 then Some (SOF_TASK_STATE_RESCHEDULE, s2)
                   else done SOF_TASK_STATE_RESCHEDULE s2)
                else if pp_status (pipe s2 p) = COMP_STATE_PAUSED then
                  (if trig_aborted (pipe s2 p) then done SOF_TASK_STATE_RUNNING (set_status COMP_STATE_ACTIVE s2)
                   else done SOF_TASK_STATE_COMPLETED s2)
                else done SOF_TASK_STATE_RESCHEDULE (set_status COMP_STATE_ACTIVE s2) })"

text \<open>The data copying part of the task.\<close>

definition pipeline_task_copy :: "'p fw_env \<Rightarrow> addr \<Rightarrow> 'p fw \<Rightarrow> (task_state \<times> 'p fw) option" where
  "pipeline_task_copy env p s =
     (if pp_status (pipe s p) = COMP_STATE_PAUSED then Some (SOF_TASK_STATE_COMPLETED, s)
      else do {
        (err, s1) \<leftarrow> pipeline_copy env p s;
        if err < 0 then
          (let (err, s2) = pipeline_xrun_recover p s1
           in Some (if err < 0 then SOF_TASK_STATE_COMPLETED else SOF_TASK_STATE_RESCHEDULE, s2))
        else Some (SOF_TASK_STATE_RESCHEDULE, s1) })"

definition pipeline_task_run :: "'p fw_env \<Rightarrow> addr \<Rightarrow> 'p fw \<Rightarrow> (task_state \<times> 'p fw) option" where
  "pipeline_task_run env p s =
     (if trig_delay (pipe s p) \<noteq> 0 then
        Some (SOF_TASK_STATE_RESCHEDULE, upd_pipe p (\<lambda>q. q\<lparr>trig_delay := trig_delay q - 1\<rparr>) s)
      else if trig_cmd (pipe s p) \<noteq> COMP_TRIGGER_NO_ACTION then do {
        (st, s1) \<leftarrow> pipeline_task_cmd env p s;
        if st \<noteq> SOF_TASK_STATE_RUNNING then Some (st, s1) else pipeline_task_copy env p s1 }
      else pipeline_task_copy env p s)"

definition pipeline_task_fn :: "'p fw_env \<Rightarrow> addr \<Rightarrow> 'p fw \<Rightarrow> (task_state \<times> 'p fw) option" where
  "pipeline_task_fn env p s =
     (if xrun_bytes (pipe s p) \<noteq> 0 then
        (let s1 = (if trig_cmd (pipe s p) \<noteq> COMP_TRIGGER_NO_ACTION
                   then emit (Ipc_Reply (- EPIPE)) (upd_pipe p (\<lambda>q. q\<lparr>trig_cmd := COMP_TRIGGER_NO_ACTION\<rparr>) s) else s);
             (err, s2) = pipeline_xrun_recover p s1
         in if err < 0 then Some (SOF_TASK_STATE_COMPLETED, s2) else pipeline_task_run env p s2)
      else pipeline_task_run env p s)"

end
