(* ===== verification/Sof_Walk.thy ===== *)
theory Sof_Walk
  imports Sof_Pipeline
begin

text \<open>
  The contract of a component function and what it gives for the walk: with fuel above the number
  of buffers the walk returns, and it leaves the graph and the walking marks as they were. All
  walks of the pipeline code are instances.
\<close>

section \<open>What a walk keeps\<close>

text \<open>The graph with the walking marks, and the periods of the pipelines.\<close>

definition shape ::
    "'p fw \<Rightarrow> (addr \<Rightarrow> addr list \<times> addr list) \<times> (addr \<Rightarrow> addr \<times> addr \<times> bool) \<times> (addr \<Rightarrow> int)" where
  "shape s = ((\<lambda>c. (bsource_list (cdev s c), bsink_list (cdev s c))),
              (\<lambda>b. (b_source (buf s b), b_sink (buf s b), walking (buf s b))),
              (\<lambda>p. pp_period (pipe s p)))"

text \<open>The invariant \<open>P\<close> of the environment is about the memory map and the private state.\<close>

definition holds :: "(mm \<Rightarrow> 'p \<Rightarrow> bool) \<Rightarrow> 'p fw \<Rightarrow> bool" where
  "holds P s \<longleftrightarrow> P (bs_mm (fw_buf s)) (priv s)"

definition keeps :: "(mm \<Rightarrow> 'p \<Rightarrow> bool) \<Rightarrow> 'p fw \<Rightarrow> 'p fw \<Rightarrow> bool" where
  "keeps P s t \<longleftrightarrow> shape t = shape s \<and> holds P t"

text \<open>The collected pipelines form a list.\<close>

definition linked :: "wdata \<Rightarrow> bool" where
  "linked d \<longleftrightarrow> (\<exists>xs. fwd_list (wd_pipelines d) walk_head xs)"

definition returns :: "(mm \<Rightarrow> 'p \<Rightarrow> bool) \<Rightarrow> 'p fw \<Rightarrow> (int \<times> 'p wst) option \<Rightarrow> bool" where
  "returns P s r \<longleftrightarrow> (\<exists>err t e. r = Some (err, t, e) \<and> keeps P s t \<and> linked e)"

lemma linked_upd [simp]:
  "linked (d\<lparr>wd_start := a\<rparr>) = linked d" "linked (d\<lparr>wd_params := q\<rparr>) = linked d" "linked (d\<lparr>wd_posn := po\<rparr>) = linked d"
  "linked (d\<lparr>wd_p := p\<rparr>) = linked d" "linked (d\<lparr>wd_cmd := c\<rparr>) = linked d" "linked (d\<lparr>wd_delay_ms := y\<rparr>) = linked d"
  "linked (init_pipelines d)" "linked (walk_data start p cmd)"
  by (auto simp: linked_def init_pipelines_def walk_data_def intro: fwd_list_init)

lemma keeps_refl: "holds P s \<Longrightarrow> keeps P s s"
  by (simp add: keeps_def)

lemma keeps_trans: "keeps P s t \<Longrightarrow> keeps P t u \<Longrightarrow> keeps P s u"
  by (simp add: keeps_def)

lemma keeps_holds: "keeps P s t \<Longrightarrow> holds P t"
  by (simp add: keeps_def)

lemma returns_trans: "keeps P s t \<Longrightarrow> returns P t r \<Longrightarrow> returns P s r"
  unfolding returns_def using keeps_trans by blast

lemma shape_eqD:
  assumes "shape t = shape s"
  shows "bsource_list (cdev t c) = bsource_list (cdev s c)" "bsink_list (cdev t c) = bsink_list (cdev s c)"
    "b_source (buf t b) = b_source (buf s b)" "b_sink (buf t b) = b_sink (buf s b)"
    "walking (buf t b) = walking (buf s b)" "pp_period (pipe t p) = pp_period (pipe s p)"
    "comp_buffer_list (cdev t c) dir = comp_buffer_list (cdev s c) dir"
  using assms unfolding shape_def by (auto simp: fun_eq_iff comp_buffer_list_def)

lemma shape_upd_comp:
  "(\<And>c. bsource_list (f c) = bsource_list c \<and> bsink_list (f c) = bsink_list c) \<Longrightarrow> shape (upd_comp d f s) = shape s"
  by (simp add: shape_def fun_eq_iff)

lemma shape_upd_pipe: "(\<And>q. pp_period (f q) = pp_period q) \<Longrightarrow> shape (upd_pipe p f s) = shape s"
  by (simp add: shape_def fun_eq_iff)

lemma shape_upd_buf:
  "b_source (f (buf s b)) = b_source (buf s b) \<Longrightarrow> b_sink (f (buf s b)) = b_sink (buf s b) \<Longrightarrow>
   walking (f (buf s b)) = walking (buf s b) \<Longrightarrow> shape (upd_buf b f s) = shape s"
  by (auto simp: shape_def fun_eq_iff)

lemma shape_emit: "shape (emit e s) = shape s"
  by (simp add: shape_def)

lemma holds_upd [simp]:
  "holds P (upd_comp d f s) = holds P s" "holds P (upd_pipe p g s) = holds P s"
  "holds P (upd_buf b h s) = holds P s" "holds P (emit e s) = holds P s"
  by (simp_all add: holds_def fw_upd_defs)

lemma buffer_set_params_ends:
  "b_source (snd (buffer_set_params b p f)) = b_source b" "b_sink (snd (buffer_set_params b p f)) = b_sink b"
  "walking (snd (buffer_set_params b p f)) = walking b"
  by (auto simp: buffer_set_params_def Let_def split: option.splits prod.splits)

section \<open>The walk contract\<close>

definition bufs_within :: "addr set \<Rightarrow> 'p fw \<Rightarrow> bool" where
  "bufs_within B s \<longleftrightarrow> finite B \<and> (\<forall>c. set (bsource_list (cdev s c)) \<union> set (bsink_list (cdev s c)) \<subseteq> B)"

definition unwalked :: "addr set \<Rightarrow> 'p fw \<Rightarrow> nat" where
  "unwalked B s = card {b \<in> B. \<not> walking (buf s b)}"

lemma unwalked_shape: assumes "shape t = shape s" shows "unwalked B t = unwalked B s"
  by (simp add: unwalked_def shape_eqD [OF assms])

lemma within_shape: assumes "shape t = shape s" shows "bufs_within B t = bufs_within B s"
  by (simp add: bufs_within_def shape_eqD [OF assms])

lemma keepsD:
  assumes "keeps P s t"
  shows "shape t = shape s" "holds P t" "bufs_within B t = bufs_within B s" "unwalked B t = unwalked B s"
    "walking (buf t b) = walking (buf s b)"
proof -
  show sh: "shape t = shape s" and "holds P t" using assms by (auto simp: keeps_def)
  show "bufs_within B t = bufs_within B s" "unwalked B t = unwalked B s" "walking (buf t b) = walking (buf s b)"
    using within_shape [OF sh] unwalked_shape [OF sh] shape_eqD(5) [OF sh] by auto
qed

definition mark :: "addr \<Rightarrow> 'p fw \<Rightarrow> 'p fw" where
  "mark b s = upd_buf b (\<lambda>x. x\<lparr>walking := True\<rparr>) s"

lemma unwalked_mark:
  assumes "finite B" "b \<in> B" "\<not> walking (buf s b)"
  shows "unwalked B (mark b s) < unwalked B s"
proof -
  have "{c \<in> B. \<not> walking (buf (mark b s) c)} = {c \<in> B. \<not> walking (buf s c)} - {b}"
    by (auto simp: mark_def)
  then show ?thesis unfolding unwalked_def using assms by (simp only:) (intro card_Diff1_less, auto)
qed

lemma mark_shape:
  assumes "shape t = shape s"
  shows "shape (mark b t) = shape (mark b s)"
  using shape_eqD [OF assms] by (auto simp: shape_def fun_eq_iff mark_def)

lemma unmark_shape:
  assumes "shape t = shape (mark b s)" "\<not> walking (buf s b)"
  shows "shape (upd_buf b (\<lambda>x. x\<lparr>walking := False\<rparr>) t) = shape s"
proof -
  note e = shape_eqD [OF assms(1), unfolded mark_def]
  show ?thesis using e(1,2,3,4,5,6) assms(2) by (auto simp: shape_def fun_eq_iff)
qed

text \<open>
  A component function returns and keeps the graph whenever the rest of the walk does; a buffer
  function keeps the graph.
\<close>

locale graph_walk =
  fixes ctx :: "'p walk_ctx" and P :: "mm \<Rightarrow> 'p \<Rightarrow> bool"
  assumes body: "\<And>s d next current b dir.
      holds P s \<Longrightarrow> linked d \<Longrightarrow>
      (\<And>t e. keeps P s t \<Longrightarrow> linked e \<Longrightarrow> returns P t (next current dir (t, e))) \<Longrightarrow>
      returns P s (cx_comp ctx next current b dir (s, d))"
    and buff: "\<And>s d b. holds P s \<Longrightarrow> linked d \<Longrightarrow>
      keeps P s (fst (cx_buff ctx b (s, d))) \<and> linked (snd (cx_buff ctx b (s, d)))"
begin

lemma for_buffers_returns:
  assumes "keeps P s0 s" "linked d"
    "\<And>c b dir t e. b \<in> set bs \<Longrightarrow> \<not> walking (buf s0 b) \<Longrightarrow> keeps P (mark b s0) t \<Longrightarrow> linked e \<Longrightarrow>
       returns P t (f c b dir (t, e))"
  shows "returns P s0 (for_buffers ctx f dir bs (s, d))"
  using assms
proof (induction bs arbitrary: s d)
  case Nil
  then show ?case by (simp add: returns_def)
next
  case (Cons b bs)
  have rest: "returns P s0 (for_buffers ctx f dir bs (t, e))" if "keeps P s0 t" "linked e" for t e
    using Cons.IH [OF that] Cons.prems(3) by auto
  show ?case
  proof (cases "walking (buf s b)")
    case True
    then show ?thesis using rest [OF Cons.prems(1,2)] by simp
  next
    case False
    then have nw: "\<not> walking (buf s0 b)" by (simp add: keepsD [OF Cons.prems(1)])
    obtain t e where t: "cx_buff ctx b (s, d) = (t, e)" by (cases "cx_buff ctx b (s, d)")
    have k: "keeps P s0 t" "linked e"
      using buff [OF keeps_holds [OF Cons.prems(1)] Cons.prems(2), of b] t keeps_trans [OF Cons.prems(1)] by simp_all
    let ?c = "buffer_get_comp (buf t b) dir"
    have km: "keeps P (mark b s0) (mark b t)" using mark_shape [OF keepsD(1) [OF k(1)]] k by (simp add: keeps_def mark_def)
    then obtain err u g where u: "f ?c b dir (mark b t, e) = Some (err, u, g)" "keeps P (mark b t) u" "linked g"
      using Cons.prems(3) [of b "mark b t" e ?c dir] nw k(2) unfolding returns_def by auto
    let ?u = "upd_buf b (\<lambda>x. x\<lparr>walking := False\<rparr>) u"
    have "keeps P (mark b s0) u" using keeps_trans [OF km u(2)] .
    then have ku: "keeps P s0 ?u" using unmark_shape [of u b s0] nw by (simp add: keeps_def)
    have "for_buffers ctx f dir (b # bs) (s, d) =
        (if ?c = 0 \<or> skip_incomplete ctx \<and> c_pipeline (cdev t ?c) = 0 then for_buffers ctx f dir bs (t, e)
         else if stops err then Some (err, ?u, g) else for_buffers ctx f dir bs (?u, g))"
      using False t u(1) by (simp add: set_walking_def mark_def Let_def)
    then show ?thesis using rest [OF k] rest [OF ku u(3)] ku u(3) by (auto simp: returns_def)
  qed
qed

lemma walk_returns:
  assumes "holds P s" "linked d" "bufs_within B s" "unwalked B s < n"
  shows "returns P s (run_walk n ctx current b dir (s, d))"
  using assms
proof (induction n arbitrary: s d current b dir)
  case (Suc n)
  have "returns P t (pipeline_for_each_comp ctx (run_walk n ctx) current dir (t, e))" if kt: "keeps P s t" "linked e" for t e
  proof -
    have t: "bufs_within B t" "unwalked B t \<le> n" "holds P t"
      using Suc.prems by (auto simp: keepsD [OF kt(1)])
    then have B: "set (comp_buffer_list (cdev t current) dir) \<subseteq> B" "finite B"
      by (auto simp: bufs_within_def comp_buffer_list_def)
    show ?thesis unfolding pipeline_for_each_comp_def fst_conv
    proof (rule for_buffers_returns [OF keeps_refl [OF t(3)] kt(2)], goal_cases)
      case (1 c b' dir' u g)
      then have "unwalked B (mark b' t) < unwalked B t" using unwalked_mark B by blast
      moreover have "bufs_within B (mark b' t)" using t(1) by (simp add: bufs_within_def mark_def)
      ultimately show ?case using Suc.IH t(2) 1(4) by (simp add: keepsD [OF 1(3)])
    qed
  qed
  then show ?case using body [OF Suc.prems(1,2)] by simp
qed simp

end

section \<open>The contract of the environment\<close>

text \<open>Operations that return and keep the graph, from every state in which \<open>P\<close> holds.\<close>

definition op_returns :: "(mm \<Rightarrow> 'p \<Rightarrow> bool) \<Rightarrow> ('p fw \<Rightarrow> (int \<times> 'p fw) option) \<Rightarrow> bool" where
  "op_returns P f \<longleftrightarrow> (\<forall>s. holds P s \<longrightarrow> (\<exists>r t. f s = Some (r, t) \<and> keeps P s t))"

definition pop_returns :: "(mm \<Rightarrow> 'p \<Rightarrow> bool) \<Rightarrow> ('p fw \<Rightarrow> (int \<times> sof_ipc_stream_params \<times> 'p fw) option) \<Rightarrow> bool" where
  "pop_returns P f \<longleftrightarrow> (\<forall>s. holds P s \<longrightarrow> (\<exists>r q t. f s = Some (r, q, t) \<and> keeps P s t))"

definition op_keeps :: "(mm \<Rightarrow> 'p \<Rightarrow> bool) \<Rightarrow> ('p fw \<Rightarrow> 'p fw) \<Rightarrow> bool" where
  "op_keeps P f \<longleftrightarrow> (\<forall>s. holds P s \<longrightarrow> keeps P s (f s))"

text \<open>
  The operations of the drivers, of the schedulers and of the allocator return and change neither
  the connections of the graph nor the walking marks.
\<close>

definition env_returns :: "'p fw_env \<Rightarrow> (mm \<Rightarrow> 'p \<Rightarrow> bool) \<Rightarrow> bool" where
  "env_returns env P \<longleftrightarrow>
     (\<forall>d. op_returns P (comp_reset env d) \<and> op_returns P (comp_prepare env d) \<and> op_returns P (comp_copy env d)) \<and>
     (\<forall>d cmd. op_returns P (comp_trigger env d cmd)) \<and>
     (\<forall>d params. pop_returns P (comp_params env d params)) \<and>
     (\<forall>d params dir. pop_returns P (comp_dai_get_hw_params env d params dir)) \<and>
     op_returns P (fw_rzalloc (env_plat env) SOF_MEM_ZONE_RUNTIME (sizeof_pipeline_task env)) \<and>
     (\<forall>s task t u. holds P s \<longrightarrow>
        fw_rzalloc (env_plat env) SOF_MEM_ZONE_RUNTIME (sizeof_pipeline_task env) s = Some (task, t) \<longrightarrow> task \<noteq> 0 \<longrightarrow>
        keeps P t u \<longrightarrow> (\<exists>v. fw_rfree (env_plat env) task u = Some v \<and> keeps P u v)) \<and>
     (\<forall>task typ prio p core. op_keeps P (\<lambda>s. snd (schedule_task_init_ll (env_sched env) task typ prio p core s))) \<and>
     (\<forall>task start period. op_keeps P (schedule_task (env_sched env) task start period)) \<and>
     (\<forall>task start period other. op_keeps P (schedule_task_before (env_sched env) task start period other) \<and>
        op_keeps P (schedule_task_after (env_sched env) task start period other)) \<and>
     (\<forall>task. op_keeps P (schedule_task_cancel (env_sched env) task))"

lemma returns_Some: "keeps P s t \<Longrightarrow> linked d \<Longrightarrow> returns P s (Some (e, t, d))"
  by (simp add: returns_def)

lemma returns_op:
  "op_returns P f \<Longrightarrow> keeps P s t \<Longrightarrow> (\<And>r u. keeps P s u \<Longrightarrow> returns P s (g (r, u))) \<Longrightarrow>
   returns P s (Option.bind (f t) g)"
  unfolding op_returns_def by (metis bind.bind_lunit keeps_holds keeps_trans)

lemma returns_pop:
  "pop_returns P f \<Longrightarrow> keeps P s t \<Longrightarrow> (\<And>r q u. keeps P s u \<Longrightarrow> returns P s (g (r, q, u))) \<Longrightarrow>
   returns P s (Option.bind (f t) g)"
  unfolding pop_returns_def by (metis bind.bind_lunit keeps_holds keeps_trans)

lemma returns_bind:
  "returns P t r \<Longrightarrow> keeps P s t \<Longrightarrow> (\<And>err u e. keeps P s u \<Longrightarrow> linked e \<Longrightarrow> returns P s (g (err, u, e))) \<Longrightarrow>
   returns P s (Option.bind r g)"
  unfolding returns_def using keeps_trans by fastforce

text \<open>Rules that take a component function apart, one for each of its constructs.\<close>

lemma returns_if: "(b \<Longrightarrow> returns P s x) \<Longrightarrow> (\<not> b \<Longrightarrow> returns P s y) \<Longrightarrow> returns P s (if b then x else y)"
  by simp

lemma returns_case: "returns P s (f a b) \<Longrightarrow> returns P s (case (a, b) of (x, y) \<Rightarrow> f x y)"
  by simp

lemma returns_Let: "returns P s (f x) \<Longrightarrow> returns P s (Let x f)"
  by simp

lemma returns_bind_if:
  "(b \<Longrightarrow> returns P s (Option.bind x g)) \<Longrightarrow> (\<not> b \<Longrightarrow> returns P s (Option.bind y g)) \<Longrightarrow>
   returns P s (Option.bind (if b then x else y) g)"
  by simp

lemma returns_bind_Some: "returns P s (g x) \<Longrightarrow> returns P s (Option.bind (Some x) g)"
  by simp

lemma returns_bind_case:
  "returns P s (Option.bind (f a b) g) \<Longrightarrow> returns P s (Option.bind (case (a, b) of (x, y) \<Rightarrow> f x y) g)"
  by simp

lemma returns_bind_assoc:
  "returns P s (Option.bind x (\<lambda>y. Option.bind (h y) g)) \<Longrightarrow> returns P s (Option.bind (Option.bind x h) g)"
  by simp

lemmas walk_intros = returns_if returns_case returns_bind_if returns_bind_Some returns_bind_case
  returns_bind_assoc returns_Some

lemmas let_intros = walk_intros returns_Let

lemma keeps_upd:
  "keeps P s t \<Longrightarrow> (\<And>c. bsource_list (f c) = bsource_list c \<and> bsink_list (f c) = bsink_list c) \<Longrightarrow> keeps P s (upd_comp d f t)"
  "keeps P s t \<Longrightarrow> (\<And>q. pp_period (g q) = pp_period q) \<Longrightarrow> keeps P s (upd_pipe p g t)"
  "keeps P s t \<Longrightarrow> keeps P s (emit e t)"
  by (simp_all add: keeps_def shape_upd_comp shape_upd_pipe shape_emit)

lemma keeps_set_params:
  "keeps P s t \<Longrightarrow> keeps P s (upd_buf b (\<lambda>_. snd (buffer_set_params (buf t b) p f)) t)"
  by (simp add: keeps_def shape_upd_buf buffer_set_params_ends)

lemma envD:
  assumes "env_returns env P"
  shows "op_returns P (comp_reset env d)" "op_returns P (comp_prepare env d)" "op_returns P (comp_copy env d)"
    "op_returns P (comp_trigger env d cmd)" "pop_returns P (comp_params env d params)"
    "pop_returns P (comp_dai_get_hw_params env d params dir)" "op_returns P (fw_rzalloc (env_plat env) SOF_MEM_ZONE_RUNTIME (sizeof_pipeline_task env))"
    "holds P s \<Longrightarrow> fw_rzalloc (env_plat env) SOF_MEM_ZONE_RUNTIME (sizeof_pipeline_task env) s = Some (task, t) \<Longrightarrow>
       task \<noteq> 0 \<Longrightarrow> keeps P t u \<Longrightarrow> \<exists>v. fw_rfree (env_plat env) task u = Some v \<and> keeps P u v"
    "op_keeps P (\<lambda>s. snd (schedule_task_init_ll (env_sched env) task typ prio p core s))"
    "op_keeps P (schedule_task (env_sched env) task start period)"
    "op_keeps P (schedule_task_before (env_sched env) task start period other)"
    "op_keeps P (schedule_task_after (env_sched env) task start period other)"
    "op_keeps P (schedule_task_cancel (env_sched env) task)"
  using assms unfolding env_returns_def by auto

section \<open>The walks of the pipeline code\<close>

lemma returns_next:
  "(\<And>t e. keeps P s t \<Longrightarrow> linked e \<Longrightarrow> returns P t (next c dir (t, e))) \<Longrightarrow> keeps P s (fst w) \<Longrightarrow> linked (snd w) \<Longrightarrow>
   returns P s (next c dir w)"
  by (cases w) (auto intro: returns_trans)

interpretation complete_walk: graph_walk complete_ctx P for P
proof (unfold_locales, goal_cases)
  case (1 s d "next" current b dir)
  note nx = returns_next [of P s "next" current dir, OF 1(3)]
  show ?case unfolding complete_ctx_def pipeline_comp_complete_def walk_ctx.simps
    by (intro let_intros nx) (auto intro!: keeps_upd keeps_refl 1)
next
  case (2 s d b)
  then show ?case by (simp add: complete_ctx_def keeps_refl)
qed

lemma sched_comp_fst: "fst (pipeline_comp_trigger_sched_comp p c w) = fst w"
  by (cases w) (simp add: pipeline_comp_trigger_sched_comp_def Let_def)

lemma sched_comp_linked: "linked (snd w) \<Longrightarrow> linked (snd (pipeline_comp_trigger_sched_comp p c w))"
  by (cases w) (auto simp: pipeline_comp_trigger_sched_comp_def Let_def linked_def intro: fwd_list_append_any)

interpretation list_walk: graph_walk list_ctx P for P
proof (unfold_locales, goal_cases)
  case (1 s d "next" current b dir)
  note nx = returns_next [of P s "next" current dir, OF 1(3)]
  show ?case unfolding list_ctx_def pipeline_comp_list_def walk_ctx.simps
    by (intro let_intros nx) (auto simp: sched_comp_fst intro!: sched_comp_linked intro: keeps_refl 1)
next
  case (2 s d b)
  then show ?case by (simp add: list_ctx_def keeps_refl)
qed

lemma reset_walk: "env_returns env P \<Longrightarrow> graph_walk (reset_ctx env) P"
proof (unfold_locales, goal_cases)
  case (1 s d "next" current b dir)
  note nx = returns_next [of P s "next" current dir, OF 1(4)]
  show ?case unfolding reset_ctx_def pipeline_comp_reset_def walk_ctx.simps
    by (intro let_intros nx returns_op [OF envD(1) [OF 1(1)]]) (auto intro: keeps_refl 1)
next
  case (2 s d b)
  then show ?case by (auto simp: reset_ctx_def keeps_def buffer_reset_params_def intro: shape_upd_buf)
qed

lemma copy_walk: "env_returns env P \<Longrightarrow> graph_walk (copy_ctx env) P"
proof (unfold_locales, goal_cases)
  case (1 s d "next" current b dir)
  have down: "returns P s (Option.bind (next current dir (t, e)) g)"
    if "keeps P s t" "linked e" "\<And>err u e. keeps P s u \<Longrightarrow> linked e \<Longrightarrow> returns P s (g (err, u, e))" for t e g
    by (rule returns_bind [OF 1(4) [OF that(1,2)] that(1)]) (rule that(3))
  show ?case unfolding copy_ctx_def pipeline_comp_copy_def walk_ctx.simps
    by (intro let_intros down returns_op [OF envD(3) [OF 1(1)]]) (auto intro: keeps_refl 1)
next
  case (2 s d b)
  then show ?case by (simp add: copy_ctx_def keeps_refl)
qed

lemma timestamp_walk: "graph_walk (timestamp_ctx env) P"
proof (unfold_locales, goal_cases)
  case (1 s d "next" current b dir)
  note nx = returns_next [of P s "next" current dir, OF 1(3)]
  show ?case unfolding timestamp_ctx_def pipeline_comp_timestamp_def walk_ctx.simps
    by (intro let_intros nx) (auto intro: keeps_refl 1)
next
  case (2 s d b)
  then show ?case by (simp add: timestamp_ctx_def keeps_refl)
qed

lemma xrun_walk: "graph_walk (xrun_ctx env) P"
proof (unfold_locales, goal_cases)
  case (1 s d "next" current b dir)
  note nx = returns_next [of P s "next" current dir, OF 1(3)]
  show ?case unfolding xrun_ctx_def pipeline_comp_xrun_def walk_ctx.simps
    by (intro let_intros nx) (auto intro!: keeps_upd keeps_refl 1)
next
  case (2 s d b)
  then show ?case by (simp add: xrun_ctx_def keeps_refl)
qed

lemma returns_set_params:
  "keeps P s t \<Longrightarrow> linked e \<Longrightarrow> returns P s (let (r, bf) = buffer_set_params (buf t b) q u in Some (r, upd_buf b (\<lambda>_. bf) t, e))"
  using keeps_set_params [of P s t b q u] by (auto simp: returns_def split: prod.splits)

lemma hw_param_walk: "env_returns env P \<Longrightarrow> graph_walk (hw_param_ctx env) P"
proof (unfold_locales, goal_cases)
  case (1 s d "next" current b dir)
  have down: "returns P s (Option.bind (next current dir (t, e)) g)"
    if "keeps P s t" "linked e" "\<And>err u e. keeps P s u \<Longrightarrow> linked e \<Longrightarrow> returns P s (g (err, u, e))" for t e g
    by (rule returns_bind [OF 1(4) [OF that(1,2)] that(1)]) (rule that(3))
  show ?case unfolding hw_param_ctx_def pipeline_comp_hw_params_def walk_ctx.simps
    by (intro walk_intros down returns_set_params returns_pop [OF envD(6) [OF 1(1)]]) (auto intro: keeps_refl 1)
next
  case (2 s d b)
  then show ?case by (simp add: hw_param_ctx_def keeps_refl)
qed

lemma neg_body: "holds P s \<Longrightarrow> linked d \<Longrightarrow> returns P s (pipeline_comp_params_neg c b dir (s, d))"
  unfolding pipeline_comp_params_neg_def by (intro walk_intros returns_set_params keeps_refl)

lemma neg_walk: "graph_walk param_neg_ctx P"
  by unfold_locales (simp_all add: param_neg_ctx_def neg_body keeps_refl)

lemma neg_returns:
  assumes "holds P s" "linked d"
  shows "returns P s (pipeline_for_each_comp param_neg_ctx pipeline_comp_params_neg current dir (s, d))"
  unfolding pipeline_for_each_comp_def
proof (rule graph_walk.for_buffers_returns [OF neg_walk], goal_cases)
  case 1
  then show ?case using assms(1) by (rule keeps_refl)
next
  case 2
  show ?case by (rule assms(2))
next
  case (3 c b dir t e)
  then show ?case by (intro neg_body keeps_holds)
qed

lemma params_walk: "env_returns env P \<Longrightarrow> graph_walk (param_ctx env) P"
proof (unfold_locales, goal_cases)
  case (1 s d "next" current b dir)
  note nx = returns_next [of P s "next" current dir, OF 1(4)]
  have neg: "returns P s (Option.bind (pipeline_for_each_comp param_neg_ctx pipeline_comp_params_neg c dir' (s, e)) g)"
    if "linked e" "\<And>err u e. keeps P s u \<Longrightarrow> linked e \<Longrightarrow> returns P s (g (err, u, e))" for e g c dir'
    by (rule returns_bind [OF neg_returns [OF 1(2) that(1)] keeps_refl [OF 1(2)]]) (rule that(2))
  show ?case unfolding param_ctx_def pipeline_comp_params_def walk_ctx.simps
    by (intro let_intros nx neg returns_pop [OF envD(5) [OF 1(1)]]) (auto intro!: keeps_upd intro: keeps_refl 1)
next
  case (2 s d b)
  then show ?case by (simp add: param_ctx_def keeps_refl)
qed

lemma task_init_op:
  assumes "env_returns env P"
  shows "op_returns P (pipeline_comp_task_init env p)"
proof -
  have init: "\<exists>task t. pipeline_task_init env p ty s = Some (task, t) \<and> keeps P s t" if h: "holds P s" for ty s
  proof -
    obtain task s1 where a: "fw_rzalloc (env_plat env) SOF_MEM_ZONE_RUNTIME (sizeof_pipeline_task env) s = Some (task, s1)"
        "keeps P s s1"
      using envD(7) [OF assms] h unfolding op_returns_def by blast
    obtain ret s2 where i: "schedule_task_init_ll (env_sched env) task ty (pp_priority (pipe s1 p)) p (pp_core (pipe s1 p)) s1 = (ret, s2)"
      by (meson surj_pair)
    have k1: "keeps P s1 s2"
      using envD(9) [OF assms, of task ty "pp_priority (pipe s1 p)" p "pp_core (pipe s1 p)"] i keeps_holds [OF a(2)]
      unfolding op_keeps_def by (metis snd_conv)
    note k2 = keeps_trans [OF a(2) k1]
    have r: "task \<noteq> 0 \<Longrightarrow> \<exists>s3. fw_rfree (env_plat env) task s2 = Some s3 \<and> keeps P s s3"
      using envD(8) [OF assms h a(1) _ k1] keeps_trans [OF k2] by blast
    have "keeps P s (s2\<lparr>ptasks := x\<rparr>)" for x using k2 by (simp add: keeps_def shape_def holds_def)
    then show ?thesis using a i r by (cases "task = 0") (auto simp: pipeline_task_init_def)
  qed
  show ?thesis unfolding op_returns_def
  proof (intro allI impI)
    fix s assume h: "holds P s"
    let ?ty = "if pipeline_is_timer_driven (pipe s p) then SOF_SCHEDULE_LL_TIMER else SOF_SCHEDULE_LL_DMA"
    obtain task t where "pipeline_task_init env p ?ty s = Some (task, t)" "keeps P s t" using init [OF h] by blast
    then show "\<exists>r t. pipeline_comp_task_init env p s = Some (r, t) \<and> keeps P s t"
      using keeps_upd(2) [of P s t "\<lambda>q. q\<lparr>pipe_task := task\<rparr>" p] keeps_refl [OF h]
      by (simp add: pipeline_comp_task_init_def)
  qed
qed

lemma reset_pos_keeps: "holds P s \<Longrightarrow> keeps P s (fw_buffer_reset_pos b s)"
  by (auto simp: fw_buffer_reset_pos_def buffer_reset_pos_def buffer_zero_def Let_def keeps_def holds_def shape_def
      fun_eq_iff fw_upd_defs)

lemma prepare_walk: "env_returns env P \<Longrightarrow> graph_walk (prepare_ctx env) P"
proof (unfold_locales, goal_cases)
  case (1 s d "next" current b dir)
  note nx = returns_next [of P s "next" current dir, OF 1(4)]
  show ?case unfolding prepare_ctx_def pipeline_comp_prepare_def walk_ctx.simps
    by (intro let_intros nx returns_op [OF task_init_op [OF 1(1)]] returns_op [OF envD(2) [OF 1(1)]])
      (auto intro: keeps_refl 1)
next
  case (2 s d b)
  then show ?case by (simp add: prepare_ctx_def reset_pos_keeps)
qed

lemma trigger_walk_contract: "env_returns env P \<Longrightarrow> graph_walk (trigger_ctx env) P"
proof (unfold_locales, goal_cases)
  case (1 s d "next" current b dir)
  note nx = returns_next [of P s "next" current dir, OF 1(4)]
  show ?case unfolding trigger_ctx_def pipeline_comp_trigger_def walk_ctx.simps
    by (intro let_intros nx returns_op [OF envD(4) [OF 1(1)]])
      (auto simp: sched_comp_fst intro!: sched_comp_linked keeps_upd(2) intro: keeps_refl 1)
next
  case (2 s d b)
  then show ?case by (simp add: trigger_ctx_def keeps_refl)
qed

end
