(* ===== verification/Sof_Pipeline_Ops.thy ===== *)
theory Sof_Pipeline_Ops
  imports Sof_Walk
begin

text \<open>
  The pipeline operations return: each walk ends within its fuel, the graph is left as it was and
  no buffer stays marked, whatever the drivers report. The operations that trigger and run the
  pipelines inherit this through the contract of theory \<open>Sof_Walk\<close>.
\<close>

section \<open>Operations built on walks\<close>

definition fw_returns :: "(mm \<Rightarrow> 'p \<Rightarrow> bool) \<Rightarrow> 'p fw \<Rightarrow> ('a \<times> 'p fw) option \<Rightarrow> bool" where
  "fw_returns P s r \<longleftrightarrow> (\<exists>ret t. r = Some (ret, t) \<and> keeps P s t)"

text \<open>The fuel exceeds the number of buffers of the graph.\<close>

definition walk_ready :: "'p fw_env \<Rightarrow> (mm \<Rightarrow> 'p \<Rightarrow> bool) \<Rightarrow> 'p fw \<Rightarrow> bool" where
  "walk_ready env P s \<longleftrightarrow> env_returns env P \<and> holds P s \<and> (\<exists>B. bufs_within B s \<and> card B < walk_fuel env)"

lemma walk_ready_keeps: "walk_ready env P s \<Longrightarrow> keeps P s t \<Longrightarrow> walk_ready env P t"
  unfolding walk_ready_def using keepsD(2,3) by blast

lemma fw_returns_Some: "keeps P s t \<Longrightarrow> fw_returns P s (Some (r, t))"
  by (simp add: fw_returns_def)

lemma fw_returns_trans: "keeps P s t \<Longrightarrow> fw_returns P t r \<Longrightarrow> fw_returns P s r"
  unfolding fw_returns_def using keeps_trans by blast

lemma fw_returns_bind:
  "fw_returns P t r \<Longrightarrow> keeps P s t \<Longrightarrow> (\<And>ret u. keeps P s u \<Longrightarrow> fw_returns P s (g (ret, u))) \<Longrightarrow>
   fw_returns P s (Option.bind r g)"
  unfolding fw_returns_def using keeps_trans by fastforce

lemma fw_returns_walk:
  assumes "walk_ready env P t" "graph_walk ctx P" "linked d" "keeps P s t"
    "\<And>ret u e. keeps P s u \<Longrightarrow> linked e \<Longrightarrow> fw_returns P s (g (ret, u, e))"
  shows "fw_returns P s (Option.bind (run_walk (walk_fuel env) ctx c b dir (t, d)) g)"
proof -
  obtain B where B: "bufs_within B t" "card B < walk_fuel env" "holds P t"
    using assms(1) by (auto simp: walk_ready_def)
  have "unwalked B t \<le> card B" using B(1) by (auto simp: unwalked_def bufs_within_def intro: card_mono)
  then have "returns P t (run_walk (walk_fuel env) ctx c b dir (t, d))"
    using B assms(3) by (intro graph_walk.walk_returns [OF assms(2)]) auto
  then show ?thesis using assms(4,5) keeps_trans unfolding returns_def by fastforce
qed

lemma fw_returns_if: "(b \<Longrightarrow> fw_returns P s x) \<Longrightarrow> (\<not> b \<Longrightarrow> fw_returns P s y) \<Longrightarrow> fw_returns P s (if b then x else y)"
  by simp

lemma fw_returns_case: "fw_returns P s (f a b) \<Longrightarrow> fw_returns P s (case (a, b) of (x, y) \<Rightarrow> f x y)"
  by simp

lemma fw_returns_Let: "fw_returns P s (f x) \<Longrightarrow> fw_returns P s (Let x f)"
  by simp

lemmas fw_intros = fw_returns_if fw_returns_case fw_returns_Let fw_returns_Some

lemma readyD: "walk_ready env P s \<Longrightarrow> env_returns env P" "walk_ready env P s \<Longrightarrow> keeps P s s"
  by (auto simp: walk_ready_def keeps_refl)

lemma copy_returns: "walk_ready env P s \<Longrightarrow> fw_returns P s (pipeline_copy env p s)"
  unfolding pipeline_copy_def
  by (cases "c_direction (cdev s (source_comp (pipe s p))) = SOF_IPC_STREAM_PLAYBACK")
    (auto simp: Let_def intro!: fw_returns_walk fw_returns_Some copy_walk readyD)

lemma reset_returns: "walk_ready env P s \<Longrightarrow> fw_returns P s (pipeline_reset env p host s)"
  unfolding pipeline_reset_def
  by (intro fw_returns_walk fw_intros) (auto intro!: reset_walk readyD keeps_upd)

lemma prepare_returns: "walk_ready env P s \<Longrightarrow> fw_returns P s (pipeline_prepare env p dev s)"
  unfolding pipeline_prepare_def
  by (intro fw_returns_walk fw_intros) (auto intro!: prepare_walk readyD keeps_upd)

lemma timestamp_returns: "walk_ready env P s \<Longrightarrow> fw_returns P s (pipeline_get_timestamp env p host posn s)"
  unfolding pipeline_get_timestamp_def
  by (intro fw_returns_walk fw_intros) (auto intro!: timestamp_walk readyD)

lemma params_returns:
  assumes "walk_ready env P s"
  shows "\<exists>ret q t. pipeline_params env p host params hw_params s = Some (ret, q, t) \<and> keeps P s t"
proof -
  let ?swap = "\<lambda>r. map_option (\<lambda>(ret, q, t). ((ret, q), t)) r"
  have eq: "?swap (pipeline_params env p host params hw_params s) =
      do { (ret, s1, d1) \<leftarrow> run_walk (walk_fuel env) (hw_param_ctx env) host 0 (p_direction params)
              (s, (walk_data host 0 0)\<lparr>wd_params := hw_params\<rparr>);
           if ret < 0 then Some ((ret, params), s1)
           else do { (ret, s2, d2) \<leftarrow> run_walk (walk_fuel env) (param_ctx env) host 0 (p_direction params)
                       (s1, (walk_data host 0 0)\<lparr>wd_params := params\<rparr>);
                     Some ((ret, wd_params d2), s2) } }"
    by (auto simp: pipeline_params_def split: bind_splits)
  have "fw_returns P s (?swap (pipeline_params env p host params hw_params s))"
    unfolding eq using assms
    by (intro fw_returns_walk fw_intros) (auto intro!: hw_param_walk params_walk readyD intro: walk_ready_keeps [OF assms])
  then show ?thesis by (auto simp: fw_returns_def)
qed

lemma complete_returns:
  assumes "bufs_within B s" "card B < walk_fuel env"
  shows "\<exists>ret t. pipeline_complete env p source sink s = Some (ret, t) \<and> shape t = shape s"
proof (cases "pp_status (pipe s p) = COMP_STATE_INIT")
  case False
  then show ?thesis by (simp add: pipeline_complete_def)
next
  case True
  have "unwalked B s \<le> card B" using assms(1) by (auto simp: unwalked_def bufs_within_def intro: card_mono)
  then have "returns (\<lambda>_ _. True) s (run_walk (walk_fuel env) complete_ctx source 0 PPL_DIR_DOWNSTREAM (s, walk_data source p 0))"
    using assms by (intro complete_walk.walk_returns) (auto simp: holds_def)
  then obtain ret t e where t: "run_walk (walk_fuel env) complete_ctx source 0 PPL_DIR_DOWNSTREAM (s, walk_data source p 0) = Some (ret, t, e)"
      "shape t = shape s"
    by (auto simp: returns_def keeps_def)
  have "shape (trace_heap (upd_pipe p g t)) = shape s" if "\<And>q. pp_period (g q) = pp_period q" for g
    using t(2) shape_upd_pipe [OF that, of p t] by (simp add: trace_heap_def set_mm_def shape_def)
  then show ?thesis using True t(1) by (simp add: pipeline_complete_def)
qed

section \<open>Scheduling what was triggered\<close>

lemma schedule_copy_keeps:
  assumes "env_returns env P" "holds P s"
  shows "keeps P s (pipeline_schedule_copy env p start s)"
proof -
  define s1 where "s1 = (if \<not> pipeline_is_timer_driven (pipe s p) then emit (Panic_On_Delay False) s else s)"
  have k: "keeps P s s1" using keeps_refl [OF assms(2)] by (simp add: s1_def keeps_upd)
  have go: "keeps P s (f s1)" if "op_keeps P f" for f
    using that keeps_holds [OF k] keeps_trans [OF k] unfolding op_keeps_def by blast
  show ?thesis
    unfolding pipeline_schedule_copy_def s1_def [symmetric] Let_def
    using go [OF envD(10) [OF assms(1)]] go [OF envD(11) [OF assms(1)]] go [OF envD(12) [OF assms(1)]] by simp
qed

lemma cancel_keeps: "env_returns env P \<Longrightarrow> holds P s \<Longrightarrow> keeps P s (pipeline_schedule_cancel env p s)"
  using envD(13) unfolding pipeline_schedule_cancel_def op_keeps_def by (blast intro: keeps_upd(3))

lemma triggered_keeps:
  assumes "env_returns env P" "holds P s"
  shows "keeps P s (snd (triggered_stop env cmd p (start, s)))" "keeps P s (snd (triggered_start env cmd p (start, s)))"
    "keeps P s (triggered_xrun p s)"
proof -
  have r: "keeps P s s" using assms(2) by (rule keeps_refl)
  show "keeps P s (snd (triggered_stop env cmd p (start, s)))" "keeps P s (triggered_xrun p s)"
    using cancel_keeps [OF assms] r by (auto simp: triggered_stop_def triggered_xrun_def intro!: keeps_upd(2))
  have sc: "keeps P s (pipeline_schedule_copy env p 0 t)" if "keeps P s t" for t
    using that schedule_copy_keeps [OF assms(1) keeps_holds [OF that]] by (rule keeps_trans)
  show "keeps P s (snd (triggered_start env cmd p (start, s)))"
    using r by (auto simp: triggered_start_def Let_def intro!: sc keeps_upd(2))
qed

lemma fold_keeps:
  assumes "\<And>x a t. holds P t \<Longrightarrow> keeps P t (snd (f x (a, t)))" "keeps P s t"
  shows "keeps P s (snd (fold f xs (a, t)))"
  using assms(2)
proof (induction xs arbitrary: a t)
  case (Cons x xs)
  obtain b u where u: "f x (a, t) = (b, u)" by (cases "f x (a, t)")
  then have "keeps P s u" using assms(1) [OF keeps_holds [OF Cons.prems], of x a] keeps_trans [OF Cons.prems] by simp
  then show ?case using Cons.IH [of u b] u by simp
qed simp

lemma fold_keeps1: "(\<And>x t. holds P t \<Longrightarrow> keeps P t (f x t)) \<Longrightarrow> keeps P s t \<Longrightarrow> keeps P s (fold f xs t)"
  by (induction xs arbitrary: t) (simp_all, meson keeps_trans keeps_holds)

lemma schedule_triggered_returns:
  assumes "env_returns env P" "keeps P s t" "linked d"
  shows "\<exists>u e. pipeline_schedule_triggered env cmd (t, d) = Some (u, e) \<and> keeps P s u"
proof -
  obtain ps where ps: "list_for_item (wd_pipelines d) (nx (wd_pipelines d walk_head)) walk_head = Some ps"
    using assms(3) for_item_fwd by (auto simp: linked_def)
  note k = fold_keeps [OF _ assms(2)] fold_keeps1 [OF _ assms(2)]
  show ?thesis
    using k(1) [of "triggered_stop env cmd" ps "wd_start d"] k(1) [of "triggered_start env cmd" ps "wd_start d"]
      k(2) [of triggered_xrun ps] triggered_keeps [OF assms(1)] assms(2)
    by (auto simp: pipeline_schedule_triggered_def ps split: prod.splits)
qed

section \<open>Triggering\<close>

lemma trigger_out_returns:
  "env_returns env P \<Longrightarrow> keeps P s t \<Longrightarrow> linked d \<Longrightarrow> fw_returns P s (trigger_out env cmd ret (t, d))"
  using schedule_triggered_returns [of env P s t d cmd] by (auto simp: trigger_out_def fw_returns_def)

lemma chain_keeps: "holds P s \<Longrightarrow> keeps P s (snd (chain_pipeline p (up, s)))"
  by (auto simp: chain_pipeline_def Let_def intro!: keeps_upd(2) keeps_refl)

lemma trigger_list_returns:
  assumes "walk_ready env P s"
  shows "fw_returns P s (pipeline_trigger_list env p host cmd s)"
  unfolding pipeline_trigger_list_def
proof (rule fw_returns_walk [OF assms list_walk.graph_walk_axioms linked_upd(8) readyD(2) [OF assms]], goal_cases)
  case (1 ret u e)
  have fin: "fw_returns P s (Option.bind (pipeline_schedule_triggered env cmd (t, e)) (\<lambda>(s3, _). Some (ret, s3)))"
    if "keeps P s t" for t
    using schedule_triggered_returns [OF readyD(1) [OF assms] that 1(2), of cmd] by (auto simp: fw_returns_def)
  obtain ps where ps: "list_for_item (wd_pipelines e) (nx (wd_pipelines e walk_head)) walk_head = Some ps"
    using 1(2) for_item_fwd by (auto simp: linked_def)
  have "keeps P s (snd (fold chain_pipeline ps (0, u)))" by (rule fold_keeps [OF chain_keeps 1(1)])
  then show ?case using fin 1(1) ps by (auto intro: fw_returns_Some)
qed

lemma trigger_walk_returns:
  assumes "walk_ready env P t" "keeps P s t" "pp_period (pipe s p) \<noteq> 0"
  shows "fw_returns P s (trigger_walk env p host cmd t)"
proof -
  note E = readyD(1) [OF assms(1)]
  note W = trigger_walk_contract [OF E]
  show ?thesis unfolding trigger_walk_def
  proof (rule fw_returns_walk [OF assms(1) W linked_upd(8) assms(2)], goal_cases)
    case (1 ret u e)
    have per: "pp_period (pipe u p) \<noteq> 0" using assms(3) shape_eqD(6) [OF keepsD(1) [OF 1(1)]] by simp
    have R: "walk_ready env P v" if "keeps P s v" for v
      using that assms(1,2) keepsD(2,3) unfolding walk_ready_def by blast
    let ?v = "if wd_delay_ms e \<noteq> 0 then emit (Wait_Delay (wd_delay_ms e)) u else u"
    have kv: "keeps P s ?v" using 1(1) by (simp add: keeps_upd)
    have second: "fw_returns P s (Option.bind (run_walk (walk_fuel env) (trigger_ctx env) host 0 dir (?v, init_pipelines (e\<lparr>wd_cmd := c2\<rparr>)))
        (\<lambda>(ret, s3, d3). let ret' = if ret = PPL_STATUS_PATH_STOP then 0 else ret
           in if pipeline_is_timer_driven (pipe s3 p) then Some (ret', s3) else trigger_out env cmd ret' (s3, d3)))" for dir c2
      by (rule fw_returns_walk [OF R [OF kv] W linked_upd(7) kv])
        (auto simp: Let_def intro: fw_returns_Some trigger_out_returns [OF E])
    show ?case using 1 per second
      by (auto simp: Let_def intro!: fw_returns_Some keeps_upd(2) trigger_out_returns [OF E])
  qed
qed

lemma xrun_handle_returns:
  assumes "walk_ready env P s"
  shows "fw_returns P s (pipeline_xrun_handle_trigger env p cmd s)"
  using readyD(2) [OF assms] prepare_returns [OF assms, of p "source_comp (pipe s p)"]
  unfolding pipeline_xrun_handle_trigger_def
  by (auto intro!: fw_returns_Some fw_returns_bind [where t = s] keeps_upd(2))

lemma trigger_run_returns:
  assumes "walk_ready env P s" "pp_period (pipe s p) \<noteq> 0"
  shows "fw_returns P s (pipeline_trigger_run env p host cmd s)"
proof -
  let ?s = "upd_pipe p (\<lambda>q. q\<lparr>trig_aborted := False\<rparr>) s"
  have k: "keeps P s ?s" using readyD(2) [OF assms(1)] by (rule keeps_upd(2)) simp
  have go: "fw_returns P s (trigger_walk env p host cmd t)" if "keeps P s t" for t
    using trigger_walk_returns [OF walk_ready_keeps [OF assms(1) that] that assms(2)] .
  have x: "fw_returns P ?s (pipeline_xrun_handle_trigger env p cmd ?s)"
    by (rule xrun_handle_returns [OF walk_ready_keeps [OF assms(1) k]])
  show ?thesis unfolding pipeline_trigger_run_def Let_def
    by (intro fw_returns_if fw_returns_bind [OF x k] go k) (auto intro: fw_returns_Some go)
qed

lemma trigger_returns:
  assumes "walk_ready env P s" "pp_period (pipe s p) \<noteq> 0" "cmd \<noteq> COMP_TRIGGER_XRUN"
  shows "fw_returns P s (pipeline_trigger env p host cmd s)"
proof -
  let ?s = "upd_pipe p (\<lambda>q. q\<lparr>trig_aborted := False\<rparr>) s"
  have k: "keeps P s ?s" using readyD(2) [OF assms(1)] by (rule keeps_upd(2)) simp
  note r = walk_ready_keeps [OF assms(1) k]
  have "pp_period (pipe ?s p) \<noteq> 0" using assms(2) by simp
  from trigger_run_returns [OF r this] trigger_list_returns [OF r] show ?thesis
    unfolding pipeline_trigger_def Let_def using k assms(3)
    by (auto intro!: fw_returns_Some fw_returns_bind [where t = ?s])
qed

section \<open>The task\<close>

lemma keeps_if: "keeps P s t \<Longrightarrow> keeps P s u \<Longrightarrow> keeps P s (if b then t else u)"
  by simp

lemma task_cmd_returns:
  assumes "walk_ready env P s" "pp_period (pipe s p) \<noteq> 0"
  shows "fw_returns P s (pipeline_task_cmd env p s)"
proof -
  note k = readyD(2) [OF assms(1)]
  note run = trigger_run_returns [OF assms, of "trig_host (pipe s p)" "trig_cmd (pipe s p)"]
  show ?thesis unfolding pipeline_task_cmd_def Let_def
    by (intro fw_returns_if fw_returns_bind [OF run k] fw_returns_case fw_returns_Some keeps_if keeps_upd(2,3) k)
      (assumption | simp)+
qed

lemma task_copy_returns: "walk_ready env P s \<Longrightarrow> fw_returns P s (pipeline_task_copy env p s)"
  using readyD(2) [of env P s] copy_returns [of env P s p] unfolding pipeline_task_copy_def
  by (auto simp: pipeline_xrun_recover_def intro!: fw_returns_Some fw_returns_bind [where t = s])

lemma task_returns:
  assumes "walk_ready env P s" "pp_period (pipe s p) \<noteq> 0"
  shows "fw_returns P s (pipeline_task_fn env p s)"
proof -
  note k = readyD(2) [OF assms(1)]
  have cp: "fw_returns P s (pipeline_task_copy env p t)" if "keeps P s t" for t
    using fw_returns_trans [OF that task_copy_returns [OF walk_ready_keeps [OF assms(1) that]]] .
  have "fw_returns P s (pipeline_task_run env p s)"
    unfolding pipeline_task_run_def
    by (intro fw_returns_if fw_returns_bind [OF task_cmd_returns [OF assms] k] fw_returns_case cp)
      (auto intro!: fw_returns_Some keeps_upd(2) cp k)
  then show ?thesis using k
    by (auto simp: pipeline_task_fn_def pipeline_xrun_recover_def Let_def EINVAL_def intro!: fw_returns_Some keeps_upd(2,3))
qed

section \<open>Properties\<close>

text \<open>
  A platform whose drivers accept everything, with schedulers that do nothing and the allocator of
  the small memory map.
\<close>

definition demo_ops :: "unit comp_ops" where
  "demo_ops = \<lparr>op_params = Some (\<lambda>d q s. Some (0, q, s)), op_hw_params = Some (\<lambda>d q dir s. Some (0, q, s)),
     op_trigger = Some (\<lambda>d cmd s. Some (0, s)), op_prepare = None, op_copy = Some (\<lambda>d s. Some (0, s)), op_reset = None\<rparr>"

definition demo_sched :: "unit sched_ops" where
  "demo_sched = \<lparr>schedule_task_init_ll = (\<lambda>_ _ _ _ _ s. (0, s)), schedule_task = (\<lambda>_ _ _ s. s),
     schedule_task_before = (\<lambda>_ _ _ _ s. s), schedule_task_after = (\<lambda>_ _ _ _ s. s),
     schedule_task_cancel = (\<lambda>_ s. s), schedule_task_free = (\<lambda>_ s. s), task_is_active = (\<lambda>_ _. False)\<rparr>"

definition demo_env :: "unit fw_env" where
  "demo_env = \<lparr>env_plat = demo_plat, env_cpu = 0, env_drv = (\<lambda>_. demo_ops), env_sched = demo_sched,
     idc_send_msg = (\<lambda>_ s. Some (0, s)), platform_host_timestamp = (\<lambda>_ p _. p), platform_dai_timestamp = (\<lambda>_ p _. p),
     dai_get_init_delay_ms = (\<lambda>_ _. 0), sizeof_pipeline = 128, sizeof_pipeline_task = 512, sizeof_posn = 88,
     sizeof_msg = 32, walk_fuel = 4\<rparr>"

definition demo_P :: "mm \<Rightarrow> unit \<Rightarrow> bool" where
  "demo_P mm _ \<longleftrightarrow> mm = demo_mm"

text \<open>A host, a buffer and a DAI in one pipeline.\<close>

definition demo_graph :: "unit fw" where
  "demo_graph = demo_fw\<lparr>comps := (\<lambda>_. zero_comp)(16 := zero_comp\<lparr>bsink_list := [32]\<rparr>, 48 := zero_comp\<lparr>bsource_list := [32]\<rparr>),
     fw_buf := demo_state\<lparr>bs_bufs := (\<lambda>_. demo_buffer)(32 := demo_buffer\<lparr>b_source := 16, b_sink := 48\<rparr>)\<rparr>,
     pipes := (\<lambda>_. zero_pipeline\<lparr>pp_period := 1000\<rparr>)\<rparr>"

lemma demo_rmalloc: "rmalloc demo_plat demo_mm SOF_MEM_ZONE_RUNTIME SOF_MEM_CAPS_RAM 512 = Some (0, demo_mm)"
  by code_simp

lemma demo_rzalloc: "holds demo_P s \<Longrightarrow> fw_rzalloc demo_plat SOF_MEM_ZONE_RUNTIME 512 s = Some (0, s)"
  by (simp add: fw_rzalloc_def rzalloc_def holds_def demo_P_def demo_rmalloc)

lemma demo_env_returns: "env_returns demo_env demo_P"
  unfolding env_returns_def
  by (auto simp: op_returns_def pop_returns_def op_keeps_def demo_env_def demo_ops_def demo_sched_def demo_rzalloc
      comp_reset_def comp_prepare_def comp_copy_def comp_trigger_def comp_params_def comp_dai_get_hw_params_def
      Let_def intro: keeps_refl)

lemma demo_ready: "walk_ready demo_env demo_P demo_graph"
proof -
  have "bufs_within {32} demo_graph" by (auto simp: bufs_within_def demo_graph_def demo_fw_def zero_comp_def)
  moreover have "holds demo_P demo_graph" by (simp add: holds_def demo_P_def demo_graph_def demo_fw_def demo_state_def)
  ultimately show ?thesis using demo_env_returns unfolding walk_ready_def by (auto simp: demo_env_def)
qed



end
