(* ===== verification/Sof_Complete.thy ===== *)
theory Sof_Complete
  imports Sof_Pipeline_Ops
begin

text \<open>
  What the depth-first walk of pipeline completion computes: it assigns the pipeline to exactly the
  components that the source reaches downstream inside the pipeline.
\<close>

section \<open>Reachability\<close>

text \<open>The components reached from a source through sink buffers without leaving its pipeline.\<close>

inductive downstream :: "'p fw \<Rightarrow> addr \<Rightarrow> addr \<Rightarrow> bool" for s source where
  start: "downstream s source source"
| step: "\<lbrakk>downstream s source c; b \<in> set (bsink_list (cdev s c)); b_sink (buf s b) = c'; c' \<noteq> 0;
    comp_is_single_pipeline (cdev s c') (cdev s source)\<rbrakk> \<Longrightarrow> downstream s source c'"

text \<open>A path from \<open>c\<close> to \<open>x\<close> as the list of the buffers it goes through.\<close>

fun bpath :: "'p fw \<Rightarrow> addr \<Rightarrow> addr \<Rightarrow> addr list \<Rightarrow> addr \<Rightarrow> bool" where
  "bpath s source c [] x \<longleftrightarrow> comp_is_single_pipeline (cdev s c) (cdev s source) \<and> c = x"
| "bpath s source c (b # bs) x \<longleftrightarrow> comp_is_single_pipeline (cdev s c) (cdev s source) \<and>
     b \<in> set (bsink_list (cdev s c)) \<and> b_sink (buf s b) \<noteq> 0 \<and> bpath s source (b_sink (buf s b)) bs x"

lemma bpath_append:
  "bpath s src c (xs @ b # ys) x \<longleftrightarrow>
     (\<exists>d. bpath s src c xs d \<and> b \<in> set (bsink_list (cdev s d)) \<and> b_sink (buf s b) \<noteq> 0 \<and>
          bpath s src (b_sink (buf s b)) ys x)"
proof (induction xs arbitrary: c)
  case Nil
  then show ?case by auto
next
  case (Cons a xs)
  then show ?case by auto
qed

lemma bpath_snoc:
  "bpath s src c (xs @ [b]) x \<longleftrightarrow>
     (\<exists>d. bpath s src c xs d \<and> b \<in> set (bsink_list (cdev s d)) \<and> b_sink (buf s b) = x \<and> x \<noteq> 0 \<and>
          comp_is_single_pipeline (cdev s x) (cdev s src))"
  using bpath_append [of s src c xs b "[]" x] by auto

text \<open>A buffer has one sink, so a path that uses it twice can be shortened.\<close>

lemma bpath_shorten:
  assumes "bpath s src c (xs @ [b] @ ys @ [b] @ zs) x" shows "bpath s src c (xs @ b # zs) x"
  using assms bpath_append [of s src _ "xs @ b # ys" b zs x] bpath_append [of s src _ xs b]
  by (auto simp: bpath_append)

lemma bpath_distinct:
  "bpath s src c bs x \<Longrightarrow> \<exists>ds. bpath s src c ds x \<and> distinct ds"
proof (induction bs rule: length_induct)
  case (1 bs)
  show ?case
  proof (cases "distinct bs")
    case True
    with 1(2) show ?thesis by blast
  next
    case False
    then obtain xs ys zs b where d: "bs = xs @ [b] @ ys @ [b] @ zs" using not_distinct_decomp by blast
    with 1(2) have "bpath s src c (xs @ b # zs) x" by (blast intro: bpath_shorten)
    moreover have "length (xs @ b # zs) < length bs" using d by simp
    ultimately show ?thesis using 1(1) by blast
  qed
qed

lemma downstream_bpath: "downstream s src x \<longleftrightarrow> (\<exists>bs. bpath s src src bs x)"
proof
  show "downstream s src x \<Longrightarrow> \<exists>bs. bpath s src src bs x"
  proof (induction rule: downstream.induct)
    case start
    have "bpath s src src [] src" by (simp add: comp_is_single_pipeline_def)
    then show ?case by blast
  next
    case (step c b c')
    then show ?case by (metis bpath_snoc)
  qed
  have "bpath s src src bs x \<Longrightarrow> downstream s src x" for bs
  proof (induction bs arbitrary: x rule: rev_induct)
    case Nil
    then show ?case by (auto intro: downstream.start)
  next
    case (snoc b bs)
    then show ?case by (metis bpath_snoc downstream.step)
  qed
  then show "\<exists>bs. bpath s src src bs x \<Longrightarrow> downstream s src x" by blast
qed

section \<open>What one walk marks\<close>

text \<open>The components reached from \<open>c\<close> without using a buffer twice or a buffer under the walk.\<close>

definition reached :: "'p fw \<Rightarrow> addr \<Rightarrow> addr \<Rightarrow> addr set" where
  "reached s src c = {x. \<exists>bs. bpath s src c bs x \<and> distinct bs \<and> (\<forall>b\<in>set bs. \<not> walking (buf s b))}"

definition completed :: "'p fw \<Rightarrow> addr \<Rightarrow> comp_dev \<Rightarrow> comp_dev" where
  "completed s p c = c\<lparr>c_pipeline := p, c_period := pp_period (pipe s p), c_priority := pp_priority (pipe s p)\<rparr>"

definition complete_set :: "addr \<Rightarrow> addr set \<Rightarrow> 'p fw \<Rightarrow> 'p fw" where
  "complete_set p X s = s\<lparr>comps := \<lambda>x. if x \<in> X then completed s p (comps s x) else comps s x\<rparr>"

definition through :: "'p fw \<Rightarrow> addr \<Rightarrow> addr list \<Rightarrow> addr set" where
  "through s src bs = (\<Union>b\<in>{b \<in> set bs. \<not> walking (buf s b) \<and> b_sink (buf s b) \<noteq> 0}. reached (mark b s) src (b_sink (buf s b)))"

lemma complete_set_simps [simp]:
  "fw_buf (complete_set p X s) = fw_buf s" "pipes (complete_set p X s) = pipes s"
  "bsink_list (comps (complete_set p X s) c) = bsink_list (cdev s c)"
  "bsource_list (comps (complete_set p X s) c) = bsource_list (cdev s c)"
  "dev_comp_pipe_id (comps (complete_set p X s) c) = dev_comp_pipe_id (cdev s c)"
  by (auto simp: complete_set_def completed_def dev_comp_pipe_id_def)

lemma single_complete_set [simp]:
  "comp_is_single_pipeline (comps (complete_set p X s) c) (comps (complete_set p X s) d) =
     comp_is_single_pipeline (cdev s c) (cdev s d)"
  by (simp add: comp_is_single_pipeline_def)

lemma complete_set_twice: "complete_set p Y (complete_set p X s) = complete_set p (X \<union> Y) s"
  by (simp add: complete_set_def completed_def fun_eq_iff cong: if_cong)

lemma complete_set_empty: "complete_set p {} s = s"
  by (simp add: complete_set_def)

lemma mark_simps [simp]:
  "comps (mark b s) = comps s" "pipes (mark b s) = pipes s"
  "b_sink (buf (mark b s) x) = b_sink (buf s x)" "walking (buf (mark b s) x) = (x = b \<or> walking (buf s x))"
  by (auto simp: mark_def fw_upd_defs)

lemma mark_complete_set: "mark b (complete_set p X s) = complete_set p X (mark b s)"
  by (simp add: complete_set_def completed_def mark_def fw_upd_defs cong: if_cong)

lemma bpath_frame [simp]:
  "bpath (complete_set p X s) src c bs x = bpath s src c bs x" "bpath (mark b s) src c bs x = bpath s src c bs x"
  by (induction bs arbitrary: c) auto

lemma reached_complete_set [simp]: "reached (complete_set p X s) src c = reached s src c"
  by (simp add: reached_def)

lemma through_complete_set [simp]: "through (complete_set p X s) src bs = through s src bs"
  by (simp add: through_def mark_complete_set)

lemma reached_outside: "\<not> comp_is_single_pipeline (cdev s c) (cdev s src) \<Longrightarrow> reached s src c = {}"
  unfolding reached_def by (auto elim: bpath.elims)

lemma reached_rec:
  assumes "comp_is_single_pipeline (cdev s c) (cdev s src)"
  shows "reached s src c = insert c (through s src (bsink_list (cdev s c)))"
proof (intro set_eqI iffI)
  fix x assume "x \<in> reached s src c"
  then obtain bs where b: "bpath s src c bs x" "distinct bs" "\<forall>b\<in>set bs. \<not> walking (buf s b)" by (auto simp: reached_def)
  show "x \<in> insert c (through s src (bsink_list (cdev s c)))"
  proof (cases bs)
    case Nil
    then show ?thesis using b by simp
  next
    case (Cons a ds)
    then have "x \<in> reached (mark a s) src (b_sink (buf s a))" using b by (auto simp: reached_def)
    then show ?thesis using b Cons by (auto simp: through_def)
  qed
next
  fix x assume "x \<in> insert c (through s src (bsink_list (cdev s c)))"
  then show "x \<in> reached s src c"
  proof
    assume "x = c"
    moreover have "bpath s src c [] c" using assms by simp
    ultimately have "bpath s src c [] x \<and> distinct ([] :: addr list) \<and> (\<forall>b\<in>set []. \<not> walking (buf s b))" by simp
    then show ?thesis unfolding reached_def by blast
  next
    assume "x \<in> through s src (bsink_list (cdev s c))"
    then obtain b ds where b: "b \<in> set (bsink_list (cdev s c))" "\<not> walking (buf s b)" "b_sink (buf s b) \<noteq> 0"
      and d: "bpath s src (b_sink (buf s b)) ds x" "distinct ds" "\<forall>a\<in>set ds. a \<noteq> b \<and> \<not> walking (buf s a)"
      by (auto simp: through_def reached_def)
    then have "bpath s src c (b # ds) x" "distinct (b # ds)" using assms by auto
    moreover have "\<forall>a\<in>set (b # ds). \<not> walking (buf s a)" using b d by simp
    ultimately show ?thesis unfolding reached_def by blast
  qed
qed

section \<open>The walk\<close>

lemma unmark:
  assumes "\<not> walking (buf s b)"
  shows "upd_buf b (\<lambda>x. x\<lparr>walking := False\<rparr>) (complete_set p X (mark b s)) = complete_set p X s"
proof -
  have "(buf s b)\<lparr>walking := False\<rparr> = buf s b" using assms by (cases "buf s b") simp
  then show ?thesis by (simp add: complete_set_def completed_def mark_def fw_upd_defs cong: if_cong)
qed

lemma for_buffers_complete:
  assumes "\<And>s b c. P s \<Longrightarrow> b \<in> set bs \<Longrightarrow> \<not> walking (buf s b) \<Longrightarrow>
      f c b PPL_DIR_DOWNSTREAM (mark b s, d) = Some (0, complete_set (wd_p d) (reached (mark b s) (wd_start d) c) (mark b s), d)"
    and "\<And>s X. P s \<Longrightarrow> P (complete_set (wd_p d) X s)" and "P s"
  shows "for_buffers complete_ctx f PPL_DIR_DOWNSTREAM bs (s, d) =
    Some (0, complete_set (wd_p d) (through s (wd_start d) bs) s, d)"
  using assms(1,3)
proof (induction bs arbitrary: s)
  case Nil
  then show ?case by (simp add: through_def complete_set_empty)
next
  case (Cons b bs)
  let ?c = "b_sink (buf s b)"
  let ?X = "reached (mark b s) (wd_start d) ?c"
  have IH: "P t \<Longrightarrow> for_buffers complete_ctx f PPL_DIR_DOWNSTREAM bs (t, d) =
      Some (0, complete_set (wd_p d) (through t (wd_start d) bs) t, d)" for t
    using Cons by simp
  consider (walking) "walking (buf s b)" | (loose) "\<not> walking (buf s b)" "?c = 0" | (go) "\<not> walking (buf s b)" "?c \<noteq> 0" by blast
  then show ?case
  proof cases
    case walking
    then have "through s (wd_start d) (b # bs) = through s (wd_start d) bs" by (auto simp: through_def)
    then show ?thesis using walking IH Cons(3) by simp
  next
    case loose
    then have "through s (wd_start d) (b # bs) = through s (wd_start d) bs" by (auto simp: through_def)
    then show ?thesis using loose IH Cons(3) by (simp add: complete_ctx_def buffer_get_comp_def PPL_DIR_DOWNSTREAM_def)
  next
    case go
    then have t: "through s (wd_start d) (b # bs) = ?X \<union> through s (wd_start d) bs" by (auto simp: through_def)
    have "f ?c b PPL_DIR_DOWNSTREAM (mark b s, d) = Some (0, complete_set (wd_p d) ?X (mark b s), d)" using Cons go by simp
    then show ?thesis using go IH [OF assms(2) [OF Cons(3)]] unmark [of s b]
      by (simp add: t complete_ctx_def buffer_get_comp_def PPL_DIR_DOWNSTREAM_def set_walking_def mark_def [symmetric]
          stops_def PPL_STATUS_PATH_STOP_def complete_set_twice)
  qed
qed

lemma walk_complete:
  fixes s :: "'p fw"
  assumes "bufs_within B s" "unwalked B s < n"
  shows "run_walk n complete_ctx c b PPL_DIR_DOWNSTREAM (s, d) = Some (0, complete_set (wd_p d) (reached s (wd_start d) c) s, d)"
  using assms
proof (induction n arbitrary: s c b)
  case 0
  then show ?case by simp
next
  case (Suc n)
  show ?case
  proof (cases "comp_is_single_pipeline (cdev s c) (cdev s (wd_start d))")
    case False
    then show ?thesis
      by (simp add: complete_ctx_def pipeline_comp_complete_def reached_outside complete_set_empty)
  next
    case True
    let ?s = "complete_set (wd_p d) {c} s"
    let ?P = "\<lambda>t :: 'p fw. bufs_within B t \<and> unwalked B t \<le> n"
    have eq: "upd_comp c (\<lambda>x. x\<lparr>c_pipeline := wd_p d, c_period := pp_period (pipe s (wd_p d)),
        c_priority := pp_priority (pipe s (wd_p d))\<rparr>) s = ?s"
      by (simp add: fw_upd_defs complete_set_def completed_def fun_upd_def cong: if_cong)
    have fb: "for_buffers complete_ctx (run_walk n complete_ctx) PPL_DIR_DOWNSTREAM (bsink_list (cdev s c)) (?s, d) =
        Some (0, complete_set (wd_p d) (through ?s (wd_start d) (bsink_list (cdev s c))) ?s, d)"
    proof (rule for_buffers_complete [where P = ?P])
      fix t :: "'p fw" and a e assume t: "?P t" "a \<in> set (bsink_list (cdev s c))" "\<not> walking (buf t a)"
      then have "a \<in> B" using Suc(2) by (auto simp: bufs_within_def)
      then have "unwalked B (mark a t) < unwalked B t" using t by (intro unwalked_mark) (auto simp: bufs_within_def)
      then have "bufs_within B (mark a t)" "unwalked B (mark a t) < n" using t by (auto simp: bufs_within_def)
      then show "run_walk n complete_ctx e a PPL_DIR_DOWNSTREAM (mark a t, d) =
          Some (0, complete_set (wd_p d) (reached (mark a t) (wd_start d) e) (mark a t), d)"
        by (rule Suc.IH)
    next
      show "?P t \<Longrightarrow> ?P (complete_set (wd_p d) X t)" for t X by (simp add: bufs_within_def unwalked_def)
    next
      show "?P ?s" using Suc by (simp add: bufs_within_def unwalked_def)
    qed
    have "run_walk (Suc n) complete_ctx c b PPL_DIR_DOWNSTREAM (s, d) =
        for_buffers complete_ctx (run_walk n complete_ctx) PPL_DIR_DOWNSTREAM (bsink_list (cdev s c)) (?s, d)"
      using True
      by (simp add: complete_ctx_def pipeline_comp_complete_def eq pipeline_for_each_comp_def comp_buffer_list_def PPL_DIR_DOWNSTREAM_def)
    then show ?thesis using fb by (simp add: complete_set_twice reached_rec [OF True])
  qed
qed

lemma reached_all: "(\<And>b. \<not> walking (buf s b)) \<Longrightarrow> reached s src src = {x. downstream s src x}"
  unfolding reached_def downstream_bpath by (auto dest: bpath_distinct)

section \<open>Properties\<close>

text \<open>
  C7: completing a pipeline assigns the pipeline with its period and priority to exactly the
  components the source reaches downstream through buffers without leaving the pipeline, whatever
  cycles the graph has. All other components, the buffers and their walking marks are unchanged, the
  pipeline becomes ready with the given end points, and completing it again is refused.
\<close>

theorem pipeline_complete_assigns:
  assumes "pp_status (pipe s p) = COMP_STATE_INIT" "\<And>b. \<not> walking (buf s b)"
    "bufs_within B s" "card B < walk_fuel env"
  shows "\<exists>t. pipeline_complete env p source sink s = Some (0, t) \<and>
    (\<forall>x. cdev t x = (if downstream s source x
        then (cdev s x)\<lparr>c_pipeline := p, c_period := pp_period (pipe s p), c_priority := pp_priority (pipe s p)\<rparr>
        else cdev s x)) \<and>
    bs_bufs (fw_buf t) = bs_bufs (fw_buf s) \<and>
    pipe t p = (pipe s p)\<lparr>source_comp := source, sink_comp := sink, pp_status := COMP_STATE_READY\<rparr> \<and>
    pipeline_complete env p source' sink' t = Some (- EINVAL, t)"
proof -
  let ?X = "{x. downstream s source x}"
  have "unwalked B s \<le> card B" using assms(3) by (auto simp: unwalked_def bufs_within_def intro: card_mono)
  then have "run_walk (walk_fuel env) complete_ctx source 0 PPL_DIR_DOWNSTREAM (s, walk_data source p 0) =
      Some (0, complete_set p ?X s, walk_data source p 0)"
    using walk_complete [OF assms(3)] assms(4) reached_all [OF assms(2)] by (simp add: walk_data_def init_pipelines_def)
  then show ?thesis using assms(1)
    by (auto simp: pipeline_complete_def trace_heap_def fw_upd_defs complete_set_def completed_def comp_states)
qed

theorem pipeline_complete_assigns_witness:
  "\<exists>t. pipeline_complete demo_env 8 16 48 demo_graph = Some (0, t) \<and> c_pipeline (cdev t 16) = 8 \<and>
     c_pipeline (cdev t 48) = 8 \<and> c_pipeline (cdev t 64) = 0 \<and>
     pipeline_complete demo_env 8 16 48 t = Some (- EINVAL, t)"
proof -
  have "pp_status (pipe demo_graph 8) = COMP_STATE_INIT" "\<And>b. \<not> walking (buf demo_graph b)"
    "bufs_within {32} demo_graph" "card {32 :: addr} < walk_fuel demo_env"
    by (auto simp: demo_graph_def demo_env_def zero_pipeline_def demo_buffer_def buffer_init_def zero_buffer_def bufs_within_def zero_comp_def demo_fw_def comp_states)
  note t = pipeline_complete_assigns [OF this, of 16 48 16 48]
  have 16: "downstream demo_graph 16 16" by (rule downstream.start)
  have "downstream demo_graph 16 48"
    by (rule downstream.step [OF 16, of 32]) (auto simp: demo_graph_def comp_is_single_pipeline_def dev_comp_pipe_id_def zero_comp_def demo_fw_def)
  moreover have "downstream demo_graph 16 x \<Longrightarrow> x = 16 \<or> x = 48" for x
    by (induction rule: downstream.induct) (auto simp: demo_graph_def demo_fw_def zero_comp_def split: if_splits)
  from this [of 64] have "\<not> downstream demo_graph 16 64" by auto
  ultimately show ?thesis using t 16 by (auto simp: demo_graph_def demo_fw_def zero_comp_def)
qed

end
