(* ===== verification/Sof_Task.thy ===== *)
theory Sof_Task
  imports Sof_Pipeline_Ops "HOL-Library.Sublist"
begin

text \<open>
  Commands offloaded to the pipeline task: what a walk leaves alone, that a pending command is
  always answered, and that one pipeline of a connected group is made responsible for it.
\<close>

section \<open>What a walk leaves alone\<close>

text \<open>A relation between states that every step of a walk respects holds between its two ends.\<close>

locale walk_frame =
  fixes ctx :: "'p walk_ctx" and R :: "'p fw \<Rightarrow> 'p fw \<Rightarrow> bool"
  assumes R_refl: "R s s"
    and R_trans: "R s t \<Longrightarrow> R t u \<Longrightarrow> R s u"
    and R_walking: "R s (upd_buf b (\<lambda>x. x\<lparr>walking := v\<rparr>) s)"
    and R_buff: "R s (fst (cx_buff ctx b (s, d)))"
    and R_body: "\<lbrakk>\<And>t e err u g. next current dir (t, e) = Some (err, u, g) \<Longrightarrow> R t u;
        cx_comp ctx next current b dir (s, d) = Some (err, t, e)\<rbrakk> \<Longrightarrow> R s t"
begin

lemma buffers_frame:
  assumes f: "\<And>c b t e err u g. f c b dir (t, e) = Some (err, u, g) \<Longrightarrow> R t u"
    and "for_buffers ctx f dir bs (s, d) = Some (err, t, e)"
  shows "R s t"
  using assms(2)
proof (induction bs arbitrary: s d)
  case Nil
  then show ?case using R_refl by simp
next
  case (Cons b bs)
  obtain s1 d1 where s1: "cx_buff ctx b (s, d) = (s1, d1)" by (cases "cx_buff ctx b (s, d)")
  have R1: "R s s1" using R_buff [of s b d] s1 by simp
  let ?c = "buffer_get_comp (buf s1 b) dir"
  consider (walking) "walking (buf s b)"
    | (skip) "\<not> walking (buf s b)" "for_buffers ctx f dir bs (s1, d1) = Some (err, t, e)"
    | (go) r u g where "\<not> walking (buf s b)" "f ?c b dir (upd_buf b (\<lambda>x. x\<lparr>walking := True\<rparr>) s1, d1) = Some (r, u, g)"
        "if stops r then (r, upd_buf b (\<lambda>x. x\<lparr>walking := False\<rparr>) u, g) = (err, t, e)
         else for_buffers ctx f dir bs (upd_buf b (\<lambda>x. x\<lparr>walking := False\<rparr>) u, g) = Some (err, t, e)"
    using Cons.prems s1 by (auto simp: Let_def set_walking_def bind_eq_Some_conv split: if_splits)
  then show ?case
  proof cases
    case walking
    then show ?thesis using Cons by simp
  next
    case skip
    then show ?thesis using Cons.IH R1 R_trans by blast
  next
    case go
    let ?u = "upd_buf b (\<lambda>x. x\<lparr>walking := False\<rparr>) u"
    have "R s ?u" using R_trans [OF R_trans [OF R_trans [OF R1 R_walking] f [OF go(2)]] R_walking] .
    moreover have "R ?u t" using go(3) Cons.IH R_refl by (auto split: if_splits)
    ultimately show ?thesis by (rule R_trans)
  qed
qed

lemma walk_keeps_frame: "run_walk n ctx c b dir (s, d) = Some (err, t, e) \<Longrightarrow> R s t"
proof (induction n arbitrary: c b dir s d err t e)
  case (Suc n)
  show ?case
  proof (rule R_body)
    show "R t' u" if "pipeline_for_each_comp ctx (run_walk n ctx) c dir (t', e') = Some (err', u, g)" for t' e' err' u g
      using that unfolding pipeline_for_each_comp_def by (rule buffers_frame [rotated]) (rule Suc.IH)
  qed (use Suc.prems in simp)
qed simp

end

text \<open>
  The commands, delays, hosts and periods of all pipelines stay as they are, and events are only added.
\<close>

definition quiet :: "'p fw \<Rightarrow> 'p fw \<Rightarrow> bool" where
  "quiet s t \<longleftrightarrow> prefix (events s) (events t) \<and>
     (\<forall>q. trig_cmd (pipe t q) = trig_cmd (pipe s q) \<and> trig_delay (pipe t q) = trig_delay (pipe s q) \<and>
          trig_host (pipe t q) = trig_host (pipe s q) \<and> pp_period (pipe t q) = pp_period (pipe s q))"

text \<open>The operations of the drivers and of the schedulers are quiet.\<close>

definition quiet_env :: "'p fw_env \<Rightarrow> bool" where
  "quiet_env env \<longleftrightarrow>
     (\<forall>d cmd s r t. comp_trigger env d cmd s = Some (r, t) \<longrightarrow> quiet s t) \<and>
     (\<forall>d s r t. comp_copy env d s = Some (r, t) \<longrightarrow> quiet s t) \<and>
     (\<forall>task start period s. quiet s (schedule_task (env_sched env) task start period s)) \<and>
     (\<forall>task start period other s. quiet s (schedule_task_before (env_sched env) task start period other s)) \<and>
     (\<forall>task start period other s. quiet s (schedule_task_after (env_sched env) task start period other s)) \<and>
     (\<forall>task s. quiet s (schedule_task_cancel (env_sched env) task s))"

lemma quiet_refl: "quiet s s"
  by (simp add: quiet_def)

lemma quiet_trans: "quiet s t \<Longrightarrow> quiet t u \<Longrightarrow> quiet s u"
  unfolding quiet_def by (metis prefix_order.trans)

lemma quiet_upd:
  "quiet s (upd_buf b f s)" "quiet s (upd_comp c g s)" "quiet s (emit ev s)"
  "(\<And>q. trig_cmd (h q) = trig_cmd q \<and> trig_delay (h q) = trig_delay q \<and> trig_host (h q) = trig_host q \<and>
     pp_period (h q) = pp_period q) \<Longrightarrow> quiet s (upd_pipe p h s)"
  by (auto simp: quiet_def fw_upd_defs)

interpretation list_frame: walk_frame list_ctx quiet
proof (unfold_locales, goal_cases)
  case (5 "next" current dir b s d err t e)
  show ?case using 5(2) 5(1) quiet_refl sched_comp_fst [of "c_pipeline (cdev s current)" current "(s, d)"]
    by (cases "pipeline_comp_trigger_sched_comp (c_pipeline (cdev s current)) current (s, d)")
      (fastforce simp: list_ctx_def pipeline_comp_list_def Let_def split: if_splits)
qed (auto simp: list_ctx_def intro: quiet_refl quiet_trans quiet_upd)

text \<open>Rules for the bodies of component functions.\<close>

definition quiets :: "'p fw \<Rightarrow> (int \<times> 'p wst) option \<Rightarrow> bool" where
  "quiets s r \<longleftrightarrow> (\<forall>err t e. r = Some (err, t, e) \<longrightarrow> quiet s t)"

lemma quiets_Some: "quiet s t \<Longrightarrow> quiets s (Some (err, t, e))"
  by (simp add: quiets_def)

lemma quiets_if: "(b \<Longrightarrow> quiets s x) \<Longrightarrow> (\<not> b \<Longrightarrow> quiets s y) \<Longrightarrow> quiets s (if b then x else y)"
  by simp

lemma quiets_op:
  assumes "\<And>r t. x = Some (r, t) \<Longrightarrow> quiet s t" "\<And>r t. quiet s t \<Longrightarrow> quiets s (g r t)"
  shows "quiets s (Option.bind x (\<lambda>(r, t). g r t))"
proof (cases x)
  case (Some a)
  then show ?thesis using assms by (cases a) simp
qed (simp add: quiets_def)

lemma quiets_walk:
  assumes "quiets s x" "\<And>r t e. quiet s t \<Longrightarrow> quiets s (g r t e)"
  shows "quiets s (Option.bind x (\<lambda>(r, t, e). g r t e))"
proof (cases x)
  case (Some a)
  then show ?thesis using assms by (cases a) (simp add: quiets_def)
qed (simp add: quiets_def)

lemma quiets_next:
  assumes "\<And>t e err u g. next current dir (t, e) = Some (err, u, g) \<Longrightarrow> quiet t u" "quiet s (fst w)"
  shows "quiets s (next current dir w)"
  using assms quiet_trans unfolding quiets_def by (cases w) (fastforce)

lemma quiets_body:
  assumes "\<And>next current dir b s d. (\<And>t e err u g. next current dir (t, e) = Some (err, u, g) \<Longrightarrow> quiet t u) \<Longrightarrow>
      quiets s (cx_comp ctx next current b dir (s, d))"
    and "\<And>s b d. quiet s (fst (cx_buff ctx b (s, d)))"
  shows "walk_frame ctx quiet"
proof (unfold_locales, goal_cases)
  case (5 "next" current dir b s d err t e)
  then show ?case using assms(1) [of "next" current dir s b d] by (auto simp: quiets_def)
qed (auto intro: assms(2) quiet_refl quiet_trans quiet_upd)

lemmas quiets_intros = quiets_Some quiets_if quiets_op quiets_walk

lemma quiet_envD:
  assumes "quiet_env env"
  shows "comp_trigger env d cmd s = Some (r, t) \<Longrightarrow> quiet s t" "comp_copy env d s = Some (r, t) \<Longrightarrow> quiet s t"
    "quiet s (schedule_task (env_sched env) task start period s)"
    "quiet s (schedule_task_before (env_sched env) task start period other s)"
    "quiet s (schedule_task_after (env_sched env) task start period other s)"
    "quiet s (schedule_task_cancel (env_sched env) task s)"
  using assms by (auto simp: quiet_env_def)

lemma copy_frame: assumes env: "quiet_env env" shows "walk_frame (copy_ctx env) quiet"
proof (rule quiets_body, goal_cases)
  case (1 "next" current dir b s d)
  note n = quiets_next [of "next" current dir s, OF 1]
  have c: "quiet s t \<Longrightarrow> comp_copy env current t = Some (r, u) \<Longrightarrow> quiet s u" for t r u
    using quiet_envD(2) [OF env] quiet_trans by blast
  have "quiets s (pipeline_comp_copy env next current b dir (s, d))"
    unfolding pipeline_comp_copy_def prod.case
    by (intro quiets_intros n) (auto intro: quiet_refl c split: if_splits)
  then show ?case by (simp add: copy_ctx_def)
qed (simp add: copy_ctx_def quiet_refl)

lemma trigger_frame: assumes env: "quiet_env env" shows "walk_frame (trigger_ctx env) quiet"
proof (rule quiets_body, goal_cases)
  case (1 "next" current dir b s d)
  note n = quiets_next [of "next" current dir s, OF 1]
  have u: "quiet s t \<Longrightarrow> quiet s (upd_pipe p (\<lambda>q. q\<lparr>trig_aborted := v\<rparr>) t)"
    "quiet s t \<Longrightarrow> quiet s (upd_pipe p (\<lambda>q. q\<lparr>pp_status := st\<rparr>) t)" for t p v st
    by (erule quiet_trans, rule quiet_upd, simp)+
  have "quiets s (pipeline_comp_trigger env next current b dir (s, d))"
    unfolding pipeline_comp_trigger_def prod.case Let_def
    by (intro quiets_intros n) (auto intro: quiet_refl u quiet_envD(1) [OF env] simp: sched_comp_fst)
  then show ?case by (simp add: trigger_ctx_def)
qed (simp add: trigger_ctx_def quiet_refl)

section \<open>Scheduling of the collected pipelines\<close>

text \<open>Scheduling for a command sets at most that command.\<close>

definition sets_cmd :: "int \<Rightarrow> 'p fw \<Rightarrow> 'p fw \<Rightarrow> bool" where
  "sets_cmd cmd s t \<longleftrightarrow> prefix (events s) (events t) \<and>
     (\<forall>q. trig_cmd (pipe t q) \<in> {trig_cmd (pipe s q), cmd} \<and> trig_delay (pipe t q) = trig_delay (pipe s q))"

lemma quiet_sets_cmd: "quiet s t \<Longrightarrow> sets_cmd cmd s t"
  by (simp add: quiet_def sets_cmd_def)

lemma sets_cmd_trans: "sets_cmd cmd s t \<Longrightarrow> sets_cmd cmd t u \<Longrightarrow> sets_cmd cmd s u"
  unfolding sets_cmd_def by (metis insert_iff prefix_order.trans singletonD)

lemma schedule_copy_quiet: "quiet_env env \<Longrightarrow> quiet s (pipeline_schedule_copy env p start s)"
  unfolding pipeline_schedule_copy_def Let_def by (auto intro: quiet_envD quiet_trans [OF quiet_upd(3)])

lemma schedule_cancel_quiet: "quiet_env env \<Longrightarrow> quiet s (pipeline_schedule_cancel env p s)"
  unfolding pipeline_schedule_cancel_def by (auto intro: quiet_trans [OF quiet_envD(6) quiet_upd(3)])

lemma upd_pipe_sets_cmd:
  "sets_cmd cmd s (upd_pipe p (\<lambda>q. q\<lparr>trig_cmd := cmd, trig_host := h\<rparr>) s)"
  "sets_cmd cmd s (upd_pipe p (\<lambda>q. q\<lparr>pp_status := st\<rparr>) s)" "sets_cmd cmd s (upd_pipe p (\<lambda>q. q\<lparr>xrun_bytes := x\<rparr>) s)"
  by (auto simp: sets_cmd_def upd_pipe_def)

lemma triggered_stop_sets: "quiet_env env \<Longrightarrow> sets_cmd cmd s (snd (triggered_stop env cmd p (h, s)))"
  using sets_cmd_trans [OF quiet_sets_cmd [OF schedule_cancel_quiet] upd_pipe_sets_cmd(2)]
  by (auto simp: triggered_stop_def upd_pipe_sets_cmd)

lemma triggered_start_sets: "quiet_env env \<Longrightarrow> sets_cmd cmd s (snd (triggered_start env cmd p (h, s)))"
  using sets_cmd_trans [OF sets_cmd_trans [OF upd_pipe_sets_cmd(3) upd_pipe_sets_cmd(1)] quiet_sets_cmd [OF schedule_copy_quiet]]
    sets_cmd_trans [OF sets_cmd_trans [OF upd_pipe_sets_cmd(3) upd_pipe_sets_cmd(2)] quiet_sets_cmd [OF schedule_copy_quiet]]
  by (auto simp: triggered_start_def Let_def)

lemma fold_sets_cmd:
  "(\<And>p w. sets_cmd cmd (snd w) (snd (f p w))) \<Longrightarrow> sets_cmd cmd (snd w) (snd (fold f ps w))"
proof (induction ps arbitrary: w)
  case Nil
  then show ?case by (simp add: quiet_sets_cmd quiet_refl)
next
  case (Cons p ps)
  then show ?case using sets_cmd_trans [of cmd "snd w" "snd (f p w)"] by simp
qed

lemma schedule_triggered_sets:
  assumes env: "quiet_env env" and "pipeline_schedule_triggered env cmd (s, d) = Some (t, e)"
  shows "sets_cmd cmd s t"
proof -
  have x: "sets_cmd cmd s (fold triggered_xrun ps s)" for ps s
    by (induction ps arbitrary: s)
      (auto simp: quiet_sets_cmd quiet_refl triggered_xrun_def intro: sets_cmd_trans [OF upd_pipe_sets_cmd(3)])
  obtain ps where "list_for_item (wd_pipelines d) (nx (wd_pipelines d walk_head)) walk_head = Some ps"
    using assms(2) by (auto simp: pipeline_schedule_triggered_def bind_eq_Some_conv)
  then show ?thesis using assms(2) x [of s ps] quiet_sets_cmd [OF quiet_refl, of cmd s]
      fold_sets_cmd [of cmd "triggered_stop env cmd" "(wd_start d, s)" ps] triggered_stop_sets [OF env, of cmd]
      fold_sets_cmd [of cmd "triggered_start env cmd" "(wd_start d, s)" ps] triggered_start_sets [OF env, of cmd]
    by (auto simp: pipeline_schedule_triggered_def split: if_splits prod.splits)
qed

section \<open>Execution of a command\<close>

text \<open>The command is still pending: the final stage of a start or release waits for its delay.\<close>

definition deferred :: "addr \<Rightarrow> 'p fw \<Rightarrow> 'p fw \<Rightarrow> bool" where
  "deferred p s t \<longleftrightarrow> prefix (events s) (events t) \<and> trig_cmd (pipe t p) \<in> {COMP_TRIGGER_START, COMP_TRIGGER_RELEASE} \<and>
     trig_cmd (pipe s p) \<in> {COMP_TRIGGER_PRE_START, COMP_TRIGGER_PRE_RELEASE} \<and>
     0 \<le> trig_delay (pipe t p) \<and> trig_host (pipe t p) = trig_host (pipe s p)"

lemma trigger_out_sets: "quiet_env env \<Longrightarrow> trigger_out env cmd ret (s, d) = Some (err, t) \<Longrightarrow> sets_cmd cmd s t"
  by (auto simp: trigger_out_def bind_eq_Some_conv dest: schedule_triggered_sets)

lemma trigger_walk_sets:
  assumes env: "quiet_env env" and "trig_cmd (pipe s p) = cmd" "0 < pp_period (pipe s p)"
    and w: "trigger_walk env p host cmd s = Some (err, t)"
  shows "sets_cmd cmd s t \<or> deferred p s t"
proof -
  note fr = walk_frame.walk_keeps_frame [OF trigger_frame [OF env]]
  obtain ret s1 d1 where 1: "run_walk (walk_fuel env) (trigger_ctx env) host 0 (c_direction (cdev s host)) (s, walk_data host 0 cmd) =
      Some (ret, s1, d1)" using w by (auto simp: trigger_walk_def bind_eq_Some_conv)
  then have q1: "quiet s s1" by (rule fr)
  have outs: "trigger_out env cmd r (u, e) = Some (err, t) \<Longrightarrow> quiet s u \<Longrightarrow> sets_cmd cmd s t" for r u e
    using trigger_out_sets [OF env] sets_cmd_trans [OF quiet_sets_cmd] by blast
  let ?cmd2 = "if cmd = COMP_TRIGGER_PRE_START then COMP_TRIGGER_START
               else if cmd = COMP_TRIGGER_PRE_RELEASE then COMP_TRIGGER_RELEASE else cmd"
  let ?s2 = "if wd_delay_ms d1 \<noteq> 0 then emit (Wait_Delay (wd_delay_ms d1)) s1 else s1"
  let ?delay = "u32 (wd_delay_ms d1 * 1000 + pp_period (pipe s1 p) - 1) div pp_period (pipe s1 p)"
  have q2: "quiet s ?s2" using q1 quiet_trans [OF q1 quiet_upd(3)] by simp
  consider (out) r u e where "trigger_out env cmd r (u, e) = Some (err, t)" "quiet s u"
    | (delay) "?cmd2 \<noteq> cmd" "t = upd_pipe p (\<lambda>q. q\<lparr>trig_delay := ?delay, trig_cmd := ?cmd2\<rparr>) s1"
    | (twice) r e where "run_walk (walk_fuel env) (trigger_ctx env) host 0 (c_direction (cdev ?s2 host))
          (?s2, init_pipelines (d1\<lparr>wd_cmd := ?cmd2\<rparr>)) = Some (r, t, e)"
    using w q1 1 fr quiet_trans [OF q2] by (auto simp: trigger_walk_def Let_def bind_eq_Some_conv split: if_splits)
  then show ?thesis
  proof cases
    case out
    then show ?thesis using outs by blast
  next
    case delay
    have "0 \<le> ?delay" using q1 assms(3) by (simp add: quiet_def pos_imp_zdiv_nonneg_iff u32_def)
    then show ?thesis using delay q1 assms(2)
      by (auto simp: deferred_def quiet_def fw_upd_defs comp_triggers split: if_splits)
  next
    case twice
    then show ?thesis using fr [OF twice] quiet_trans [OF q2] quiet_sets_cmd by blast
  qed
qed

text \<open>The command has been answered: a reply is among the new events and no command is pending.\<close>

definition answered :: "addr \<Rightarrow> 'p fw \<Rightarrow> 'p fw \<Rightarrow> bool" where
  "answered p s t \<longleftrightarrow> trig_cmd (pipe t p) = COMP_TRIGGER_NO_ACTION \<and>
     (\<exists>before r after. events t = events s @ before @ Ipc_Reply r # after)"

lemma answered_quiet:
  assumes "answered p s t" "quiet t u" shows "answered p s u"
proof -
  obtain before r after where "events t = events s @ before @ Ipc_Reply r # after" using assms by (auto simp: answered_def)
  moreover obtain zs where "events u = events t @ zs" using assms(2) by (auto simp: quiet_def prefix_def)
  ultimately have "events u = events s @ before @ Ipc_Reply r # (after @ zs)" by simp
  then show ?thesis using assms unfolding answered_def quiet_def by metis
qed

lemma answered_reply: "prefix (events s) (events t) \<Longrightarrow>
  answered p s (emit (Ipc_Reply r) (upd_pipe p (\<lambda>q. q\<lparr>trig_cmd := COMP_TRIGGER_NO_ACTION\<rparr>) t))"
  unfolding answered_def prefix_def by (force simp: fw_upd_defs)

lemma upd_pipe_events [simp]: "events (upd_pipe p g u) = events u"
  by (simp add: upd_pipe_def)

lemma task_cmd_answers:
  assumes env: "quiet_env env" and "trig_host (pipe s p) \<noteq> 0" "xrun_bytes (pipe s p) = 0" "0 < pp_period (pipe s p)"
    "trig_delay (pipe s p) = 0" and c: "pipeline_task_cmd env p s = Some (st, t)"
  shows "answered p s t \<or> deferred p s t \<and> st = SOF_TASK_STATE_RESCHEDULE"
proof -
  let ?cmd = "trig_cmd (pipe s p)"
  obtain err s1 where r: "pipeline_trigger_run env p (trig_host (pipe s p)) ?cmd s = Some (err, s1)"
    using c assms(2) by (auto simp: pipeline_task_cmd_def Let_def bind_eq_Some_conv)
  let ?s0 = "upd_pipe p (\<lambda>q. q\<lparr>trig_aborted := False\<rparr>) s"
  have s1: "sets_cmd ?cmd s s1 \<or> deferred p s s1"
    using r trigger_walk_sets [OF env, of ?s0 p ?cmd "trig_host (pipe s p)" err s1] assms(3,4)
    by (auto simp: pipeline_trigger_run_def Let_def upd_pipe_def sets_cmd_def deferred_def split: if_splits)
  then have p1: "prefix (events s) (events s1)" by (auto simp: sets_cmd_def deferred_def)
  let ?cl = "upd_pipe p (\<lambda>q. q\<lparr>trig_cmd := COMP_TRIGGER_NO_ACTION\<rparr>)"
  consider (err) "t = emit (Ipc_Reply err) (?cl s1)"
    | (ok) v s2 where "s2 = upd_pipe p (\<lambda>q. q\<lparr>pp_status := v\<rparr>) s1 \<or> s2 = s1"
        "t = emit (Ipc_Reply 0) (?cl s2) \<or> t = emit (Ipc_Reply 0) (?cl (upd_pipe p (\<lambda>q. q\<lparr>pp_status := COMP_STATE_ACTIVE\<rparr>) s2)) \<or>
         t = s2 \<and> trig_cmd (pipe s2 p) \<noteq> ?cmd \<and> st = SOF_TASK_STATE_RESCHEDULE"
  proof (cases "err < 0")
    case True
    then show ?thesis using err c assms(2) r by (simp add: pipeline_task_cmd_def Let_def)
  next
    case False
    let ?v = "if ?cmd = COMP_TRIGGER_START \<or> ?cmd = COMP_TRIGGER_RELEASE then COMP_STATE_ACTIVE
              else if ?cmd = COMP_TRIGGER_PRE_START \<or> ?cmd = COMP_TRIGGER_PRE_RELEASE then COMP_STATE_PRE_ACTIVE else COMP_STATE_PAUSED"
    define s2 where "s2 = (if ?cmd = COMP_TRIGGER_START \<or> ?cmd = COMP_TRIGGER_RELEASE then upd_pipe p (\<lambda>q. q\<lparr>pp_status := COMP_STATE_ACTIVE\<rparr>) s1
        else if ?cmd = COMP_TRIGGER_PRE_START \<or> ?cmd = COMP_TRIGGER_PRE_RELEASE then upd_pipe p (\<lambda>q. q\<lparr>pp_status := COMP_STATE_PRE_ACTIVE\<rparr>) s1
        else if ?cmd = COMP_TRIGGER_STOP \<or> ?cmd = COMP_TRIGGER_PAUSE then upd_pipe p (\<lambda>q. q\<lparr>pp_status := COMP_STATE_PAUSED\<rparr>) s1 else s1)"
    have "s2 = upd_pipe p (\<lambda>q. q\<lparr>pp_status := ?v\<rparr>) s1 \<or> s2 = s1" by (simp add: s2_def)
    moreover have "t = emit (Ipc_Reply 0) (?cl s2) \<or> t = emit (Ipc_Reply 0) (?cl (upd_pipe p (\<lambda>q. q\<lparr>pp_status := COMP_STATE_ACTIVE\<rparr>) s2)) \<or>
         t = s2 \<and> trig_cmd (pipe s2 p) \<noteq> ?cmd \<and> st = SOF_TASK_STATE_RESCHEDULE"
    proof -
      have "pipeline_task_cmd env p s =
        (let done = (\<lambda>st s'. Some (st, emit (Ipc_Reply 0) (?cl s')))
         in if err = PPL_STATUS_PATH_STOP then done SOF_TASK_STATE_COMPLETED s2
            else if trig_cmd (pipe s2 p) \<noteq> ?cmd then
              (if trig_delay (pipe s2 p) \<noteq> 0 then Some (SOF_TASK_STATE_RESCHEDULE, s2) else done SOF_TASK_STATE_RESCHEDULE s2)
            else if pp_status (pipe s2 p) = COMP_STATE_PAUSED then
              (if trig_aborted (pipe s2 p) then done SOF_TASK_STATE_RUNNING (upd_pipe p (\<lambda>q. q\<lparr>pp_status := COMP_STATE_ACTIVE\<rparr>) s2)
               else done SOF_TASK_STATE_COMPLETED s2)
            else done SOF_TASK_STATE_RESCHEDULE (upd_pipe p (\<lambda>q. q\<lparr>pp_status := COMP_STATE_ACTIVE\<rparr>) s2))"
        unfolding pipeline_task_cmd_def s2_def Let_def using assms(2) False by (simp only: r bind.bind_lunit prod.case if_False)
      then show ?thesis using c by (simp add: Let_def split: if_splits)
    qed
    ultimately show ?thesis by (rule ok)
  qed
  then show ?thesis
  proof cases
    case err
    then show ?thesis using answered_reply [OF p1] by simp
  next
    case ok
    then have "prefix (events s) (events s2)" using p1 by auto
    moreover have "t = s2 \<Longrightarrow> trig_cmd (pipe s2 p) \<noteq> ?cmd \<Longrightarrow> deferred p s t"
      using ok(1) s1 by (auto simp: sets_cmd_def deferred_def upd_pipe_def)
    ultimately show ?thesis using ok(2) answered_reply [of s] by auto
  qed
qed

section \<open>Repeated execution of the task\<close>

text \<open>The scheduler runs the task again and again as long as it asks to be rescheduled.\<close>

fun task_iter :: "nat \<Rightarrow> 'p fw_env \<Rightarrow> addr \<Rightarrow> 'p fw \<Rightarrow> (task_state \<times> 'p fw) option" where
  "task_iter 0 env p s = Some (SOF_TASK_STATE_RESCHEDULE, s)"
| "task_iter (Suc n) env p s =
     do { (st, t) \<leftarrow> pipeline_task_fn env p s;
          if st = SOF_TASK_STATE_RESCHEDULE then task_iter n env p t else Some (st, t) }"

lemma task_iter_add:
  "task_iter m env p s = Some (SOF_TASK_STATE_RESCHEDULE, t) \<Longrightarrow> task_iter (m + n) env p s = task_iter n env p t"
  by (induction m arbitrary: s) (auto simp: bind_eq_Some_conv split: if_splits)

lemma task_counts_down:
  assumes "xrun_bytes (pipe s p) = 0" "trig_delay (pipe s p) = int n"
  shows "task_iter n env p s = Some (SOF_TASK_STATE_RESCHEDULE, upd_pipe p (\<lambda>q. q\<lparr>trig_delay := 0\<rparr>) s)"
  using assms
proof (induction n arbitrary: s)
  case 0
  have "(pipe s p)\<lparr>trig_delay := 0\<rparr> = pipe s p" using 0(2) by (cases "pipe s p") simp
  then show ?case by (simp add: upd_pipe_def)
next
  case (Suc n)
  let ?s = "upd_pipe p (\<lambda>q. q\<lparr>trig_delay := trig_delay q - 1\<rparr>) s"
  have "pipeline_task_fn env p s = Some (SOF_TASK_STATE_RESCHEDULE, ?s)"
    using Suc by (simp add: pipeline_task_fn_def pipeline_task_run_def)
  moreover have "upd_pipe p (\<lambda>q. q\<lparr>trig_delay := 0\<rparr>) ?s = upd_pipe p (\<lambda>q. q\<lparr>trig_delay := 0\<rparr>) s"
    by (simp add: upd_pipe_def)
  ultimately show ?case using Suc(1) [of ?s] Suc(2,3) by (simp add: upd_pipe_def)
qed

lemma task_in_xrun:
  assumes "xrun_bytes (pipe s p) \<noteq> 0" "trig_cmd (pipe s p) \<noteq> COMP_TRIGGER_NO_ACTION"
  shows "\<exists>t. pipeline_task_fn env p s = Some (SOF_TASK_STATE_COMPLETED, t) \<and> answered p s t"
  using assms answered_reply [OF prefix_order.refl]
  by (simp add: pipeline_task_fn_def pipeline_xrun_recover_def EINVAL_def)

lemma copy_quiet: "quiet_env env \<Longrightarrow> pipeline_copy env p s = Some (err, t) \<Longrightarrow> quiet s t"
  by (auto simp: pipeline_copy_def Let_def bind_eq_Some_conv split: if_splits
      intro: walk_frame.walk_keeps_frame [OF copy_frame])

lemma task_copy_quiet: "quiet_env env \<Longrightarrow> pipeline_task_copy env p s = Some (st, t) \<Longrightarrow> quiet s t"
  by (auto simp: pipeline_task_copy_def pipeline_xrun_recover_def bind_eq_Some_conv intro: quiet_refl copy_quiet split: if_splits)

lemma task_executes:
  assumes env: "quiet_env env" and "trig_host (pipe s p) \<noteq> 0" "xrun_bytes (pipe s p) = 0" "0 < pp_period (pipe s p)"
    "trig_delay (pipe s p) = 0" "trig_cmd (pipe s p) \<noteq> COMP_TRIGGER_NO_ACTION" "pipeline_task_fn env p s = Some (st, t)"
  shows "answered p s t \<or> deferred p s t \<and> st = SOF_TASK_STATE_RESCHEDULE"
proof -
  obtain st1 s1 where c: "pipeline_task_cmd env p s = Some (st1, s1)"
    and r: "if st1 \<noteq> SOF_TASK_STATE_RUNNING then (st, t) = (st1, s1) else pipeline_task_copy env p s1 = Some (st, t)"
    using assms by (auto simp: pipeline_task_fn_def pipeline_task_run_def bind_eq_Some_conv split: if_splits)
  note a = task_cmd_answers [OF env assms(2-5) c]
  show ?thesis
  proof (cases "st1 = SOF_TASK_STATE_RUNNING")
    case True
    then have "answered p s s1" "quiet s1 t" using a r task_copy_quiet [OF env] by auto
    then show ?thesis using answered_quiet by blast
  next
    case False
    then show ?thesis using a r by auto
  qed
qed

text \<open>From a deferred command on, the countdown and the final stage remain.\<close>

lemma pending_answered:
  assumes ready: "walk_ready env P s" and env: "quiet_env env"
    and s: "trig_host (pipe s p) \<noteq> 0" "0 < pp_period (pipe s p)" "0 \<le> trig_delay (pipe s p)"
      "trig_cmd (pipe s p) \<noteq> COMP_TRIGGER_NO_ACTION"
  shows "\<exists>n st t. task_iter n env p s = Some (st, t) \<and>
    (answered p s t \<or> st = SOF_TASK_STATE_RESCHEDULE \<and> deferred p s t \<and> keeps P s t)"
proof (cases "xrun_bytes (pipe s p) = 0")
  case False
  then obtain t where "pipeline_task_fn env p s = Some (SOF_TASK_STATE_COMPLETED, t)" "answered p s t"
    using task_in_xrun s(4) by blast
  then have "task_iter 1 env p s = Some (SOF_TASK_STATE_COMPLETED, t) \<and> answered p s t" by simp
  then show ?thesis by blast
next
  case True
  let ?n = "nat (trig_delay (pipe s p))" and ?s = "upd_pipe p (\<lambda>q. q\<lparr>trig_delay := 0\<rparr>) s"
  have n: "task_iter ?n env p s = Some (SOF_TASK_STATE_RESCHEDULE, ?s)" using task_counts_down [OF True, of ?n] s(3) by simp
  have k: "keeps P s ?s" using ready by (intro keeps_upd) (auto simp: walk_ready_def intro: keeps_refl)
  note r = walk_ready_keeps [OF ready k]
  have q: "pipe ?s p = (pipe s p)\<lparr>trig_delay := 0\<rparr>" by (simp add: upd_pipe_def)
  obtain st t where t: "pipeline_task_fn env p ?s = Some (st, t)" "keeps P ?s t"
    using task_returns [OF r, of p] s(2) q by (auto simp: fw_returns_def)
  then have "task_iter (?n + 1) env p s = Some (st, t)" using task_iter_add [OF n, of 1] by (simp add: numeral_eq_Suc)
  moreover have "answered p ?s t \<or> deferred p ?s t \<and> st = SOF_TASK_STATE_RESCHEDULE"
    using task_executes [OF env _ _ _ _ _ t(1)] s q True by simp
  moreover have "answered p ?s t \<Longrightarrow> answered p s t" "deferred p ?s t \<Longrightarrow> deferred p s t"
    using q by (auto simp: answered_def deferred_def)
  ultimately show ?thesis using keeps_trans [OF k t(2)] by blast
qed

section \<open>The pipelines of a group\<close>

text \<open>The schedulers do not touch the pipeline objects.\<close>

definition sched_keeps_pipes :: "'p fw_env \<Rightarrow> bool" where
  "sched_keeps_pipes env \<longleftrightarrow>
     (\<forall>task start period s. pipes (schedule_task (env_sched env) task start period s) = pipes s) \<and>
     (\<forall>task start period other s. pipes (schedule_task_before (env_sched env) task start period other s) = pipes s) \<and>
     (\<forall>task start period other s. pipes (schedule_task_after (env_sched env) task start period other s) = pipes s) \<and>
     (\<forall>task s. pipes (schedule_task_cancel (env_sched env) task s) = pipes s)"

definition started :: "int \<Rightarrow> addr \<Rightarrow> pipeline \<Rightarrow> pipeline" where
  "started cmd h q = (if pipeline_is_timer_driven q then q\<lparr>xrun_bytes := 0, trig_cmd := cmd, trig_host := h\<rparr>
                      else q\<lparr>xrun_bytes := 0, pp_status := COMP_STATE_ACTIVE\<rparr>)"

lemma schedule_copy_pipes: "sched_keeps_pipes env \<Longrightarrow> pipes (pipeline_schedule_copy env p start s) = pipes s"
  by (simp add: pipeline_schedule_copy_def Let_def sched_keeps_pipes_def emit_def)

lemma triggered_start_pipes:
  "sched_keeps_pipes env \<Longrightarrow> triggered_start env cmd p (h, s) = (h', t) \<Longrightarrow>
   pipes t = (pipes s)(p := started cmd h (pipe s p)) \<and> h' = (if pipeline_is_timer_driven (pipe s p) then 0 else h)"
  by (auto simp: triggered_start_def Let_def schedule_copy_pipes upd_pipe_def started_def pipeline_is_timer_driven_def split: if_splits)

lemma fold_start_pipes:
  assumes "sched_keeps_pipes env" "distinct ps" "fold (triggered_start env cmd) ps (h, s) = (h', t)"
  shows "\<forall>p. pipe t p = (if p \<in> set ps
    then started cmd (if find (\<lambda>q. pipeline_is_timer_driven (pipe s q)) ps = Some p then h else 0) (pipe s p) else pipe s p)"
  using assms(2,3)
proof (induction ps arbitrary: h s)
  case Nil
  then show ?case by simp
next
  case (Cons a ps)
  obtain h1 s1 where 1: "triggered_start env cmd a (h, s) = (h1, s1)" by (cases "triggered_start env cmd a (h, s)")
  note 2 = triggered_start_pipes [OF assms(1) 1]
  have eq: "find (\<lambda>q. pipeline_is_timer_driven (pipe s1 q)) ps = find (\<lambda>q. pipeline_is_timer_driven (pipe s q)) ps"
    using 2 Cons(2) by (intro find_cong) auto
  have "\<forall>p. pipe t p = (if p \<in> set ps
    then started cmd (if find (\<lambda>q. pipeline_is_timer_driven (pipe s1 q)) ps = Some p then h1 else 0) (pipe s1 p) else pipe s1 p)"
    using Cons.IH [of h1 s1] Cons.prems 1 by simp
  then have 3: "pipe t p = (if p \<in> set ps
    then started cmd (if find (\<lambda>q. pipeline_is_timer_driven (pipe s q)) ps = Some p then h1 else 0) (pipe s1 p) else pipe s1 p)" for p
    unfolding eq by blast
  have a: "a \<notin> set ps" using Cons.prems by simp
  show ?case
  proof
    fix p
    show "pipe t p = (if p \<in> set (a # ps)
      then started cmd (if find (\<lambda>q. pipeline_is_timer_driven (pipe s q)) (a # ps) = Some p then h else 0) (pipe s p) else pipe s p)"
    proof (cases "p = a")
      case True
      moreover have "\<not> pipeline_is_timer_driven (pipe s a) \<Longrightarrow> started cmd u (pipe s a) = started cmd v (pipe s a)" for u v
        by (simp add: started_def)
      ultimately show ?thesis using 2 3 [of a] a by (cases "pipeline_is_timer_driven (pipe s a)") simp_all
    next
      case False
      then show ?thesis using 2 3 [of p] by (cases "pipeline_is_timer_driven (pipe s a)") simp_all
    qed
  qed
qed

section \<open>Properties\<close>

lemma demo_quiet: "quiet_env demo_env"
  by (auto simp: quiet_env_def demo_env_def demo_ops_def demo_sched_def comp_trigger_def comp_copy_def Let_def quiet_refl split: if_splits)

definition demo_pending :: "unit fw" where
  "demo_pending = upd_pipe 8 (\<lambda>q. q\<lparr>trig_cmd := COMP_TRIGGER_PRE_START, trig_host := 16, trig_delay := 2\<rparr>) demo_graph"

lemma demo_pending_ready: "walk_ready demo_env demo_P demo_pending"
proof (rule walk_ready_keeps [OF demo_ready])
  show "keeps demo_P demo_graph demo_pending"
    using demo_ready unfolding demo_pending_def by (intro keeps_upd) (auto simp: walk_ready_def intro: keeps_refl)
qed

text \<open>
  C1: a command offloaded to the pipeline task is always answered. Run often enough, the task of a
  pipeline with a pending command sends a reply to the host and clears the command: at once with an
  error when the pipeline is in xrun, and otherwise after the delay of the current and, for a start
  or release, of the second stage has been counted down, whatever the drivers return.
\<close>

theorem command_is_answered:
  assumes "walk_ready env P s" "quiet_env env" "trig_cmd (pipe s p) \<noteq> COMP_TRIGGER_NO_ACTION" "trig_host (pipe s p) \<noteq> 0"
    "0 < pp_period (pipe s p)" "0 \<le> trig_delay (pipe s p)"
  shows "\<exists>n st t before r after. task_iter n env p s = Some (st, t) \<and> trig_cmd (pipe t p) = COMP_TRIGGER_NO_ACTION \<and>
    events t = events s @ before @ Ipc_Reply r # after"
proof -
  obtain n st t where n: "task_iter n env p s = Some (st, t)"
    "answered p s t \<or> st = SOF_TASK_STATE_RESCHEDULE \<and> deferred p s t \<and> keeps P s t"
    using pending_answered [OF assms(1,2,4,5,6,3)] by blast
  show ?thesis
  proof (cases "answered p s t")
    case True
    then show ?thesis using n(1) unfolding answered_def by blast
  next
    case False
    then have d: "st = SOF_TASK_STATE_RESCHEDULE" "deferred p s t" "keeps P s t" using n by auto
    have t: "trig_host (pipe t p) \<noteq> 0" "0 < pp_period (pipe t p)" "0 \<le> trig_delay (pipe t p)"
        "trig_cmd (pipe t p) \<noteq> COMP_TRIGGER_NO_ACTION" "\<not> deferred p t u" for u
      using d assms(4,5) shape_eqD(6) [OF keepsD(1) [OF d(3)]] by (auto simp: deferred_def comp_triggers)
    obtain m st' u where m: "task_iter m env p t = Some (st', u)" "answered p t u"
      using pending_answered [OF walk_ready_keeps [OF assms(1) d(3)] assms(2) t(1-4)] t(5) by blast
    then have "task_iter (n + m) env p s = Some (st', u)" using task_iter_add [of n env p s t m] n(1) d(1) by simp
    moreover obtain b where "events t = events s @ b" using d(2) by (auto simp: deferred_def prefix_def)
    ultimately show ?thesis using m(2) unfolding answered_def by (metis append.assoc)
  qed
qed

theorem command_is_answered_witness:
  "\<exists>n st t before r after. task_iter n demo_env 8 demo_pending = Some (st, t) \<and>
    trig_cmd (pipe t 8) = COMP_TRIGGER_NO_ACTION \<and> events t = events demo_pending @ before @ Ipc_Reply r # after"
  by (rule command_is_answered [OF demo_pending_ready demo_quiet])
    (simp_all add: demo_pending_def demo_graph_def upd_pipe_def comp_triggers)


definition demo_group :: wdata where
  "demo_group = (walk_data 16 0 COMP_TRIGGER_PRE_START)\<lparr>wd_pipelines :=
     list_item_append (list_item_append (list_init (\<lambda>_. \<lparr>nx = 0, pv = 0\<rparr>) walk_head) 8 walk_head) 24 walk_head\<rparr>"


end
