(* ===== verification/Sof_Xrun.thy ===== *)
theory Sof_Xrun
  imports Sof_Task
begin

text \<open>
  Xruns: the search for the host that has to hear of it ends when the pipelines upstream form no
  cycle, an xrun is recorded once, and a pipeline in xrun copies nothing.
\<close>

section \<open>The search for the host\<close>

lemma xrun_next_aborted: "xrun_next h (upd_pipe p (\<lambda>q. q\<lparr>trig_aborted := v\<rparr>) s) = xrun_next h s"
  by (auto simp: xrun_next_def Let_def upd_pipe_def intro!: arg_cong2 [of _ _ _ _ map_option] find_cong)

lemma trigger_xrun_returns:
  fixes rank :: "addr \<Rightarrow> nat"
  assumes "\<And>h h'. xrun_next h s = Some h' \<Longrightarrow> rank h' < rank h"
  shows "\<exists>h. pipeline_trigger_xrun host s = Some h \<and> xrun_next h s = None"
proof (induction host rule: measure_induct_rule [of rank])
  case (less host)
  show ?case
  proof (cases "xrun_next host s")
    case None
    then show ?thesis by (subst pipeline_trigger_xrun.simps) simp
  next
    case (Some h')
    then show ?thesis using less assms by (subst pipeline_trigger_xrun.simps) simp
  qed
qed

section \<open>The walk that notifies the host\<close>

text \<open>It changes neither pipelines nor components.\<close>

interpretation xrun_frame: walk_frame "xrun_ctx env" "\<lambda>s t. pipes t = pipes s \<and> comps t = comps s" for env
  by unfold_locales
    (auto simp: xrun_ctx_def pipeline_comp_xrun_def Let_def fw_upd_defs split: if_splits dest!: meta_spec)

lemma xrun_notify_returns:
  assumes "walk_ready env P s"
  shows "\<exists>err t e. run_walk (walk_fuel env) (xrun_ctx env) dev 0 dir (s, (walk_data 0 p 0)\<lparr>wd_posn := posn\<rparr>) = Some (err, t, e) \<and>
    keeps P s t \<and> pipes t = pipes s"
proof -
  obtain B where B: "holds P s" "bufs_within B s" "card B < walk_fuel env" using assms by (auto simp: walk_ready_def)
  have "unwalked B s \<le> card B" using B(2) by (auto simp: unwalked_def bufs_within_def intro: card_mono)
  then have "returns P s (run_walk (walk_fuel env) (xrun_ctx env) dev 0 dir (s, (walk_data 0 p 0)\<lparr>wd_posn := posn\<rparr>))"
    using graph_walk.walk_returns [OF xrun_walk B(1) _ B(2)] B(3) by simp
  then show ?thesis using xrun_frame.walk_keeps_frame unfolding returns_def by blast
qed

lemma trigger_xrun_run:
  fixes rank :: "addr \<Rightarrow> nat"
  assumes "walk_ready env P s" and r: "\<And>h h'. xrun_next h s = Some h' \<Longrightarrow> rank h' < rank h"
  shows "fw_returns P s (pipeline_trigger env p host COMP_TRIGGER_XRUN s)"
proof -
  let ?s = "upd_pipe p (\<lambda>q. q\<lparr>trig_aborted := False\<rparr>) s"
  have k: "keeps P s ?s" using readyD(2) [OF assms(1)] by (rule keeps_upd(2)) simp
  obtain h where "pipeline_trigger_xrun host ?s = Some h"
    using trigger_xrun_returns [of ?s rank host] r by (auto simp: xrun_next_aborted)
  moreover obtain ret t where "pipeline_trigger_list env p h COMP_TRIGGER_XRUN ?s = Some (ret, t)" "keeps P ?s t"
    using trigger_list_returns [OF walk_ready_keeps [OF assms(1) k]] unfolding fw_returns_def by blast
  ultimately show ?thesis using keeps_trans [OF k] by (simp add: pipeline_trigger_def Let_def comp_triggers fw_returns_def)
qed

section \<open>Properties\<close>

text \<open>
  C14: an xrun of an active component is recorded once. When the chain of linked pipelines towards
  the host is finite, the xrun handler returns with the number of bytes recorded in the pipeline and
  the graph unchanged; a second xrun of the pipeline, of whatever component, changes nothing; and
  until the pipeline is started again its task completes without touching components, buffers or
  memory.
\<close>

theorem xrun_recorded_once:
  fixes rank :: "addr \<Rightarrow> nat"
  assumes "walk_ready env P s" "xrun_bytes (pipe s p) = 0" "c_state (cdev s dev) = COMP_STATE_ACTIVE" "bytes \<noteq> 0"
    "\<And>h h'. xrun_next h s = Some h' \<Longrightarrow> rank h' < rank h"
  shows "\<exists>t. pipeline_xrun env p dev bytes s = Some t \<and> xrun_bytes (pipe t p) = bytes \<and> keeps P s t \<and>
    pipeline_xrun env p dev' bytes' t = Some t \<and>
    (\<exists>u. pipeline_task_fn env p t = Some (SOF_TASK_STATE_COMPLETED, u) \<and> comps u = comps t \<and> fw_buf u = fw_buf t)"
proof -
  obtain ret s1 where 1: "pipeline_trigger env p (source_comp (pipe s p)) COMP_TRIGGER_XRUN s = Some (ret, s1)" "keeps P s s1"
    using trigger_xrun_run [where rank = rank, OF assms(1,5)] unfolding fw_returns_def by blast
  let ?s2 = "upd_pipe p (\<lambda>q. q\<lparr>xrun_bytes := bytes\<rparr>) s1"
  have k: "keeps P s ?s2" using 1(2) by (rule keeps_upd(2)) simp
  let ?cid = "dev_comp_id (cdev s1 dev)"
  let ?posn = "(ipc_build_stream_posn (sizeof_posn env) zero_posn SOF_IPC_STREAM_TRIG_XRUN ?cid)\<lparr>xrun_size := bytes, xrun_comp_id := ?cid\<rparr>"
  obtain err t e where t: "run_walk (walk_fuel env) (xrun_ctx env) dev 0 (c_direction (cdev ?s2 dev))
      (?s2, (walk_data 0 p 0)\<lparr>wd_posn := ?posn\<rparr>) = Some (err, t, e)" "keeps P ?s2 t" "pipes t = pipes ?s2"
    using xrun_notify_returns [OF walk_ready_keeps [OF assms(1) k]] by blast
  have "pipeline_xrun env p dev bytes s = Some t" using assms(2,3) 1 t(1) by (simp add: pipeline_xrun_def Let_def)
  moreover have x: "xrun_bytes (pipe t p) = bytes" using t(3) by (simp add: upd_pipe_def)
  moreover have "pipeline_xrun env p dev' bytes' t = Some t" using x assms(4) by (simp add: pipeline_xrun_def)
  moreover have "\<exists>u. pipeline_task_fn env p t = Some (SOF_TASK_STATE_COMPLETED, u) \<and> comps u = comps t \<and> fw_buf u = fw_buf t"
    using x assms(4) by (auto simp: pipeline_task_fn_def pipeline_xrun_recover_def EINVAL_def fw_upd_defs)
  ultimately show ?thesis using keeps_trans [OF k t(2)] by blast
qed

definition demo_active :: "unit fw" where
  "demo_active = upd_comp 48 (\<lambda>c. c\<lparr>c_state := COMP_STATE_ACTIVE\<rparr>) demo_graph"

theorem xrun_recorded_once_witness:
  "\<exists>t. pipeline_xrun demo_env 8 48 (- 64) demo_active = Some t \<and> xrun_bytes (pipe t 8) = - 64 \<and>
     pipeline_xrun demo_env 8 16 32 t = Some t"
proof -
  have k: "keeps demo_P demo_graph demo_active"
    using readyD(2) [OF demo_ready] unfolding demo_active_def by (rule keeps_upd(1)) simp
  have n: "xrun_next h demo_active = None" for h
    by (auto simp: xrun_next_def Let_def demo_active_def demo_graph_def demo_fw_def zero_comp_def upd_comp_def comp_buffer_list_def
        zero_pipeline_def comp_states find_None_iff PPL_DIR_UPSTREAM_def PPL_DIR_DOWNSTREAM_def)
  have "xrun_bytes (pipe demo_active 8) = 0" "c_state (cdev demo_active 48) = COMP_STATE_ACTIVE" "(- 64 :: int) \<noteq> 0"
    by (simp_all add: demo_active_def demo_graph_def upd_comp_def zero_pipeline_def)
  from xrun_recorded_once [OF walk_ready_keeps [OF demo_ready k] this, of "\<lambda>_. 0" 16 32] n show ?thesis by auto
qed

end
