(* ===== verification/Sof_LL.thy ===== *)
theory Sof_LL
  imports Sof_Pipeline
begin

text \<open>
  The low latency scheduler of \<open>src/schedule/ll_schedule.c\<close> with its domains
  (\<open>ll_schedule_domain.h\<close>, \<open>timer_domain.c\<close>) and the task initialisation of \<open>schedule.c\<close>. The task
  list is kept in the links of \<open>list.h\<close>.
\<close>

section \<open>Tasks and domains\<close>

definition EEXIST :: int where "EEXIST = 17"
definition EALREADY :: int where "EALREADY = 114"
definition SOF_SCHEDULE_EDF :: int where "SOF_SCHEDULE_EDF = 0"
definition SOF_SCHEDULE_COUNT :: int where "SOF_SCHEDULE_COUNT = 3"
definition UINT64_MAX :: int where "UINT64_MAX = 18446744073709551615"
definition SOF_TASK_SKIP_COUNT :: int where "SOF_TASK_SKIP_COUNT = 0xFFFF"
definition SOF_SCHEDULER_FREE_IRQ_ONLY :: int where "SOF_SCHEDULER_FREE_IRQ_ONLY = 1"

record task =
  tk_start :: int
  tk_type :: int
  tk_priority :: int
  tk_core :: int
  tk_flags :: int
  tk_state :: task_state
  tk_data :: addr
  tk_priv :: addr

record ll_task_pdata =
  lp_period :: int
  lp_ratio :: int
  lp_skip_cnt :: int

record ll_schedule_domain =
  next_tick :: int
  new_target_tick :: int
  total_num_tasks :: int
  enabled_cores :: int
  ticks_per_ms :: int
  d_type :: int
  d_clk :: int
  d_synchronous :: bool
  full_sync :: bool
  d_enabled :: "int \<Rightarrow> bool"

text \<open>
  One scheduler with its domain and the tasks it can reach; \<open>is_registrable\<close> is the flag of the
  pipeline task around a task, and \<open>ll_rest\<close> the state of the domain implementation and of the code
  that tasks run.
\<close>

record 'q ll =
  ll_links :: links
  ll_task :: "addr \<Rightarrow> task"
  ll_pdata :: "addr \<Rightarrow> ll_task_pdata"
  is_registrable :: "addr \<Rightarrow> bool"
  num_tasks :: int
  ll_domain :: ll_schedule_domain
  ll_mm :: mm
  ll_rest :: 'q

record 'q domain_ops =
  op_register :: "addr \<Rightarrow> 'q ll \<Rightarrow> int \<times> 'q ll"
  op_unregister :: "addr \<Rightarrow> int \<Rightarrow> 'q ll \<Rightarrow> int \<times> 'q ll"
  op_enable :: "(int \<Rightarrow> 'q ll \<Rightarrow> 'q ll) option"
  op_disable :: "(int \<Rightarrow> 'q ll \<Rightarrow> 'q ll) option"
  op_set :: "(int \<Rightarrow> 'q ll \<Rightarrow> 'q ll) option"
  op_clear :: "('q ll \<Rightarrow> 'q ll) option"
  op_is_pending :: "addr \<Rightarrow> addr \<Rightarrow> 'q ll \<Rightarrow> bool \<times> addr \<times> 'q ll"

text \<open>The environment: the core, the timer, the domain, the code of the tasks, and the notification after a run.\<close>

record 'q ll_env =
  le_plat :: plat
  le_core :: int
  le_now :: "'q ll \<Rightarrow> int"
  le_domain :: "'q domain_ops"
  le_run :: "addr \<Rightarrow> 'q ll \<Rightarrow> (task_state \<times> 'q ll) option"
  le_post_run :: "'q ll \<Rightarrow> 'q ll"
  le_sizeof_pdata :: int
  clock_ms_to_ticks :: "int \<Rightarrow> int \<Rightarrow> int"

definition ll_head :: addr where
  "ll_head = - 1"

definition upd_task :: "addr \<Rightarrow> (task \<Rightarrow> task) \<Rightarrow> 'q ll \<Rightarrow> 'q ll" where
  "upd_task t f S = S\<lparr>ll_task := (ll_task S)(t := f (ll_task S t))\<rparr>"

definition upd_domain :: "(ll_schedule_domain \<Rightarrow> ll_schedule_domain) \<Rightarrow> 'q ll \<Rightarrow> 'q ll" where
  "upd_domain f S = S\<lparr>ll_domain := f (ll_domain S)\<rparr>"

definition set_state :: "addr \<Rightarrow> task_state \<Rightarrow> 'q ll \<Rightarrow> 'q ll" where
  "set_state t st = upd_task t (\<lambda>k. k\<lparr>tk_state := st\<rparr>)"

definition task_of_state_active :: "task_state \<Rightarrow> bool" where
  "task_of_state_active st \<longleftrightarrow> st \<in> {SOF_TASK_STATE_QUEUED, SOF_TASK_STATE_PENDING, SOF_TASK_STATE_RUNNING,
     SOF_TASK_STATE_PREEMPTED, SOF_TASK_STATE_RESCHEDULE}"

text \<open>The items of the task list, as \<open>list_for_item\<close> visits them.\<close>

definition ll_items :: "'q ll \<Rightarrow> addr list option" where
  "ll_items S = list_for_item (ll_links S) (nx (ll_links S ll_head)) ll_head"

definition domain_init :: "(int \<Rightarrow> int \<Rightarrow> int) \<Rightarrow> int \<Rightarrow> int \<Rightarrow> bool \<Rightarrow> ll_schedule_domain" where
  "domain_init ticks typ clk synchronous =
     \<lparr>next_tick = UINT64_MAX, new_target_tick = UINT64_MAX, total_num_tasks = 0, enabled_cores = 0,
      ticks_per_ms = u32 (ticks clk 1), d_type = typ, d_clk = clk, d_synchronous = synchronous, full_sync = False,
      d_enabled = (\<lambda>_. False)\<rparr>"

definition domain_set :: "'q ll_env \<Rightarrow> int \<Rightarrow> 'q ll \<Rightarrow> 'q ll" where
  "domain_set env start S =
     (case op_set (le_domain env) of Some f \<Rightarrow> f start S
      | None \<Rightarrow> upd_domain (\<lambda>d. d\<lparr>next_tick := start\<rparr>) S)"

definition domain_clear :: "'q ll_env \<Rightarrow> 'q ll \<Rightarrow> 'q ll" where
  "domain_clear env S =
     upd_domain (\<lambda>d. d\<lparr>next_tick := UINT64_MAX\<rparr>)
       (case op_clear (le_domain env) of Some f \<Rightarrow> f S | None \<Rightarrow> S)"

definition domain_register :: "'q ll_env \<Rightarrow> addr \<Rightarrow> 'q ll \<Rightarrow> int \<times> 'q ll" where
  "domain_register env t S =
     (let (ret, S1) = op_register (le_domain env) t S
      in (ret, if ret = 0 then upd_domain (\<lambda>d. d\<lparr>total_num_tasks := s32 (total_num_tasks d + 1)\<rparr>) S1 else S1))"

definition domain_unregister :: "'q ll_env \<Rightarrow> addr \<Rightarrow> int \<Rightarrow> 'q ll \<Rightarrow> 'q ll" where
  "domain_unregister env t num S =
     (let S1 = (if t \<noteq> 0 then upd_domain (\<lambda>d. d\<lparr>total_num_tasks := s32 (total_num_tasks d - 1)\<rparr>) S else S);
          (ret, S2) = op_unregister (le_domain env) t num S1
      in if ret < 0 \<and> t \<noteq> 0 then upd_domain (\<lambda>d. d\<lparr>total_num_tasks := s32 (total_num_tasks d + 1)\<rparr>) S2 else S2)"

definition domain_enable :: "'q ll_env \<Rightarrow> int \<Rightarrow> 'q ll \<Rightarrow> 'q ll" where
  "domain_enable env core S =
     (case op_enable (le_domain env) of
        Some f \<Rightarrow>
          if \<not> d_enabled (ll_domain S) core
          then upd_domain (\<lambda>d. d\<lparr>d_enabled := (d_enabled d)(core := True), enabled_cores := s32 (enabled_cores d + 1)\<rparr>) (f core S)
          else S
      | None \<Rightarrow> S)"

definition domain_disable :: "'q ll_env \<Rightarrow> int \<Rightarrow> 'q ll \<Rightarrow> 'q ll" where
  "domain_disable env core S =
     (case op_disable (le_domain env) of
        Some f \<Rightarrow>
          if d_enabled (ll_domain S) core
          then upd_domain (\<lambda>d. d\<lparr>d_enabled := (d_enabled d)(core := False), enabled_cores := s32 (enabled_cores d - 1)\<rparr>) (f core S)
          else S
      | None \<Rightarrow> S)"

section \<open>Scheduling a task\<close>

definition schedule_task_init ::
    "addr \<Rightarrow> int \<Rightarrow> int \<Rightarrow> addr \<Rightarrow> int \<Rightarrow> int \<Rightarrow> 'q ll \<Rightarrow> int \<times> 'q ll" where
  "schedule_task_init t typ priority data core flags S =
     (if typ \<ge> SOF_SCHEDULE_COUNT then (- EINVAL, S)
      else (0, upd_task t (\<lambda>k. k\<lparr>tk_type := typ, tk_priority := priority, tk_core := core, tk_flags := u16 flags,
                               tk_state := SOF_TASK_STATE_INIT, tk_data := data\<rparr>) S))"

definition schedule_task_init_ll_fn ::
    "'q ll_env \<Rightarrow> addr \<Rightarrow> int \<Rightarrow> int \<Rightarrow> addr \<Rightarrow> int \<Rightarrow> int \<Rightarrow> 'q ll \<Rightarrow> (int \<times> 'q ll) option" where
  "schedule_task_init_ll_fn env t typ priority data core flags S =
     (let (ret, S1) = schedule_task_init t typ priority data core flags S
      in if ret < 0 then Some (ret, S1)
         else if tk_priv (ll_task S1 t) \<noteq> 0 then Some (- EEXIST, S1)
         else do {
           (p, mm) \<leftarrow> rmalloc (le_plat env) (ll_mm S1) SOF_MEM_ZONE_SYS_RUNTIME SOF_MEM_CAPS_RAM (le_sizeof_pdata env);
           let S2 = S1\<lparr>ll_mm := mm\<rparr>;
           if p = 0 then Some (- ENOMEM, S2)
           else Some (0, upd_task t (\<lambda>k. k\<lparr>tk_priv := p\<rparr>)
                  (S2\<lparr>ll_pdata := (ll_pdata S2)(p := \<lparr>lp_period = 0, lp_ratio = 0, lp_skip_cnt = 0\<rparr>)\<rparr>)) })"

definition schedule_ll_task_insert :: "addr \<Rightarrow> 'q ll \<Rightarrow> 'q ll option" where
  "schedule_ll_task_insert t S =
     do { xs \<leftarrow> ll_items S;
          Some (S\<lparr>ll_links := list_item_append (ll_links S) t
            (case find (\<lambda>c. tk_priority (ll_task S t) < tk_priority (ll_task S c)) xs of Some c \<Rightarrow> c | None \<Rightarrow> ll_head)\<rparr>) }"

definition schedule_ll_task_insert_before :: "addr \<Rightarrow> addr \<Rightarrow> 'q ll \<Rightarrow> 'q ll" where
  "schedule_ll_task_insert_before t before S = S\<lparr>ll_links := list_item_append (ll_links S) t before\<rparr>"

definition schedule_ll_task_insert_after :: "addr \<Rightarrow> addr \<Rightarrow> 'q ll \<Rightarrow> 'q ll" where
  "schedule_ll_task_insert_after t after S = S\<lparr>ll_links := list_item_prepend (ll_links S) t after\<rparr>"

section \<open>The domain side\<close>

text \<open>The time arithmetic divides by the period in ticks: no result when that is zero.\<close>

definition domain_set_start :: "'q ll_env \<Rightarrow> addr \<Rightarrow> int \<Rightarrow> int \<Rightarrow> addr \<Rightarrow> 'q ll \<Rightarrow> 'q ll option" where
  "domain_set_start env t start period reference S =
     (let task_start_us = (if period \<noteq> 0 then period else start);
          task_start_ticks = u64 (ticks_per_ms (ll_domain S) * task_start_us) div 1000;
          task_start = u64 (task_start_ticks + le_now env S);
          next = next_tick (ll_domain S);
          begin_at = (\<lambda>v. upd_task t (\<lambda>k. k\<lparr>tk_start := v\<rparr>));
          begin_next = (\<lambda>S'. begin_at (next_tick (ll_domain S')) S')
      in if reference \<noteq> 0 then Some (begin_at (tk_start (ll_task S reference)) S)
         else if next = UINT64_MAX then Some (begin_next (domain_set env task_start S))
         else if period = 0 then
           (let S1 = begin_at task_start S in Some (if task_start < next then domain_set env task_start S1 else S1))
         else if u64 (task_start + task_start_ticks) < next then
           (if task_start_ticks = 0 then None
            else Some (begin_next (domain_set env (u64 (task_start + u64 (next - task_start) mod task_start_ticks)) S)))
         else Some (begin_at next S))"

definition schedule_ll_domain_set :: "'q ll_env \<Rightarrow> addr \<Rightarrow> int \<Rightarrow> int \<Rightarrow> addr \<Rightarrow> 'q ll \<Rightarrow> (int \<times> 'q ll) option" where
  "schedule_ll_domain_set env t start period reference S =
     (let (ret, S1) = domain_register env t S
      in if ret < 0 then Some (ret, S1)
         else do {
           S2 \<leftarrow> domain_set_start env t start period reference S1;
           Some (ret, domain_enable env (le_core env) (S2\<lparr>num_tasks := s32 (num_tasks S2 + 1)\<rparr>)) })"

definition schedule_ll_domain_clear :: "'q ll_env \<Rightarrow> addr \<Rightarrow> 'q ll \<Rightarrow> 'q ll" where
  "schedule_ll_domain_clear env t S =
     (let old = num_tasks S; S1 = S\<lparr>num_tasks := s32 (old - 1)\<rparr>;
          S2 = (if old = 1 then domain_disable env (le_core env) S1 else S1)
      in domain_unregister env t (u32 (num_tasks S2)) S2)"

text \<open>
  In a fully synchronous domain the ratios of the queued tasks are recomputed. A task with a shorter
  period than the registrable one ends the loop with an error.
\<close>

fun update_ratios :: "int \<Rightarrow> int \<Rightarrow> addr list \<Rightarrow> 'q ll \<Rightarrow> (int \<times> 'q ll) option" where
  "update_ratios period reg_period [] S = Some (0, S)"
| "update_ratios period reg_period (c # cs) S =
     (let pd = tk_priv (ll_task S c)
      in if lp_period (ll_pdata S pd) < reg_period then Some (- EINVAL, S)
         else if reg_period = 0 then None
         else update_ratios period reg_period cs
                (S\<lparr>ll_pdata := (ll_pdata S)(pd := (ll_pdata S pd)\<lparr>lp_ratio := u16 (period div reg_period)\<rparr>)\<rparr>))"

definition schedule_ll_task_common ::
    "'q ll_env \<Rightarrow> addr \<Rightarrow> int \<Rightarrow> int \<Rightarrow> addr \<Rightarrow> bool \<Rightarrow> 'q ll \<Rightarrow> (int \<times> 'q ll) option" where
  "schedule_ll_task_common env t start period reference before S =
     do { xs \<leftarrow> ll_items S;
          if t \<in> set xs then Some (0, S)
          else do {
            let pd = tk_priv (ll_task S t);
            let set_pd = (\<lambda>f S. S\<lparr>ll_pdata := (ll_pdata S)(pd := f (ll_pdata S pd))\<rparr>);
            let S1 = set_pd (\<lambda>p. p\<lparr>lp_period := period\<rparr>) S;
            (ret, S2) \<leftarrow>
              (if full_sync (ll_domain S1) then
                 (let S2 = set_pd (\<lambda>p. p\<lparr>lp_ratio := 1, lp_skip_cnt := SOF_TASK_SKIP_COUNT\<rparr>) S1
                  in case find (is_registrable S2) xs of
                       None \<Rightarrow> Some (0, S2)
                     | Some r \<Rightarrow> update_ratios period (lp_period (ll_pdata S2 (tk_priv (ll_task S2 r)))) xs S2)
               else Some (0, S1));
            if ret < 0 then Some (ret, S2)
            else do {
              S3 \<leftarrow> (if reference = 0 then schedule_ll_task_insert t S2
                      else if before then Some (schedule_ll_task_insert_before t reference S2)
                      else Some (schedule_ll_task_insert_after t reference S2));
              let S4 = set_state t SOF_TASK_STATE_QUEUED S3;
              (ret, S5) \<leftarrow> schedule_ll_domain_set env t start period reference S4;
              Some (ret, if ret < 0 then S5\<lparr>ll_links := list_item_del (ll_links S5) t\<rparr> else S5) } } }"

definition schedule_ll_task :: "'q ll_env \<Rightarrow> addr \<Rightarrow> int \<Rightarrow> int \<Rightarrow> 'q ll \<Rightarrow> (int \<times> 'q ll) option" where
  "schedule_ll_task env t start period = schedule_ll_task_common env t start period 0 False"

definition schedule_ll_task_before :: "'q ll_env \<Rightarrow> addr \<Rightarrow> int \<Rightarrow> int \<Rightarrow> addr \<Rightarrow> 'q ll \<Rightarrow> (int \<times> 'q ll) option" where
  "schedule_ll_task_before env t start period before = schedule_ll_task_common env t start period before True"

definition schedule_ll_task_after :: "'q ll_env \<Rightarrow> addr \<Rightarrow> int \<Rightarrow> int \<Rightarrow> addr \<Rightarrow> 'q ll \<Rightarrow> (int \<times> 'q ll) option" where
  "schedule_ll_task_after env t start period after = schedule_ll_task_common env t start period after False"

definition schedule_ll_task_free :: "'q ll_env \<Rightarrow> addr \<Rightarrow> 'q ll \<Rightarrow> (int \<times> 'q ll) option" where
  "schedule_ll_task_free env t S =
     (let S1 = set_state t SOF_TASK_STATE_FREE S
      in do { mm \<leftarrow> rfree (le_plat env) (ll_mm S1) (tk_priv (ll_task S1 t));
              Some (0, upd_task t (\<lambda>k. k\<lparr>tk_priv := 0\<rparr>) (S1\<lparr>ll_mm := mm\<rparr>)) })"

definition schedule_ll_task_cancel :: "'q ll_env \<Rightarrow> addr \<Rightarrow> 'q ll \<Rightarrow> (int \<times> 'q ll) option" where
  "schedule_ll_task_cancel env t S =
     do { xs \<leftarrow> ll_items S;
          if t \<in> set xs then
            (let S1 = set_state t SOF_TASK_STATE_CANCEL (schedule_ll_domain_clear env t S)
             in Some (0, S1\<lparr>ll_links := list_item_del (ll_links S1) t\<rparr>))
          else Some (0, S) }"

definition reschedule_ll_task :: "'q ll_env \<Rightarrow> addr \<Rightarrow> int \<Rightarrow> 'q ll \<Rightarrow> (int \<times> 'q ll) option" where
  "reschedule_ll_task env t start S =
     (let time = u64 (u64 (ticks_per_ms (ll_domain S) * start) div 1000 + le_now env S)
      in do { xs \<leftarrow> ll_items S;
              Some (0, if t \<in> set xs then upd_task t (\<lambda>k. k\<lparr>tk_start := time\<rparr>) S else S) })"

section \<open>Running the tasks\<close>

definition mark_pending :: "'q ll_env \<Rightarrow> addr \<Rightarrow> addr \<times> int \<times> 'q ll \<Rightarrow> addr \<times> int \<times> 'q ll" where
  "mark_pending env t = (\<lambda>(c, n, S).
     if tk_state (ll_task S t) \<noteq> SOF_TASK_STATE_QUEUED \<and> tk_state (ll_task S t) \<noteq> SOF_TASK_STATE_RESCHEDULE then (c, n, S)
     else
       let (b, c', S1) = op_is_pending (le_domain env) t c S
       in if b then (c', u32 (n + 1), set_state t SOF_TASK_STATE_PENDING S1) else (c', n, S1))"

partial_function (option) pending_passes :: "'q ll_env \<Rightarrow> int \<Rightarrow> 'q ll \<Rightarrow> (int \<times> 'q ll) option" where
  "pending_passes env n S =
     do { xs \<leftarrow> ll_items S;
          let (c, n', S') = fold (mark_pending env) xs (0, n, S);
          if c \<noteq> 0 then pending_passes env n' S' else Some (n', S') }"

definition schedule_ll_is_pending :: "'q ll_env \<Rightarrow> 'q ll \<Rightarrow> (bool \<times> 'q ll) option" where
  "schedule_ll_is_pending env S = do { (n, S1) \<leftarrow> pending_passes env 0 S; Some (n > 0, S1) }"

definition schedule_ll_task_update_start :: "addr \<Rightarrow> 'q ll \<Rightarrow> 'q ll" where
  "schedule_ll_task_update_start t S =
     (let next = u64 (ticks_per_ms (ll_domain S) * lp_period (ll_pdata S (tk_priv (ll_task S t)))) div 1000
      in upd_task t (\<lambda>k. k\<lparr>tk_start := u64 (tk_start k + next)\<rparr>) S)"

definition schedule_ll_task_done :: "'q ll_env \<Rightarrow> addr \<Rightarrow> 'q ll \<Rightarrow> 'q ll" where
  "schedule_ll_task_done env t S =
     (let S1 = S\<lparr>ll_links := list_item_del (ll_links S) t, num_tasks := s32 (num_tasks S - 1)\<rparr>
      in domain_unregister env t (u32 (num_tasks S - 1)) S1)"

partial_function (option) execute_from :: "'q ll_env \<Rightarrow> addr \<Rightarrow> 'q ll \<Rightarrow> 'q ll option" where
  "execute_from env w S =
     (if w = ll_head then Some S
      else if tk_state (ll_task S w) \<noteq> SOF_TASK_STATE_PENDING then execute_from env (nx (ll_links S w)) S
      else do {
        (st, S1) \<leftarrow> le_run env w (set_state w SOF_TASK_STATE_RUNNING S);
        let S2 = set_state w st S1;
        execute_from env (nx (ll_links S2 w))
          (if st = SOF_TASK_STATE_COMPLETED then schedule_ll_task_done env w S2 else schedule_ll_task_update_start w S2) })"

definition schedule_ll_tasks_execute :: "'q ll_env \<Rightarrow> 'q ll \<Rightarrow> 'q ll option" where
  "schedule_ll_tasks_execute env S = execute_from env (nx (ll_links S ll_head)) S"

definition schedule_ll_client_reschedule :: "'q ll \<Rightarrow> 'q ll option" where
  "schedule_ll_client_reschedule S =
     (if total_num_tasks (ll_domain S) \<noteq> 0 then do {
        xs \<leftarrow> ll_items S;
        let (tick, taken) = fold (\<lambda>t (tick, taken).
              if tk_state (ll_task S t) = SOF_TASK_STATE_RESCHEDULE \<and> tk_start (ll_task S t) < tick
              then (tk_start (ll_task S t), True) else (tick, taken)) xs (new_target_tick (ll_domain S), False);
        Some (if taken then upd_domain (\<lambda>d. d\<lparr>new_target_tick := tick\<rparr>) S else S) }
      else Some S)"

definition schedule_ll_tasks_run :: "'q ll_env \<Rightarrow> 'q ll \<Rightarrow> 'q ll option" where
  "schedule_ll_tasks_run env S =
     (let core = le_core env; S1 = domain_disable env core S;
          S2 = (if enabled_cores (ll_domain S1) = 0 then domain_clear env S1 else S1)
      in do {
           (pending, S3) \<leftarrow> schedule_ll_is_pending env S2;
           S4 \<leftarrow> (if pending then schedule_ll_tasks_execute env S3 else Some S3);
           let S5 = le_post_run env S4;
           let S6 = (if new_target_tick (ll_domain S5) < le_now env S5
                     then upd_domain (\<lambda>d. d\<lparr>new_target_tick := UINT64_MAX\<rparr>) S5 else S5);
           S7 \<leftarrow> schedule_ll_client_reschedule S6;
           let S8 = (if new_target_tick (ll_domain S7) < next_tick (ll_domain S7)
                     then domain_set env (new_target_tick (ll_domain S7)) S7 else S7);
           Some (if num_tasks S8 \<noteq> 0 then domain_enable env core S8 else S8) })"

section \<open>Clock changes and release\<close>

text \<open>A changed clock: the start times are converted; a zero clock divides by zero.\<close>

definition ll_scheduler_recalculate_tasks :: "'q ll_env \<Rightarrow> int \<Rightarrow> 'q ll \<Rightarrow> 'q ll option" where
  "ll_scheduler_recalculate_tasks env old_ticks_per_msec S =
     (let current = le_now env S; per_ms = ticks_per_ms (ll_domain S)
      in do {
        xs \<leftarrow> ll_items S;
        if xs \<noteq> [] \<and> old_ticks_per_msec = 0 then None
        else Some (fold (\<lambda>t. upd_task t (\<lambda>k.
               let delta_ms = u64 (tk_start k - current) div old_ticks_per_msec
               in k\<lparr>tk_start := u64 (current + (if delta_ms \<noteq> 0 then per_ms * delta_ms else per_ms div 8))\<rparr>)) xs S) })"

definition ll_scheduler_notify :: "'q ll_env \<Rightarrow> bool \<Rightarrow> int \<Rightarrow> 'q ll \<Rightarrow> 'q ll option" where
  "ll_scheduler_notify env post old_ticks_per_msec S =
     (if post then
        ll_scheduler_recalculate_tasks env old_ticks_per_msec
          (upd_domain (\<lambda>d. d\<lparr>ticks_per_ms := u32 (clock_ms_to_ticks env (d_clk d) 1)\<rparr>) S)
      else Some S)"

section \<open>The timer domain\<close>

text \<open>
  The state of the timer domain: the argument registered per core, the current time, and the state of
  the code the tasks run. The
  hardware is the return value of \<open>timer_register\<close> and the tick \<open>platform_timer_set\<close> really sets;
  enabling, disabling and clearing the timer leave no trace in the state.
\<close>

record 'r timer_domain =
  td_arg :: "int \<Rightarrow> addr"
  td_now :: int
  td_rest :: 'r

record timer_hw =
  timer_register :: int
  platform_timer_set :: "int \<Rightarrow> int"

definition LL_TIMER_SET_OVERHEAD_TICKS :: int where "LL_TIMER_SET_OVERHEAD_TICKS = 1000"

definition timer_domain_register :: "timer_hw \<Rightarrow> int \<Rightarrow> addr \<Rightarrow> 'r timer_domain ll \<Rightarrow> int \<times> 'r timer_domain ll" where
  "timer_domain_register hw core arg S =
     (if td_arg (ll_rest S) core \<noteq> 0 then (0, S)
      else (timer_register hw, S\<lparr>ll_rest := (ll_rest S)\<lparr>td_arg := (td_arg (ll_rest S))(core := arg)\<rparr>\<rparr>))"

definition timer_domain_unregister :: "int \<Rightarrow> addr \<Rightarrow> int \<Rightarrow> 'r timer_domain ll \<Rightarrow> int \<times> 'r timer_domain ll" where
  "timer_domain_unregister core t num S =
     (if t \<noteq> 0 then (0, S)
      else if td_arg (ll_rest S) core = 0 \<or> num \<noteq> 0 then (0, S)
      else (0, S\<lparr>ll_rest := (ll_rest S)\<lparr>td_arg := (td_arg (ll_rest S))(core := 0)\<rparr>\<rparr>))"

definition timer_domain_set :: "timer_hw \<Rightarrow> int \<Rightarrow> 'r timer_domain ll \<Rightarrow> 'r timer_domain ll" where
  "timer_domain_set hw start S =
     upd_domain (\<lambda>d. d\<lparr>next_tick :=
       platform_timer_set hw (max start (u64 (td_now (ll_rest S) + LL_TIMER_SET_OVERHEAD_TICKS)))\<rparr>) S"

definition timer_domain_is_pending :: "addr \<Rightarrow> addr \<Rightarrow> 'r timer_domain ll \<Rightarrow> bool \<times> addr \<times> 'r timer_domain ll" where
  "timer_domain_is_pending t c S = (tk_start (ll_task S t) \<le> td_now (ll_rest S), c, S)"

definition timer_domain_ops :: "timer_hw \<Rightarrow> int \<Rightarrow> addr \<Rightarrow> 'r timer_domain domain_ops" where
  "timer_domain_ops hw core arg =
     \<lparr>op_register = (\<lambda>t. timer_domain_register hw core arg), op_unregister = timer_domain_unregister core,
      op_enable = Some (\<lambda>core S. S), op_disable = Some (\<lambda>core S. S), op_set = Some (timer_domain_set hw),
      op_clear = Some (\<lambda>S. S), op_is_pending = timer_domain_is_pending\<rparr>"

end
