(* ===== verification/Sof_LL_Tasks.thy ===== *)
theory Sof_LL_Tasks
  imports Sof_LL
begin

text \<open>
  The task list of the low latency scheduler: the invariant of the scheduler for every domain that
  only touches its own state, the order of the tasks, and the run of the pending tasks.
\<close>

section \<open>Positions in a circular list\<close>

lemma rotate_list: "is_list s lst (xs @ y # ys) \<longleftrightarrow> is_list s y (ys @ lst # xs)"
  by (auto simp: is_list_def seg_append)

lemma insert_before_list:
  assumes "is_list s lst (xs @ y # ys)" "t \<notin> set (lst # xs @ y # ys)"
  shows "is_list (list_item_append s t y) lst (xs @ t # y # ys)"
proof -
  have "is_list (list_item_append s t y) y ((ys @ lst # xs) @ [t])"
    using assms by (intro append_list) (auto simp: rotate_list)
  then have "is_list (list_item_append s t y) y (ys @ lst # (xs @ [t]))" by simp
  then have "is_list (list_item_append s t y) lst ((xs @ [t]) @ y # ys)" by (simp only: rotate_list)
  then show ?thesis by simp
qed

lemma insert_after_list:
  assumes "is_list s lst (xs @ y # ys)" "t \<notin> set (lst # xs @ y # ys)"
  shows "is_list (list_item_prepend s t y) lst (xs @ y # t # ys)"
proof -
  have "is_list (list_item_prepend s t y) y (t # ys @ lst # xs)"
    using assms by (intro prepend_list) (auto simp: rotate_list)
  then have "is_list (list_item_prepend s t y) y ((t # ys) @ lst # xs)" by simp
  then show ?thesis by (simp only: rotate_list)
qed

section \<open>The interface of a domain\<close>

text \<open>
  A domain implementation leaves the task list, the tasks, their private data and the counter of
  the scheduler alone, and registering does not change the clock.
\<close>

definition same_tasks :: "'q ll \<Rightarrow> 'q ll \<Rightarrow> bool" where
  "same_tasks S T \<longleftrightarrow> ll_links T = ll_links S \<and> ll_task T = ll_task S \<and> ll_pdata T = ll_pdata S \<and> num_tasks T = num_tasks S \<and>
     ll_mm T = ll_mm S \<and> is_registrable T = is_registrable S"

lemma same_tasks_refl: "same_tasks S S"
  by (simp add: same_tasks_def)

lemma same_tasks_trans: "same_tasks S T \<Longrightarrow> same_tasks T U \<Longrightarrow> same_tasks S U"
  by (simp add: same_tasks_def)

lemma same_tasks_domain: "same_tasks S (upd_domain f S)"
  by (simp add: same_tasks_def upd_domain_def)

locale ll_domain_frame =
  fixes ops :: "'q domain_ops"
  assumes register_frame: "same_tasks S (snd (op_register ops t S))"
    and register_ticks: "ticks_per_ms (ll_domain (snd (op_register ops t S))) = ticks_per_ms (ll_domain S)"
    and unregister_frame: "same_tasks S (snd (op_unregister ops t n S))"
    and enable_frame: "op_enable ops = Some f \<Longrightarrow> same_tasks S (f c S)"
    and disable_frame: "op_disable ops = Some f \<Longrightarrow> same_tasks S (f c S)"
    and set_frame: "op_set ops = Some f \<Longrightarrow> same_tasks S (f c S)"
    and clear_frame: "op_clear ops = Some g \<Longrightarrow> same_tasks S (g S)"
    and pending_frame: "same_tasks S (snd (snd (op_is_pending ops t a S)))"
begin

lemma wrappers_frame:
  assumes "le_domain env = ops"
  shows "same_tasks S (domain_set env start S)" "same_tasks S (domain_clear env S)"
    "same_tasks S (snd (domain_register env t S))" "same_tasks S (domain_unregister env t n S)"
    "same_tasks S (domain_enable env core S)" "same_tasks S (domain_disable env core S)"
proof -
  note d = same_tasks_domain same_tasks_trans [OF _ same_tasks_domain]
  show "same_tasks S (domain_set env start S)"
    using assms set_frame by (auto simp: domain_set_def d split: option.split)
  show "same_tasks S (domain_clear env S)"
    using assms clear_frame by (auto simp: domain_clear_def d split: option.split)
  show "same_tasks S (snd (domain_register env t S))"
    using assms register_frame [of S t] by (auto simp: domain_register_def Let_def d split: prod.split)
  show "same_tasks S (domain_enable env core S)"
    using assms enable_frame by (auto simp: domain_enable_def d same_tasks_refl split: option.split)
  show "same_tasks S (domain_disable env core S)"
    using assms disable_frame by (auto simp: domain_disable_def d same_tasks_refl split: option.split)
  have u: "same_tasks S T \<Longrightarrow> same_tasks S (snd (op_unregister ops t n T))" for T
    using unregister_frame same_tasks_trans by blast
  show "same_tasks S (domain_unregister env t n S)"
  proof -
    have x: "same_tasks S (snd (op_unregister ops t n (if t \<noteq> 0 then upd_domain g S else S)))" for g
      by (rule u) (simp add: same_tasks_refl same_tasks_domain)
    show ?thesis unfolding domain_unregister_def Let_def split_beta assms
      by (rule if_split [THEN iffD2], intro conjI impI; rule same_tasks_trans [OF x same_tasks_domain] x)
  qed
qed

end

interpretation timer: ll_domain_frame "timer_domain_ops hw core arg" for hw core arg
  by unfold_locales
    (auto simp: timer_domain_ops_def timer_domain_register_def timer_domain_unregister_def timer_domain_set_def
      timer_domain_is_pending_def same_tasks_def upd_domain_def)

section \<open>The invariant\<close>

definition ll_inv :: "'q ll \<Rightarrow> addr list \<Rightarrow> bool" where
  "ll_inv S xs \<longleftrightarrow> is_list (ll_links S) ll_head xs \<and> 0 \<notin> set xs \<and> num_tasks S = int (length xs) \<and> length xs < 2147483647"

lemma ll_inv_same: "same_tasks S T \<Longrightarrow> ll_inv T xs \<longleftrightarrow> ll_inv S xs"
  by (simp add: same_tasks_def ll_inv_def)

lemma ll_inv_items: "ll_inv S xs \<Longrightarrow> ll_items S = Some xs"
  unfolding ll_inv_def ll_items_def using for_item_list by blast

lemma ll_inv_distinct: "ll_inv S xs \<Longrightarrow> distinct xs \<and> ll_head \<notin> set xs"
  by (auto simp: ll_inv_def is_list_def)

text \<open>The position of a new task: behind all tasks of its priority or a higher one.\<close>

definition place :: "('a \<Rightarrow> int) \<Rightarrow> 'a \<Rightarrow> 'a list \<Rightarrow> 'a list" where
  "place prio t xs = takeWhile (\<lambda>c. prio c \<le> prio t) xs @ t # dropWhile (\<lambda>c. prio c \<le> prio t) xs"

lemma find_first: "(\<And>a. a \<in> set as \<Longrightarrow> \<not> P a) \<Longrightarrow> P c \<Longrightarrow> find P (as @ c # cs) = Some c"
  by (induction as) auto

lemma insert_place:
  assumes "is_list (ll_links S) ll_head xs" "t \<notin> set (ll_head # xs)"
  shows "\<exists>T. schedule_ll_task_insert t S = Some T \<and>
    T = S\<lparr>ll_links := ll_links T\<rparr> \<and> is_list (ll_links T) ll_head (place (\<lambda>c. tk_priority (ll_task S c)) t xs)"
proof -
  let ?p = "\<lambda>c. tk_priority (ll_task S c)"
  let ?P = "\<lambda>c. ?p c \<le> ?p t"
  have it: "ll_items S = Some xs" using for_item_list [OF assms(1)] by (simp add: ll_items_def)
  have split: "takeWhile ?P xs @ dropWhile ?P xs = xs" by simp
  show ?thesis
  proof (cases "dropWhile ?P xs")
    case Nil
    then have "\<forall>c\<in>set xs. ?P c" by (simp add: dropWhile_eq_Nil_conv)
    then have "find (\<lambda>c. ?p t < ?p c) xs = None" by (auto simp: find_None_iff not_less)
    moreover have "place ?p t xs = xs @ [t]" using split Nil unfolding place_def by (metis append_Nil2)
    ultimately show ?thesis using it append_list [OF assms] by (simp add: schedule_ll_task_insert_def)
  next
    case (Cons c cs)
    have x: "xs = takeWhile ?P xs @ c # cs" using split Cons by simp
    have c: "\<not> ?P c" using Cons by (metis dropWhile_eq_Cons_conv)
    have "find (\<lambda>c. ?p t < ?p c) xs = Some c"
      by (subst x, rule find_first) (use c in \<open>auto simp: not_less dest: set_takeWhileD\<close>)
    moreover have "is_list (list_item_append (ll_links S) t c) ll_head (takeWhile ?P xs @ t # c # cs)"
      by (rule insert_before_list) (use assms x in auto)
    ultimately show ?thesis using it Cons by (simp add: schedule_ll_task_insert_def place_def)
  qed
qed

lemma place_sorted:
  assumes "sorted (map prio xs)"
  shows "sorted (map prio (place prio t xs))" "filter (\<lambda>c. prio c = p) (place prio t xs) =
    (if p = prio t then filter (\<lambda>c. prio c = p) xs @ [t] else filter (\<lambda>c. prio c = p) xs)"
proof -
  let ?P = "\<lambda>c. prio c \<le> prio t"
  define as where "as = takeWhile ?P xs"
  define bs where "bs = dropWhile ?P xs"
  have xs: "xs = as @ bs" by (simp add: as_def bs_def)
  have a: "c \<in> set as \<Longrightarrow> prio c \<le> prio t" for c unfolding as_def by (drule set_takeWhileD) simp
  have b: "prio t < prio c" if "c \<in> set bs" for c
  proof (cases bs)
    case (Cons d ds)
    then have "\<not> ?P d" unfolding bs_def by (metis dropWhile_eq_Cons_conv)
    moreover have "prio d \<le> prio c" using assms that Cons by (auto simp: xs sorted_append)
    ultimately show ?thesis by simp
  qed (use that in simp)
  have pl: "place prio t xs = as @ t # bs" by (simp add: place_def as_def bs_def)
  show "sorted (map prio (place prio t xs))"
    using assms a less_imp_le [OF b] unfolding pl by (simp add: xs sorted_append)
  have "filter (\<lambda>c. prio c = prio t) bs = []" unfolding filter_empty_conv using b by (metis less_irrefl)
  then show "filter (\<lambda>c. prio c = p) (place prio t xs) =
    (if p = prio t then filter (\<lambda>c. prio c = p) xs @ [t] else filter (\<lambda>c. prio c = p) xs)"
    unfolding pl by (auto simp: xs)
qed

section \<open>Scheduling and cancelling\<close>

text \<open>Up to a new start time of one task.\<close>

definition restarted :: "addr \<Rightarrow> 'q ll \<Rightarrow> 'q ll \<Rightarrow> bool" where
  "restarted t S T \<longleftrightarrow> (\<exists>v. same_tasks (upd_task t (\<lambda>k. k\<lparr>tk_start := v\<rparr>) S) T)"

lemma restarted_upd: "same_tasks S T \<Longrightarrow> restarted t S (upd_task t (\<lambda>k. k\<lparr>tk_start := v\<rparr>) T)"
  by (auto simp: restarted_def same_tasks_def upd_task_def)

lemma restarted_same: "restarted t S T \<Longrightarrow> same_tasks T U \<Longrightarrow> restarted t S U"
  unfolding restarted_def using same_tasks_trans by blast

lemma same_restarted: "same_tasks S T \<Longrightarrow> restarted t T U \<Longrightarrow> restarted t S U"
  by (auto simp: restarted_def same_tasks_def upd_task_def)

lemma restartedD:
  assumes "restarted t S T"
  shows "ll_links T = ll_links S" "num_tasks T = num_tasks S" "tk_state (ll_task T u) = tk_state (ll_task S u)"
    "tk_priority (ll_task T u) = tk_priority (ll_task S u)" "u \<noteq> t \<Longrightarrow> ll_task T u = ll_task S u"
    "tk_priv (ll_task T u) = tk_priv (ll_task S u)" "ll_pdata T = ll_pdata S"
  using assms by (auto simp: restarted_def same_tasks_def upd_task_def)

text \<open>The period is at least one tick, so that the time arithmetic divides by no zero.\<close>

definition period_ok :: "int \<Rightarrow> 'q ll \<Rightarrow> bool" where
  "period_ok period S \<longleftrightarrow> 1000 \<le> u64 (ticks_per_ms (ll_domain S) * period)"

context ll_domain_frame
begin

lemma set_start_restarts:
  assumes e: "le_domain env = ops" and "period = 0 \<or> period_ok period S"
  shows "\<exists>T. domain_set_start env t start period reference S = Some T \<and> restarted t S T"
proof -
  note r = restarted_upd [OF same_tasks_refl] restarted_upd [OF wrappers_frame(1) [OF e]]
    restarted_same [OF restarted_upd [OF same_tasks_refl] wrappers_frame(1) [OF e]]
  have "u64 (ticks_per_ms (ll_domain S) * period) div 1000 \<noteq> 0" if "period \<noteq> 0"
    using assms(2) that by (auto simp: period_ok_def zdiv_eq_0_iff)
  then show ?thesis unfolding domain_set_start_def Let_def using r by auto
qed

lemma domain_set_counts:
  assumes e: "le_domain env = ops" and "period = 0 \<or> period_ok period S"
  shows "\<exists>ret T. schedule_ll_domain_set env t start period reference S = Some (ret, T) \<and>
    (if ret < 0 then same_tasks S T else restarted t (S\<lparr>num_tasks := s32 (num_tasks S + 1)\<rparr>) T)"
proof -
  obtain ret S1 where 1: "domain_register env t S = (ret, S1)" by (cases "domain_register env t S")
  then have s: "same_tasks S S1" using wrappers_frame(3) [OF e, of S t] by simp
  have "ticks_per_ms (ll_domain S1) = ticks_per_ms (ll_domain S)"
    using 1 register_ticks [of t S] e by (auto simp: domain_register_def Let_def upd_domain_def split: prod.splits if_splits)
  then obtain S2 where 2: "domain_set_start env t start period reference S1 = Some S2" "restarted t S1 S2"
    using set_start_restarts [OF e, of period S1 t start reference] assms(2) by (auto simp: period_ok_def)
  let ?S3 = "S2\<lparr>num_tasks := s32 (num_tasks S2 + 1)\<rparr>"
  have "restarted t (S\<lparr>num_tasks := s32 (num_tasks S + 1)\<rparr>) ?S3"
    using s 2(2) by (auto simp: restarted_def same_tasks_def upd_task_def)
  then have "restarted t (S\<lparr>num_tasks := s32 (num_tasks S + 1)\<rparr>) (domain_enable env (le_core env) ?S3)"
    using restarted_same wrappers_frame(5) [OF e] by blast
  then show ?thesis using 1 2 s by (simp add: schedule_ll_domain_set_def)
qed

text \<open>Whatever the way of insertion, either the task is in the list and counted, or nothing is left of it.\<close>

lemma common_schedules:
  assumes e: "le_domain env = ops" and inv: "ll_inv S (as @ bs)" "length (as @ bs) < 2147483646" "t \<notin> set (as @ bs)" "t \<noteq> 0"
    and sync: "\<not> full_sync (ll_domain S)" and period: "period = 0 \<or> period_ok period S"
    and ins: "\<And>S' :: 'q ll. ll_links S' = ll_links S \<Longrightarrow> ll_task S' = ll_task S \<Longrightarrow>
       \<exists>T. (if reference = 0 then schedule_ll_task_insert t S'
           else if before then Some (schedule_ll_task_insert_before t reference S')
           else Some (schedule_ll_task_insert_after t reference S')) = Some T \<and>
         T = S'\<lparr>ll_links := ll_links T\<rparr> \<and> is_list (ll_links T) ll_head (as @ t # bs)"
  shows "\<exists>ret T. schedule_ll_task_common env t start period reference before S = Some (ret, T) \<and>
    (\<forall>u. u \<noteq> t \<longrightarrow> ll_task T u = ll_task S u) \<and> tk_priority (ll_task T t) = tk_priority (ll_task S t) \<and>
    (if ret < 0 then ll_inv T (as @ bs) else ll_inv T (as @ t # bs) \<and> tk_state (ll_task T t) = SOF_TASK_STATE_QUEUED)"
proof -
  let ?pd = "tk_priv (ll_task S t)"
  let ?S1 = "S\<lparr>ll_pdata := (ll_pdata S)(?pd := (ll_pdata S ?pd)\<lparr>lp_period := period\<rparr>)\<rparr>"
  obtain S3 where 3: "(if reference = 0 then schedule_ll_task_insert t ?S1
           else if before then Some (schedule_ll_task_insert_before t reference ?S1)
           else Some (schedule_ll_task_insert_after t reference ?S1)) = Some S3"
      "S3 = ?S1\<lparr>ll_links := ll_links S3\<rparr>" "is_list (ll_links S3) ll_head (as @ t # bs)"
    using ins [of ?S1] by auto
  have s3: "num_tasks S3 = num_tasks S" "ll_task S3 = ll_task S" "ll_domain S3 = ll_domain S"
    by (subst 3(2), simp)+
  let ?S4 = "set_state t SOF_TASK_STATE_QUEUED S3"
  have "period = 0 \<or> period_ok period ?S4" using period s3(3) by (simp add: period_ok_def set_state_def upd_task_def)
  then obtain ret T where T: "schedule_ll_domain_set env t start period reference ?S4 = Some (ret, T)"
      "if ret < 0 then same_tasks ?S4 T else restarted t (?S4\<lparr>num_tasks := s32 (num_tasks ?S4 + 1)\<rparr>) T"
    using domain_set_counts [OF e] by blast
  let ?T = "if ret < 0 then T\<lparr>ll_links := list_item_del (ll_links T) t\<rparr> else T"
  have "schedule_ll_task_common env t start period reference before S = Some (ret, ?T)"
    using ll_inv_items [OF inv(1)] inv(3) sync 3(1) T(1) by (simp add: schedule_ll_task_common_def Let_def)
  moreover have "u \<noteq> t \<Longrightarrow> ll_task ?T u = ll_task S u" for u
    using T(2) s3 by (auto simp: same_tasks_def set_state_def upd_task_def split: if_splits dest: restartedD(5))
  moreover have "tk_priority (ll_task ?T t) = tk_priority (ll_task S t)"
    using T(2) s3 by (auto simp: same_tasks_def set_state_def upd_task_def restartedD(4) split: if_splits)
  moreover have "if ret < 0 then ll_inv ?T (as @ bs) else ll_inv ?T (as @ t # bs) \<and> tk_state (ll_task ?T t) = SOF_TASK_STATE_QUEUED"
  proof (cases "ret < 0")
    case True
    then have "ll_links T = ll_links S3" "num_tasks T = num_tasks S" using T(2) s3 by (auto simp: same_tasks_def set_state_def upd_task_def)
    then show ?thesis using True del_list(1) [OF 3(3)] inv(1) by (simp add: ll_inv_def)
  next
    case False
    then have r: "restarted t (?S4\<lparr>num_tasks := s32 (num_tasks ?S4 + 1)\<rparr>) T" using T(2) by simp
    have "s32 (int (length (as @ bs)) + 1) = int (length (as @ bs)) + 1" using inv(2) by (intro s32_id) auto
    then have "num_tasks T = int (length (as @ t # bs))"
      using restartedD(2) [OF r] inv(1) s3 by (simp add: ll_inv_def set_state_def upd_task_def)
    moreover have "ll_links T = ll_links S3" "tk_state (ll_task T t) = SOF_TASK_STATE_QUEUED"
      using restartedD(1,3) [OF r] by (auto simp: set_state_def upd_task_def)
    ultimately show ?thesis using False 3(3) inv by (simp add: ll_inv_def)
  qed
  ultimately show ?thesis by blast
qed

lemma task_schedules:
  assumes e: "le_domain env = ops" and inv: "ll_inv S xs" "length xs < 2147483646" "t \<notin> set xs" "t \<noteq> 0" "t \<noteq> ll_head"
    and "\<not> full_sync (ll_domain S)" "period = 0 \<or> period_ok period S"
  shows "\<exists>ret T. schedule_ll_task env t start period S = Some (ret, T) \<and>
    (\<forall>u. tk_priority (ll_task T u) = tk_priority (ll_task S u)) \<and>
    (if ret < 0 then ll_inv T xs
     else ll_inv T (place (\<lambda>c. tk_priority (ll_task S c)) t xs) \<and> tk_state (ll_task T t) = SOF_TASK_STATE_QUEUED)"
proof -
  let ?P = "\<lambda>c. tk_priority (ll_task S c) \<le> tk_priority (ll_task S t)"
  have x: "takeWhile ?P xs @ dropWhile ?P xs = xs" by simp
  have "\<exists>T. schedule_ll_task_insert t S' = Some T \<and> T = S'\<lparr>ll_links := ll_links T\<rparr> \<and>
      is_list (ll_links T) ll_head (takeWhile ?P xs @ t # dropWhile ?P xs)"
    if "ll_links S' = ll_links S" "ll_task S' = ll_task S" for S' :: "'q ll"
    using insert_place [of S' xs t] inv that by (auto simp: ll_inv_def place_def)
  then obtain ret T where "schedule_ll_task_common env t start period 0 False S = Some (ret, T)"
    "\<forall>u. u \<noteq> t \<longrightarrow> ll_task T u = ll_task S u" "tk_priority (ll_task T t) = tk_priority (ll_task S t)"
    "if ret < 0 then ll_inv T xs
     else ll_inv T (takeWhile ?P xs @ t # dropWhile ?P xs) \<and> tk_state (ll_task T t) = SOF_TASK_STATE_QUEUED"
    using common_schedules [OF e, of S "takeWhile ?P xs" "dropWhile ?P xs" t period 0 False start] assms unfolding x by auto
  then show ?thesis unfolding schedule_ll_task_def place_def by metis
qed

lemma task_schedules_near:
  assumes e: "le_domain env = ops" and inv: "ll_inv S (as @ r # bs)" "length (as @ r # bs) < 2147483646"
      "t \<notin> set (as @ r # bs)" "t \<noteq> 0" "t \<noteq> ll_head"
    and "\<not> full_sync (ll_domain S)" "period = 0 \<or> period_ok period S"
  shows "\<exists>ret T. schedule_ll_task_before env t start period r S = Some (ret, T) \<and>
      (if ret < 0 then ll_inv T (as @ r # bs) else ll_inv T (as @ t # r # bs))"
    "\<exists>ret T. schedule_ll_task_after env t start period r S = Some (ret, T) \<and>
      (if ret < 0 then ll_inv T (as @ r # bs) else ll_inv T (as @ r # t # bs))"
proof -
  have r: "r \<noteq> 0" and l: "is_list (ll_links S) ll_head (as @ r # bs)" "t \<notin> set (ll_head # as @ r # bs)"
    using inv by (auto simp: ll_inv_def)
  show "\<exists>ret T. schedule_ll_task_before env t start period r S = Some (ret, T) \<and>
      (if ret < 0 then ll_inv T (as @ r # bs) else ll_inv T (as @ t # r # bs))"
    using common_schedules [OF e inv(1-4) assms(7,8), of r True start] insert_before_list [OF l] r
    unfolding schedule_ll_task_before_def by (fastforce simp: schedule_ll_task_insert_before_def split: if_splits)
  have "ll_inv S ((as @ [r]) @ bs)" "length ((as @ [r]) @ bs) < 2147483646" "t \<notin> set ((as @ [r]) @ bs)" using inv by auto
  from common_schedules [OF e this inv(4) assms(7,8), of r False start] insert_after_list [OF l] r
  show "\<exists>ret T. schedule_ll_task_after env t start period r S = Some (ret, T) \<and>
      (if ret < 0 then ll_inv T (as @ r # bs) else ll_inv T (as @ r # t # bs))"
    unfolding schedule_ll_task_after_def by (fastforce simp: schedule_ll_task_insert_after_def split: if_splits)
qed

lemma task_cancels:
  assumes e: "le_domain env = ops" and inv: "ll_inv S (as @ t # bs)"
  shows "\<exists>T. schedule_ll_task_cancel env t S = Some (0, T) \<and> ll_inv T (as @ bs) \<and> tk_state (ll_task T t) = SOF_TASK_STATE_CANCEL"
proof -
  let ?S1 = "S\<lparr>num_tasks := s32 (num_tasks S - 1)\<rparr>"
  have c: "same_tasks ?S1 (schedule_ll_domain_clear env t S)"
    unfolding schedule_ll_domain_clear_def Let_def
    using wrappers_frame(4) [OF e] same_tasks_trans [OF wrappers_frame(6) [OF e] wrappers_frame(4) [OF e]] by auto
  have n: "s32 (num_tasks S - 1) = int (length (as @ bs))" using inv by (simp add: ll_inv_def s32_id)
  have "is_list (list_item_del (ll_links S) t) ll_head (as @ bs)" using inv by (auto simp: ll_inv_def intro: del_list)
  then show ?thesis using ll_inv_items [OF inv] c n inv
    by (auto simp: schedule_ll_task_cancel_def Let_def ll_inv_def same_tasks_def set_state_def upd_task_def)
qed

end

section \<open>The run of the pending tasks\<close>

definition task_after :: "'q ll_env \<Rightarrow> addr \<Rightarrow> task_state \<Rightarrow> 'q ll \<Rightarrow> 'q ll" where
  "task_after env t st S =
     (if st = SOF_TASK_STATE_COMPLETED then schedule_ll_task_done env t S else schedule_ll_task_update_start t S)"

text \<open>The run over the sequence of the tasks.\<close>

fun run_list :: "'q ll_env \<Rightarrow> addr list \<Rightarrow> 'q ll \<Rightarrow> 'q ll option" where
  "run_list env [] S = Some S"
| "run_list env (t # ts) S =
     (if tk_state (ll_task S t) \<noteq> SOF_TASK_STATE_PENDING then run_list env ts S
      else do {
        (st, S1) \<leftarrow> le_run env t (set_state t SOF_TASK_STATE_RUNNING S);
        run_list env ts (task_after env t st (set_state t st S1)) })"

context ll_domain_frame
begin

lemma done_frame:
  assumes "le_domain env = ops"
  shows "same_tasks (S\<lparr>ll_links := list_item_del (ll_links S) t, num_tasks := s32 (num_tasks S - 1)\<rparr>) (schedule_ll_task_done env t S)"
  unfolding schedule_ll_task_done_def Let_def by (rule wrappers_frame(4) [OF assms])

lemma execute_run_list:
  assumes e: "le_domain env = ops" and run: "\<And>t S st T. le_run env t S = Some (st, T) \<Longrightarrow> ll_links T = ll_links S"
    and "is_list (ll_links S) ll_head (as @ ts)"
  shows "execute_from env (hd (ts @ [ll_head])) S = run_list env ts S"
  using assms(3)
proof (induction ts arbitrary: as S)
  case Nil
  then show ?case by (subst execute_from.simps) simp
next
  case (Cons t ts)
  have h: "t \<noteq> ll_head" using Cons.prems by (auto simp: is_list_def)
  have nxt: "nx (ll_links S t) = hd (ts @ [ll_head])"
    using Cons.prems seg_first [of "ll_links S" t ts ll_head] by (auto simp: is_list_def seg_append)
  have l1: "is_list (ll_links S) ll_head ((as @ [t]) @ ts)" using Cons.prems by simp
  show ?case
  proof (cases "tk_state (ll_task S t) = SOF_TASK_STATE_PENDING")
    case False
    then show ?thesis using h nxt Cons.IH [OF l1] by (subst execute_from.simps) simp
  next
    case True
    show ?thesis
    proof (cases "le_run env t (set_state t SOF_TASK_STATE_RUNNING S)")
      case None
      then show ?thesis using h True by (subst execute_from.simps) simp
    next
      case (Some r)
      obtain st S1 where r: "r = (st, S1)" by (cases r)
      let ?S2 = "set_state t st S1"
      have k: "ll_links ?S2 = ll_links S" using run Some r by (simp add: set_state_def upd_task_def)
      have "\<exists>bs. is_list (ll_links (task_after env t st ?S2)) ll_head (bs @ ts)"
      proof (cases "st = SOF_TASK_STATE_COMPLETED")
        case True
        then have "ll_links (task_after env t st ?S2) = list_item_del (ll_links S) t"
          using k done_frame [OF e, of ?S2 t] by (simp add: task_after_def same_tasks_def)
        then show ?thesis using del_list(1) [OF Cons.prems] by auto
      next
        case False
        then have "ll_links (task_after env t st ?S2) = ll_links S"
          using k by (simp add: task_after_def schedule_ll_task_update_start_def Let_def upd_task_def)
        then show ?thesis using l1 by metis
      qed
      then have "execute_from env (hd (ts @ [ll_head])) (task_after env t st ?S2) = run_list env ts (task_after env t st ?S2)"
        using Cons.IH by blast
      then show ?thesis using h True Some r k nxt
        by (subst execute_from.simps) (simp add: task_after_def [symmetric])
    qed
  qed
qed

end

section \<open>A tick of the timer domain\<close>

text \<open>The tasks of a timer domain work on their own state only.\<close>

definition timer_env :: "'r timer_domain ll_env \<Rightarrow> (addr \<Rightarrow> 'r \<Rightarrow> task_state \<times> 'r) \<Rightarrow> bool" where
  "timer_env env code \<longleftrightarrow>
     (\<exists>hw core arg. le_domain env = timer_domain_ops hw core arg) \<and> (\<forall>S. le_now env S = td_now (ll_rest S)) \<and>
     (\<forall>S. le_post_run env S = S) \<and>
     (\<forall>t S. le_run env t S = (let (st, q) = code t (td_rest (ll_rest S)) in Some (st, S\<lparr>ll_rest := (ll_rest S)\<lparr>td_rest := q\<rparr>\<rparr>)))"

fun run_codes :: "(addr \<Rightarrow> 'r \<Rightarrow> task_state \<times> 'r) \<Rightarrow> addr list \<Rightarrow> 'r \<Rightarrow> task_state list \<times> 'r" where
  "run_codes code [] q = ([], q)"
| "run_codes code (t # ts) q = (let (st, q1) = code t q; (sts, q2) = run_codes code ts q1 in (st # sts, q2))"

lemma run_codes_length: "length (fst (run_codes code ts q)) = length ts"
  by (induction ts arbitrary: q) (auto simp: Let_def split_beta)

text \<open>The same tasks, clock and task state.\<close>

definition same_all :: "'r timer_domain ll \<Rightarrow> 'r timer_domain ll \<Rightarrow> bool" where
  "same_all S T \<longleftrightarrow> same_tasks S T \<and> ll_rest T = ll_rest S \<and> ticks_per_ms (ll_domain T) = ticks_per_ms (ll_domain S)"

lemma same_all_refl: "same_all S S"
  by (simp add: same_all_def same_tasks_refl)

lemma same_all_trans: "same_all S T \<Longrightarrow> same_all T U \<Longrightarrow> same_all S U"
  by (auto simp: same_all_def intro: same_tasks_trans)

lemma timer_same_all:
  assumes "timer_env env code"
  shows "same_all S (domain_set env start S)" "same_all S (domain_clear env S)" "same_all S (domain_enable env c S)"
    "same_all S (domain_disable env c S)" "t \<noteq> 0 \<Longrightarrow> same_all S (domain_unregister env t n S)"
  using assms
  by (auto simp: timer_env_def timer_domain_ops_def domain_set_def domain_clear_def domain_enable_def domain_disable_def
      domain_unregister_def timer_domain_set_def timer_domain_unregister_def same_all_def same_tasks_def upd_domain_def Let_def)

definition mark_due :: "addr list \<Rightarrow> 'q ll \<Rightarrow> 'q ll" where
  "mark_due ds S = S\<lparr>ll_task := \<lambda>t. if t \<in> set ds then (ll_task S t)\<lparr>tk_state := SOF_TASK_STATE_PENDING\<rparr> else ll_task S t\<rparr>"

definition due :: "'r timer_domain ll \<Rightarrow> addr \<Rightarrow> bool" where
  "due S t \<longleftrightarrow> tk_start (ll_task S t) \<le> td_now (ll_rest S)"

lemma mark_fold:
  assumes env: "timer_env env code"
  shows "\<lbrakk>distinct xs; \<forall>t\<in>set xs. tk_state (ll_task S t) \<in> {SOF_TASK_STATE_QUEUED, SOF_TASK_STATE_RESCHEDULE};
      0 \<le> n; n + int (length xs) < 4294967296\<rbrakk> \<Longrightarrow>
    fold (mark_pending env) xs (0, n, S) = (0, n + int (length (filter (due S) xs)), mark_due (filter (due S) xs) S)"
proof (induction xs arbitrary: n S)
  case Nil
  then show ?case by (simp add: mark_due_def)
next
  case (Cons t ts)
  obtain hw core arg where ops: "le_domain env = timer_domain_ops hw core arg" using env by (auto simp: timer_env_def)
  let ?S = "if due S t then set_state t SOF_TASK_STATE_PENDING S else S" and ?n = "if due S t then n + 1 else n"
  have u: "u32 (n + 1) = n + 1" using Cons.prems by (intro u32_id) auto
  have "mark_pending env t (0, n, S) = (0, ?n, ?S)"
    using Cons.prems u by (auto simp: mark_pending_def ops timer_domain_ops_def timer_domain_is_pending_def due_def)
  moreover have "fold (mark_pending env) ts (0, ?n, ?S) = (0, ?n + int (length (filter (due ?S) ts)), mark_due (filter (due ?S) ts) ?S)"
    using Cons.prems by (intro Cons.IH) (auto simp: set_state_def upd_task_def)
  moreover have f: "filter (due ?S) ts = filter (due S) ts"
    using Cons.prems by (intro filter_cong) (auto simp: due_def set_state_def upd_task_def)
  ultimately show ?case by (auto simp: mark_due_def set_state_def upd_task_def fun_eq_iff)
qed

text \<open>What a run does to the tasks, given the states their code returned.\<close>

definition outcome :: "(addr \<Rightarrow> task_state option) \<Rightarrow> 'q ll \<Rightarrow> 'q ll \<Rightarrow> bool" where
  "outcome verdict S T \<longleftrightarrow> ll_pdata T = ll_pdata S \<and> ticks_per_ms (ll_domain T) = ticks_per_ms (ll_domain S) \<and>
     (\<forall>t. case verdict t of
        None \<Rightarrow> ll_task T t = ll_task S t
      | Some st \<Rightarrow> tk_state (ll_task T t) = st \<and> (st \<noteq> SOF_TASK_STATE_COMPLETED \<longrightarrow>
          tk_start (ll_task T t) = u64 (tk_start (ll_task S t) +
            u64 (ticks_per_ms (ll_domain S) * lp_period (ll_pdata S (tk_priv (ll_task S t)))) div 1000)))"

abbreviation is_pending :: "'q ll \<Rightarrow> addr \<Rightarrow> bool" where
  "is_pending S t \<equiv> tk_state (ll_task S t) = SOF_TASK_STATE_PENDING"

lemma outcome_comp:
  assumes a: "outcome [t \<mapsto> st] S U" and b: "outcome v U T" and n: "v t = None"
  shows "outcome (v(t \<mapsto> st)) S T"
proof -
  have d: "ll_pdata U = ll_pdata S" "ticks_per_ms (ll_domain U) = ticks_per_ms (ll_domain S)" "u \<noteq> t \<Longrightarrow> ll_task U u = ll_task S u" for u
    using a by (auto simp: outcome_def dest!: spec [of _ u])
  have "ll_task T t = ll_task U t" using b n by (auto simp: outcome_def dest!: spec [of _ t])
  then have t: "tk_state (ll_task T t) = st" "st \<noteq> SOF_TASK_STATE_COMPLETED \<Longrightarrow> tk_start (ll_task T t) = u64 (tk_start (ll_task S t) +
            u64 (ticks_per_ms (ll_domain S) * lp_period (ll_pdata S (tk_priv (ll_task S t)))) div 1000)"
    using a by (auto simp: outcome_def dest!: spec [of _ t])
  have "case (v(t \<mapsto> st)) u of
        None \<Rightarrow> ll_task T u = ll_task S u
      | Some st \<Rightarrow> tk_state (ll_task T u) = st \<and> (st \<noteq> SOF_TASK_STATE_COMPLETED \<longrightarrow>
          tk_start (ll_task T u) = u64 (tk_start (ll_task S u) +
            u64 (ticks_per_ms (ll_domain S) * lp_period (ll_pdata S (tk_priv (ll_task S u)))) div 1000))" for u
  proof (cases "u = t")
    case False
    have "case v u of
        None \<Rightarrow> ll_task T u = ll_task U u
      | Some st \<Rightarrow> tk_state (ll_task T u) = st \<and> (st \<noteq> SOF_TASK_STATE_COMPLETED \<longrightarrow>
          tk_start (ll_task T u) = u64 (tk_start (ll_task U u) +
            u64 (ticks_per_ms (ll_domain U) * lp_period (ll_pdata U (tk_priv (ll_task U u)))) div 1000))"
      using b unfolding outcome_def by blast
    then show ?thesis using False unfolding d(3) [OF False] d(1,2) by simp
  qed (use t in simp)
  then show ?thesis using b d unfolding outcome_def by simp
qed

lemma timer_task_after:
  assumes env: "timer_env env code" and inv: "ll_inv S (as @ t # ts)" and q: "code t (td_rest (ll_rest S)) = (st, q)"
  defines "S2 \<equiv> set_state t st ((set_state t SOF_TASK_STATE_RUNNING S)\<lparr>ll_rest := (ll_rest S)\<lparr>td_rest := q\<rparr>\<rparr>)"
  shows "td_rest (ll_rest (task_after env t st S2)) = q"
    "ll_inv (task_after env t st S2) (if st = SOF_TASK_STATE_COMPLETED then as @ ts else (as @ [t]) @ ts)"
    "outcome [t \<mapsto> st] S (task_after env t st S2)"
proof -
  have t: "t \<noteq> 0" using inv by (auto simp: ll_inv_def)
  let ?S3 = "S2\<lparr>ll_links := list_item_del (ll_links S2) t, num_tasks := s32 (num_tasks S2 - 1)\<rparr>"
  have d: "same_all ?S3 (schedule_ll_task_done env t S2)"
    unfolding schedule_ll_task_done_def Let_def using timer_same_all(5) [OF env t] by blast
  have l: "is_list (list_item_del (ll_links S) t) ll_head (as @ ts)" "s32 (num_tasks S - 1) = int (length (as @ ts))"
    using inv by (auto simp: ll_inv_def s32_id intro: del_list)
  have s2: "ll_links S2 = ll_links S" "num_tasks S2 = num_tasks S" "ll_pdata S2 = ll_pdata S" "ll_domain S2 = ll_domain S"
    "ll_rest S2 = (ll_rest S)\<lparr>td_rest := q\<rparr>" "ll_task S2 = (ll_task S)(t := (ll_task S t)\<lparr>tk_state := st\<rparr>)"
    by (simp_all add: S2_def set_state_def upd_task_def)
  show "td_rest (ll_rest (task_after env t st S2)) = q"
    using d by (auto simp: task_after_def same_all_def s2 schedule_ll_task_update_start_def Let_def upd_task_def)
  show "ll_inv (task_after env t st S2) (if st = SOF_TASK_STATE_COMPLETED then as @ ts else (as @ [t]) @ ts)"
    using d l inv by (auto simp: task_after_def same_all_def same_tasks_def s2 schedule_ll_task_update_start_def Let_def upd_task_def ll_inv_def)
  show "outcome [t \<mapsto> st] S (task_after env t st S2)"
    using d by (auto simp: outcome_def task_after_def same_all_def same_tasks_def s2 schedule_ll_task_update_start_def Let_def upd_task_def)
qed

lemma run_list_timer:
  assumes env: "timer_env env code"
  shows "ll_inv S (as @ ts) \<Longrightarrow> run_codes code (filter (is_pending S) ts) (td_rest (ll_rest S)) = (sts, q) \<Longrightarrow>
    \<exists>T. run_list env ts S = Some T \<and> td_rest (ll_rest T) = q \<and>
      ll_inv T (as @ filter (\<lambda>t. map_of (zip (filter (is_pending S) ts) sts) t \<noteq> Some SOF_TASK_STATE_COMPLETED) ts) \<and>
      outcome (map_of (zip (filter (is_pending S) ts) sts)) S T"
proof (induction ts arbitrary: as S sts)
  case Nil
  then show ?case by (simp add: outcome_def)
next
  case (Cons t ts)
  have nt: "t \<notin> set ts" using Cons.prems(1) by (auto simp: ll_inv_def is_list_def)
  show ?case
  proof (cases "is_pending S t")
    case False
    then have "map_of (zip (filter (is_pending S) (t # ts)) sts) t = None" using nt by (auto simp: map_of_eq_None_iff dest: set_zip_leftD)
    then show ?thesis using False Cons.IH [of S "as @ [t]" sts] Cons.prems by simp
  next
    case True
    obtain st q1 where c: "code t (td_rest (ll_rest S)) = (st, q1)" by (cases "code t (td_rest (ll_rest S))")
    obtain sts' where s: "sts = st # sts'" "run_codes code (filter (is_pending S) ts) q1 = (sts', q)"
      using Cons.prems(2) True c by (auto simp: Let_def split: prod.splits)
    define S3 where "S3 = task_after env t st (set_state t st ((set_state t SOF_TASK_STATE_RUNNING S)\<lparr>ll_rest := (ll_rest S)\<lparr>td_rest := q1\<rparr>\<rparr>))"
    note a = timer_task_after [where env = env, OF env Cons.prems(1) c, folded S3_def]
    have fl: "filter (is_pending S3) ts = filter (is_pending S) ts"
      using a(3) nt by (intro filter_cong) (auto simp: outcome_def dest!: spec split: if_splits)
    let ?v = "map_of (zip (filter (is_pending S) ts) sts')"
    have vt: "?v t = None" using nt by (auto simp: map_of_eq_None_iff dest: set_zip_leftD)
    have v: "map_of (zip (filter (is_pending S) (t # ts)) sts) = ?v(t \<mapsto> st)" using True s by simp
    obtain T where T: "run_list env ts S3 = Some T" "td_rest (ll_rest T) = q" "outcome ?v S3 T"
      "ll_inv T ((if st = SOF_TASK_STATE_COMPLETED then as else as @ [t]) @ filter (\<lambda>u. ?v u \<noteq> Some SOF_TASK_STATE_COMPLETED) ts)"
      using Cons.IH [of S3 "if st = SOF_TASK_STATE_COMPLETED then as else as @ [t]" sts'] a s fl by (auto split: if_splits)
    have r: "run_list env (t # ts) S = Some T"
      using True env c T(1) by (simp add: timer_env_def set_state_def upd_task_def S3_def)
    have "filter (\<lambda>u. (?v(t \<mapsto> st)) u \<noteq> Some SOF_TASK_STATE_COMPLETED) ts = filter (\<lambda>u. ?v u \<noteq> Some SOF_TASK_STATE_COMPLETED) ts"
      using nt by (intro filter_cong) auto
    then have i: "ll_inv T (as @ filter (\<lambda>u. (?v(t \<mapsto> st)) u \<noteq> Some SOF_TASK_STATE_COMPLETED) (t # ts))" using T(4) by (simp split: if_splits)
    have "outcome (?v(t \<mapsto> st)) S T" by (rule outcome_comp [OF a(3) T(3) vt])
    then show ?thesis unfolding v using r T(2) i by blast
  qed
qed

lemma client_reschedule_same:
  assumes "ll_inv S xs" shows "\<exists>T. schedule_ll_client_reschedule S = Some T \<and> same_all S T"
  using ll_inv_items [OF assms] same_all_refl [of S]
  by (auto simp: schedule_ll_client_reschedule_def Let_def same_all_def same_tasks_def upd_domain_def split: prod.split)

lemma outcome_same: "same_all T U \<Longrightarrow> outcome v S T \<Longrightarrow> outcome v S U"
  by (simp add: outcome_def same_all_def same_tasks_def cong: option.case_cong)

lemma outcome_from: "same_all S S' \<Longrightarrow> outcome v S' T \<Longrightarrow> outcome v S T"
  by (simp add: outcome_def same_all_def same_tasks_def cong: option.case_cong)

text \<open>The end of a run leaves the tasks alone.\<close>

lemma run_end_same:
  assumes env: "timer_env env code" and inv: "ll_inv S xs"
  defines "S6 \<equiv> (if new_target_tick (ll_domain S) < le_now env S then upd_domain (\<lambda>d. d\<lparr>new_target_tick := UINT64_MAX\<rparr>) S else S)"
  shows "\<exists>T. do { S7 \<leftarrow> schedule_ll_client_reschedule S6;
           let S8 = (if new_target_tick (ll_domain S7) < next_tick (ll_domain S7)
                     then domain_set env (new_target_tick (ll_domain S7)) S7 else S7);
           Some (if num_tasks S8 \<noteq> 0 then domain_enable env core S8 else S8) } = Some T \<and> same_all S T"
proof -
  have 6: "same_all S S6" by (auto simp: S6_def same_all_def same_tasks_def upd_domain_def)
  then have "ll_inv S6 xs" using inv ll_inv_same by (auto simp: same_all_def)
  then obtain S7 where 7: "schedule_ll_client_reschedule S6 = Some S7" "same_all S6 S7" using client_reschedule_same by blast
  define S8 where "S8 = (if new_target_tick (ll_domain S7) < next_tick (ll_domain S7)
    then domain_set env (new_target_tick (ll_domain S7)) S7 else S7)"
  have 8: "same_all S7 S8" by (simp add: S8_def timer_same_all(1) [OF env] same_all_refl)
  have 9: "same_all S8 (if num_tasks S8 \<noteq> 0 then domain_enable env core S8 else S8)"
    by (simp add: timer_same_all(3) [OF env] same_all_refl)
  have "same_all S (if num_tasks S8 \<noteq> 0 then domain_enable env core S8 else S8)"
    using same_all_trans [OF same_all_trans [OF same_all_trans [OF 6 7(2)] 8] 9] .
  then show ?thesis unfolding 7(1) bind.bind_lunit Let_def S8_def [symmetric] by blast
qed

lemma due_same: "same_all S T \<Longrightarrow> due T t = due S t"
  by (simp add: due_def same_all_def same_tasks_def)

lemma tick:
  assumes env: "timer_env env code" and inv: "ll_inv S xs"
    and st: "\<forall>t\<in>set xs. tk_state (ll_task S t) \<in> {SOF_TASK_STATE_QUEUED, SOF_TASK_STATE_RESCHEDULE}"
    and codes: "run_codes code (filter (due S) xs) (td_rest (ll_rest S)) = (sts, q)"
  shows "\<exists>T. schedule_ll_tasks_run env S = Some T \<and> td_rest (ll_rest T) = q \<and>
    ll_inv T (filter (\<lambda>t. map_of (zip (filter (due S) xs) sts) t \<noteq> Some SOF_TASK_STATE_COMPLETED) xs) \<and>
    outcome (map_of (zip (filter (due S) xs) sts)) (mark_due (filter (due S) xs) S) T"
proof -
  let ?core = "le_core env" and ?v = "map_of (zip (filter (due S) xs) sts)"
  define S1 where "S1 = domain_disable env ?core S"
  define S2 where "S2 = (if enabled_cores (ll_domain S1) = 0 then domain_clear env S1 else S1)"
  have 2: "same_all S S2"
    using same_all_trans [OF timer_same_all(4) [OF env] timer_same_all(2) [OF env]] timer_same_all(4) [OF env] by (auto simp: S2_def S1_def)
  have "filter (due S2) xs = filter (due S) xs" by (rule filter_cong) (simp_all add: due_same [OF 2])
  with 2 have i2: "ll_inv S2 xs" "\<forall>t\<in>set xs. tk_state (ll_task S2 t) \<in> {SOF_TASK_STATE_QUEUED, SOF_TASK_STATE_RESCHEDULE}"
    "distinct xs" "length xs < 2147483647" "filter (due S2) xs = filter (due S) xs"
    using inv st by (auto simp: same_all_def same_tasks_def ll_inv_def is_list_def)
  let ?d = "filter (due S) xs"
  define S3 where "S3 = mark_due ?d S2"
  have "fold (mark_pending env) xs (0, 0, S2) = (0, int (length ?d), S3)"
    using mark_fold [OF env i2(3,2), of 0] i2(4,5) by (simp add: S3_def)
  then have p: "schedule_ll_is_pending env S2 = Some (?d \<noteq> [], S3)"
    using ll_inv_items [OF i2(1)] by (simp add: schedule_ll_is_pending_def pending_passes.simps)
  have "filter (is_pending S3) xs = ?d"
    using i2(2) by (intro filter_cong) (auto simp: S3_def mark_due_def)
  then have i3: "ll_inv S3 xs" "td_rest (ll_rest S3) = td_rest (ll_rest S)" "filter (is_pending S3) xs = ?d"
    using i2(1) 2 by (simp_all add: S3_def mark_due_def ll_inv_def same_all_def)
  obtain hw core arg where ops: "le_domain env = timer_domain_ops hw core arg" using env by (auto simp: timer_env_def)
  obtain T where T: "run_list env xs S3 = Some T" "td_rest (ll_rest T) = q" "outcome ?v S3 T"
      "ll_inv T (filter (\<lambda>t. ?v t \<noteq> Some SOF_TASK_STATE_COMPLETED) xs)"
    using run_list_timer [OF env, of S3 "[]" xs, unfolded append_Nil i3(2,3), OF i3(1) codes] by blast
  have "schedule_ll_tasks_execute env S3 = run_list env xs S3"
  proof -
    have l: "is_list (ll_links S3) ll_head xs" using i3(1) by (simp add: ll_inv_def)
    then have h: "nx (ll_links S3 ll_head) = hd (xs @ [ll_head])" using seg_first by (auto simp: is_list_def)
    have "ll_links V = ll_links W" if "le_run env t W = Some (st, V)" for t W st V
      using that env by (auto simp: timer_env_def split: prod.splits)
    then show ?thesis
      using timer.execute_run_list [OF ops, of S3 "[]" xs] l unfolding schedule_ll_tasks_execute_def h append_Nil by blast
  qed
  moreover have "?d = [] \<Longrightarrow> T = S3"
  proof -
    have "(\<forall>t\<in>set ts. \<not> is_pending S3 t) \<Longrightarrow> run_list env ts S3 = Some S3" for ts by (induction ts) auto
    then show "?d = [] \<Longrightarrow> T = S3" using T(1) i3(3) by (auto simp: filter_empty_conv)
  qed
  ultimately have x: "(if ?d \<noteq> [] then schedule_ll_tasks_execute env S3 else Some S3) = Some T" using T(1) by auto
  have po: "le_post_run env T = T" using env by (simp add: timer_env_def)
  obtain U where U: "do { S7 \<leftarrow> schedule_ll_client_reschedule (if new_target_tick (ll_domain T) < le_now env T
             then upd_domain (\<lambda>d. d\<lparr>new_target_tick := UINT64_MAX\<rparr>) T else T);
           let S8 = (if new_target_tick (ll_domain S7) < next_tick (ll_domain S7)
                     then domain_set env (new_target_tick (ll_domain S7)) S7 else S7);
           Some (if num_tasks S8 \<noteq> 0 then domain_enable env ?core S8 else S8) } = Some U" "same_all T U"
    using run_end_same [OF env T(4)] by blast
  have "schedule_ll_tasks_run env S = Some U"
    unfolding schedule_ll_tasks_run_def Let_def S1_def [symmetric] S2_def [symmetric]
    by (simp only: p bind.bind_lunit prod.case x po U(1) [unfolded Let_def])
  moreover have "same_all (mark_due ?d S) S3" using 2 by (auto simp: S3_def mark_due_def same_all_def same_tasks_def)
  then have "outcome ?v (mark_due ?d S) U" using outcome_from outcome_same [OF U(2) T(3)] by blast
  moreover have "ll_inv U (filter (\<lambda>t. ?v t \<noteq> Some SOF_TASK_STATE_COMPLETED) xs)" "td_rest (ll_rest U) = q"
    using U(2) T ll_inv_same by (auto simp: same_all_def)
  ultimately show ?thesis by blast
qed

section \<open>Properties\<close>

text \<open>A timer domain with two tasks, 16 of high and 24 of lower priority; task 24 completes at once.\<close>

definition demo_code :: "addr \<Rightarrow> addr list \<Rightarrow> task_state \<times> addr list" where
  "demo_code t q = (if t = 24 then SOF_TASK_STATE_COMPLETED else SOF_TASK_STATE_RESCHEDULE, q @ [t])"

definition demo_ll_env :: "addr list timer_domain ll_env" where
  "demo_ll_env = \<lparr>le_plat = demo_plat, le_core = 0, le_now = (\<lambda>S. td_now (ll_rest S)),
     le_domain = timer_domain_ops \<lparr>timer_register = 0, platform_timer_set = (\<lambda>t. t)\<rparr> 0 8,
     le_run = (\<lambda>t S. let (st, q) = demo_code t (td_rest (ll_rest S)) in Some (st, S\<lparr>ll_rest := (ll_rest S)\<lparr>td_rest := q\<rparr>\<rparr>)),
     le_post_run = (\<lambda>S. S), le_sizeof_pdata = 16, clock_ms_to_ticks = (\<lambda>c ms. 38400 * ms)\<rparr>"

definition demo_task :: "int \<Rightarrow> int \<Rightarrow> task" where
  "demo_task prio start = \<lparr>tk_start = start, tk_type = SOF_SCHEDULE_LL_TIMER, tk_priority = prio, tk_core = 0, tk_flags = 0,
     tk_state = SOF_TASK_STATE_QUEUED, tk_data = 0, tk_priv = 64\<rparr>"

definition demo_ll :: "addr list timer_domain ll" where
  "demo_ll = \<lparr>ll_links = list_item_append (list_item_append (list_init (\<lambda>_. \<lparr>nx = 0, pv = 0\<rparr>) ll_head) 16 ll_head) 24 ll_head,
     ll_task = (\<lambda>t. if t = 24 then demo_task 4 1000 else if t = 32 then demo_task 2 0 else demo_task 0 500),
     ll_pdata = (\<lambda>_. \<lparr>lp_period = 1000, lp_ratio = 0, lp_skip_cnt = 0\<rparr>), is_registrable = (\<lambda>_. False), num_tasks = 2,
     ll_domain = domain_init (\<lambda>c ms. 38400 * ms) SOF_SCHEDULE_LL_TIMER 0 False, ll_mm = demo_mm,
     ll_rest = \<lparr>td_arg = (\<lambda>_. 0), td_now = 2000, td_rest = []\<rparr>\<rparr>"

lemma demo_ll_inv: "ll_inv demo_ll [16, 24]"
proof -
  have "is_list (ll_links demo_ll) ll_head (([] @ [16]) @ [24])"
    unfolding demo_ll_def by (simp, intro append_list [of _ _ "[] @ [16]", simplified] append_list [of _ _ "[]", simplified] list_init_list)
      (simp_all add: ll_head_def)
  then show ?thesis by (simp add: ll_inv_def demo_ll_def)
qed

lemma demo_timer_env: "timer_env demo_ll_env demo_code"
  by (auto simp: timer_env_def demo_ll_env_def)

text \<open>
  C8: scheduling a task in a low latency scheduler, on any domain that minds its own business, keeps
  the task list ordered by priority and first come first served within a priority: the new task
  comes last among the tasks of its priority and the order of the others does not change. The number
  of tasks stays the length of the list. If the domain refuses the task the list is what it was, and
  cancelling the task afterwards gives the old list back.
\<close>

theorem ll_schedule_by_priority:
  assumes "ll_domain_frame (le_domain env)" "ll_inv S xs" "length xs < 2147483646" "t \<notin> set xs" "t \<noteq> 0" "t \<noteq> ll_head"
    "\<not> full_sync (ll_domain S)" "period = 0 \<or> period_ok period S" "sorted (map (\<lambda>c. tk_priority (ll_task S c)) xs)"
  shows "\<exists>ret T ys. schedule_ll_task env t start period S = Some (ret, T) \<and> ll_inv T ys \<and>
    sorted (map (\<lambda>c. tk_priority (ll_task T c)) ys) \<and>
    (if ret < 0 then ys = xs
     else tk_state (ll_task T t) = SOF_TASK_STATE_QUEUED \<and>
       (\<forall>p. filter (\<lambda>c. tk_priority (ll_task S c) = p) ys =
            filter (\<lambda>c. tk_priority (ll_task S c) = p) xs @ (if p = tk_priority (ll_task S t) then [t] else [])) \<and>
       (\<exists>U. schedule_ll_task_cancel env t T = Some (0, U) \<and> ll_inv U xs))"
proof -
  let ?p = "\<lambda>c. tk_priority (ll_task S c)"
  obtain ret T where T: "schedule_ll_task env t start period S = Some (ret, T)" "\<forall>u. tk_priority (ll_task T u) = ?p u"
    "if ret < 0 then ll_inv T xs else ll_inv T (place ?p t xs) \<and> tk_state (ll_task T t) = SOF_TASK_STATE_QUEUED"
    using ll_domain_frame.task_schedules [OF assms(1) refl assms(2-8)] by blast
  show ?thesis
  proof (cases "ret < 0")
    case True
    then show ?thesis using T assms(9) by auto
  next
    case False
    let ?P = "\<lambda>c. ?p c \<le> ?p t"
    have i: "ll_inv T (takeWhile ?P xs @ t # dropWhile ?P xs)" using T(3) False by (simp add: place_def)
    obtain U where "schedule_ll_task_cancel env t T = Some (0, U)" "ll_inv U xs"
      using ll_domain_frame.task_cancels [OF assms(1) refl i] by auto
    moreover have "filter (\<lambda>c. ?p c = p) (place ?p t xs) = filter (\<lambda>c. ?p c = p) xs @ (if p = ?p t then [t] else [])" for p
      using place_sorted(2) [OF assms(9)] by simp
    ultimately show ?thesis using T False place_sorted(1) [OF assms(9), of t] by auto
  qed
qed

theorem ll_schedule_by_priority_witness:
  "\<exists>ret T ys. schedule_ll_task demo_ll_env 32 0 1000 demo_ll = Some (ret, T) \<and> ll_inv T ys \<and>
     sorted (map (\<lambda>c. tk_priority (ll_task T c)) ys)"
proof -
  have f: "ll_domain_frame (le_domain demo_ll_env)" unfolding demo_ll_env_def by (simp add: timer.ll_domain_frame_axioms)
  have "period_ok 1000 demo_ll" "\<not> full_sync (ll_domain demo_ll)" "sorted (map (\<lambda>c. tk_priority (ll_task demo_ll c)) [16, 24])"
    by (simp_all add: period_ok_def demo_ll_def domain_init_def u64_def u32_def demo_task_def)
  then show ?thesis
    using ll_schedule_by_priority [OF f demo_ll_inv, of 32 1000 0] by (auto simp: ll_head_def)
qed



end
