(* ===== verification/Sof_EDF.thy ===== *)
theory Sof_EDF
  imports Sof_LL
begin

text \<open>
  The earliest deadline first scheduler of \<open>src/schedule/edf_schedule.c\<close> and the selection of a
  scheduler by task type in \<open>schedule.h\<close> and \<open>schedule.c\<close>.
\<close>

section \<open>State\<close>

definition SOF_TASK_DEADLINE_IDLE :: int where "SOF_TASK_DEADLINE_IDLE = 18446744073709551615"
definition SOF_TASK_DEADLINE_NOW :: int where "SOF_TASK_DEADLINE_NOW = 0"

text \<open>
  The tasks, the contexts kept in their private data, the context that runs, whether the scheduler
  interrupt has been raised, and the state of the code of the tasks.
\<close>

record 'q edf =
  ed_links :: links
  ed_task :: "addr \<Rightarrow> task"
  ed_ctx :: "addr \<Rightarrow> addr"
  ed_current :: addr
  ed_irq :: bool
  ed_mm :: mm
  ed_rest :: 'q

text \<open>
  The deadline and the completion handler of a task, the allocation of a context with the number of
  its error, and the initialisation of a context, which may fail.
\<close>

record 'q edf_env =
  ee_plat :: plat
  ee_deadline :: "addr \<Rightarrow> 'q edf \<Rightarrow> int"
  ee_complete :: "addr \<Rightarrow> ('q edf \<Rightarrow> 'q edf) option"
  task_context_alloc :: "'q edf \<Rightarrow> int \<times> addr \<times> 'q edf"
  task_context_init :: "addr \<Rightarrow> addr \<Rightarrow> 'q edf \<Rightarrow> int \<times> 'q edf"
  task_context_free :: "addr \<Rightarrow> 'q edf \<Rightarrow> 'q edf"
  ee_sizeof_pdata :: int

definition edf_head :: addr where
  "edf_head = - 1"

definition ed_upd :: "addr \<Rightarrow> (task \<Rightarrow> task) \<Rightarrow> 'q edf \<Rightarrow> 'q edf" where
  "ed_upd t f S = S\<lparr>ed_task := (ed_task S)(t := f (ed_task S t))\<rparr>"

definition ed_state :: "'q edf \<Rightarrow> addr \<Rightarrow> task_state" where
  "ed_state S t = tk_state (ed_task S t)"

definition ed_items :: "'q edf \<Rightarrow> addr list option" where
  "ed_items S = list_for_item (ed_links S) (nx (ed_links S edf_head)) edf_head"

definition eligible :: "task_state \<Rightarrow> bool" where
  "eligible st \<longleftrightarrow> st = SOF_TASK_STATE_QUEUED \<or> st = SOF_TASK_STATE_RUNNING"

section \<open>Operations\<close>

definition schedule_edf :: "'q edf \<Rightarrow> 'q edf" where
  "schedule_edf S = S\<lparr>ed_irq := True\<rparr>"

definition schedule_edf_task_running :: "addr \<Rightarrow> 'q edf \<Rightarrow> int \<times> 'q edf" where
  "schedule_edf_task_running t S =
     (0, ed_upd t (\<lambda>k. k\<lparr>tk_state := SOF_TASK_STATE_RUNNING\<rparr>) (S\<lparr>ed_current := ed_ctx S (tk_priv (ed_task S t))\<rparr>))"

text \<open>The search for the next task: the best deadline so far and its task, 0 for none.\<close>

fun edf_next :: "'q edf_env \<Rightarrow> 'q edf \<Rightarrow> addr list \<Rightarrow> int \<Rightarrow> addr \<Rightarrow> addr" where
  "edf_next env S [] deadline_next task_next = task_next"
| "edf_next env S (t # ts) deadline_next task_next =
     (if \<not> eligible (ed_state S t) then edf_next env S ts deadline_next task_next
      else
        let deadline = ee_deadline env t S
        in if deadline = SOF_TASK_DEADLINE_NOW then t
           else if deadline \<le> deadline_next then edf_next env S ts deadline t
           else edf_next env S ts deadline_next task_next)"

definition edf_scheduler_run :: "'q edf_env \<Rightarrow> 'q edf \<Rightarrow> 'q edf option" where
  "edf_scheduler_run env S =
     do { xs \<leftarrow> ed_items S;
          let t = edf_next env S xs SOF_TASK_DEADLINE_IDLE 0;
          Some (if t \<noteq> 0 then snd (schedule_edf_task_running t S) else S) }"

definition schedule_edf_task :: "addr \<Rightarrow> 'q edf \<Rightarrow> int \<times> 'q edf" where
  "schedule_edf_task t S =
     (if eligible (ed_state S t) then (- EALREADY, S)
      else (0, schedule_edf (ed_upd t (\<lambda>k. k\<lparr>tk_state := SOF_TASK_STATE_QUEUED\<rparr>)
                 (S\<lparr>ed_links := list_item_append (ed_links S) t edf_head\<rparr>))))"

definition schedule_edf_task_complete :: "'q edf_env \<Rightarrow> addr \<Rightarrow> 'q edf \<Rightarrow> int \<times> 'q edf" where
  "schedule_edf_task_complete env t S =
     (let S1 = (case ee_complete env t of Some f \<Rightarrow> f S | None \<Rightarrow> S);
          S2 = ed_upd t (\<lambda>k. k\<lparr>tk_state := SOF_TASK_STATE_COMPLETED\<rparr>) S1
      in (0, S2\<lparr>ed_links := list_item_del (ed_links S2) t\<rparr>))"

definition schedule_edf_task_cancel :: "addr \<Rightarrow> 'q edf \<Rightarrow> int \<times> 'q edf" where
  "schedule_edf_task_cancel t S =
     (if ed_state S t = SOF_TASK_STATE_QUEUED then
        (let S1 = ed_upd t (\<lambda>k. k\<lparr>tk_state := SOF_TASK_STATE_CANCEL\<rparr>) S
         in (0, S1\<lparr>ed_links := list_item_del (ed_links S1) t\<rparr>))
      else (0, S))"

definition schedule_edf_task_free :: "'q edf_env \<Rightarrow> addr \<Rightarrow> 'q edf \<Rightarrow> (int \<times> 'q edf) option" where
  "schedule_edf_task_free env t S =
     (let pd = tk_priv (ed_task S t);
          S1 = task_context_free env (ed_ctx S pd) (ed_upd t (\<lambda>k. k\<lparr>tk_state := SOF_TASK_STATE_FREE\<rparr>) S);
          S2 = S1\<lparr>ed_ctx := (ed_ctx S1)(pd := 0)\<rparr>
      in do { mm \<leftarrow> rfree (ee_plat env) (ed_mm S2) pd;
              Some (0, ed_upd t (\<lambda>k. k\<lparr>tk_priv := 0\<rparr>) (S2\<lparr>ed_mm := mm\<rparr>)) })"

text \<open>\<open>schedule_task_init\<close> for an EDF task, with the constants its caller passes.\<close>

definition edf_init_task :: "addr \<Rightarrow> addr \<Rightarrow> int \<Rightarrow> int \<Rightarrow> 'q edf \<Rightarrow> 'q edf" where
  "edf_init_task t data core flags =
     ed_upd t (\<lambda>k. k\<lparr>tk_type := SOF_SCHEDULE_EDF, tk_priority := 0, tk_core := core, tk_flags := u16 flags,
                     tk_state := SOF_TASK_STATE_INIT, tk_data := data\<rparr>)"

text \<open>The error exit frees the context, if there is one, and the private data.\<close>

definition edf_init_error :: "'q edf_env \<Rightarrow> addr \<Rightarrow> addr \<Rightarrow> 'q edf \<Rightarrow> (int \<times> 'q edf) option" where
  "edf_init_error env t pd S =
     (let S1 = (if ed_ctx S pd \<noteq> 0 then task_context_free env (ed_ctx S pd) S else S)
      in do { mm \<leftarrow> rfree (ee_plat env) (ed_mm S1) pd;
              Some (- EINVAL, ed_upd t (\<lambda>k. k\<lparr>tk_priv := 0\<rparr>) (S1\<lparr>ed_mm := mm\<rparr>)) })"

definition schedule_task_init_edf :: "'q edf_env \<Rightarrow> addr \<Rightarrow> addr \<Rightarrow> int \<Rightarrow> int \<Rightarrow> 'q edf \<Rightarrow> (int \<times> 'q edf) option" where
  "schedule_task_init_edf env t data core flags S =
     (let S1 = edf_init_task t data core flags S
      in if tk_priv (ed_task S1 t) \<noteq> 0 then Some (- EEXIST, S1)
         else do {
           (pd, mm) \<leftarrow> rmalloc (ee_plat env) (ed_mm S1) SOF_MEM_ZONE_SYS_RUNTIME SOF_MEM_CAPS_RAM (ee_sizeof_pdata env);
           let S2 = S1\<lparr>ed_mm := mm\<rparr>;
           if pd = 0 then Some (- ENOMEM, S2)
           else do {
             let S3 = ed_upd t (\<lambda>k. k\<lparr>tk_priv := pd\<rparr>) (S2\<lparr>ed_ctx := (ed_ctx S2)(pd := 0)\<rparr>);
             let (ret, ctx, S4) = task_context_alloc env S3;
             let S5 = S4\<lparr>ed_ctx := (ed_ctx S4)(pd := ctx)\<rparr>;
             if ret < 0 then edf_init_error env t pd S5
             else (let (ret, S6) = task_context_init env ctx t S5
                   in if ret < 0 then edf_init_error env t pd S6 else Some (0, S6)) } })"

section \<open>Selection of a scheduler\<close>

text \<open>The operations of a scheduler over a state of type \<open>'s\<close>; an optional operation may be absent.\<close>

record 's scheduler_ops =
  so_schedule_task :: "(addr \<Rightarrow> int \<Rightarrow> int \<Rightarrow> 's \<Rightarrow> int \<times> 's) option"
  so_schedule_task_before :: "(addr \<Rightarrow> int \<Rightarrow> int \<Rightarrow> addr \<Rightarrow> 's \<Rightarrow> int \<times> 's) option"
  so_schedule_task_after :: "(addr \<Rightarrow> int \<Rightarrow> int \<Rightarrow> addr \<Rightarrow> 's \<Rightarrow> int \<times> 's) option"
  so_schedule_task_running :: "(addr \<Rightarrow> 's \<Rightarrow> int \<times> 's) option"
  so_schedule_task_complete :: "(addr \<Rightarrow> 's \<Rightarrow> int \<times> 's) option"
  so_reschedule_task :: "(addr \<Rightarrow> int \<Rightarrow> 's \<Rightarrow> int \<times> 's) option"
  so_schedule_task_cancel :: "(addr \<Rightarrow> 's \<Rightarrow> int \<times> 's) option"
  so_schedule_task_free :: "(addr \<Rightarrow> 's \<Rightarrow> int \<times> 's) option"
  so_scheduler_free :: "(int \<Rightarrow> 's \<Rightarrow> 's) option"
  so_scheduler_restore :: "('s \<Rightarrow> int \<times> 's) option"

text \<open>The registered schedulers in the order of their registration, each with its type.\<close>

type_synonym 's schedulers = "(int \<times> 's scheduler_ops) list"

definition scheduler_init :: "int \<Rightarrow> 's scheduler_ops \<Rightarrow> 's schedulers \<Rightarrow> 's schedulers" where
  "scheduler_init typ ops schs =
     (if so_schedule_task ops = None \<or> so_schedule_task_cancel ops = None \<or> so_schedule_task_free ops = None then schs
      else schs @ [(typ, ops)])"

definition for_type :: "'s schedulers \<Rightarrow> int \<Rightarrow> ('s scheduler_ops \<Rightarrow> 's \<Rightarrow> int \<times> 's) \<Rightarrow> 's \<Rightarrow> int \<times> 's" where
  "for_type schs typ f s = (case find (\<lambda>(ty, _). typ = ty) schs of Some (_, ops) \<Rightarrow> f ops s | None \<Rightarrow> (- ENODEV, s))"

definition optional_op :: "('s \<Rightarrow> int \<times> 's) option \<Rightarrow> 's \<Rightarrow> int \<times> 's" where
  "optional_op f s = (case f of Some g \<Rightarrow> g s | None \<Rightarrow> (0, s))"

definition sch_schedule_task :: "'s schedulers \<Rightarrow> ('s \<Rightarrow> addr \<Rightarrow> int) \<Rightarrow> addr \<Rightarrow> int \<Rightarrow> int \<Rightarrow> 's \<Rightarrow> int \<times> 's" where
  "sch_schedule_task schs ty t start period s =
     (if t = 0 then (- EINVAL, s)
      else for_type schs (ty s t) (\<lambda>ops. the (so_schedule_task ops) t start period) s)"

definition sch_schedule_task_before ::
    "'s schedulers \<Rightarrow> ('s \<Rightarrow> addr \<Rightarrow> int) \<Rightarrow> addr \<Rightarrow> int \<Rightarrow> int \<Rightarrow> addr \<Rightarrow> 's \<Rightarrow> int \<times> 's" where
  "sch_schedule_task_before schs ty t start period before s =
     (if t = 0 \<or> before = 0 then (- EINVAL, s)
      else for_type schs (ty s t) (\<lambda>ops.
        case so_schedule_task_before ops of
          Some f \<Rightarrow> f t start period before | None \<Rightarrow> the (so_schedule_task ops) t start period) s)"

definition sch_schedule_task_after ::
    "'s schedulers \<Rightarrow> ('s \<Rightarrow> addr \<Rightarrow> int) \<Rightarrow> addr \<Rightarrow> int \<Rightarrow> int \<Rightarrow> addr \<Rightarrow> 's \<Rightarrow> int \<times> 's" where
  "sch_schedule_task_after schs ty t start period after s =
     (if t = 0 \<or> after = 0 then (- EINVAL, s)
      else for_type schs (ty s t) (\<lambda>ops.
        case so_schedule_task_after ops of
          Some f \<Rightarrow> f t start period after | None \<Rightarrow> the (so_schedule_task ops) t start period) s)"

definition sch_schedule_task_running :: "'s schedulers \<Rightarrow> ('s \<Rightarrow> addr \<Rightarrow> int) \<Rightarrow> addr \<Rightarrow> 's \<Rightarrow> int \<times> 's" where
  "sch_schedule_task_running schs ty t s =
     for_type schs (ty s t) (\<lambda>ops. optional_op (map_option (\<lambda>f. f t) (so_schedule_task_running ops))) s"

definition sch_schedule_task_complete :: "'s schedulers \<Rightarrow> ('s \<Rightarrow> addr \<Rightarrow> int) \<Rightarrow> addr \<Rightarrow> 's \<Rightarrow> int \<times> 's" where
  "sch_schedule_task_complete schs ty t s =
     for_type schs (ty s t) (\<lambda>ops. optional_op (map_option (\<lambda>f. f t) (so_schedule_task_complete ops))) s"

definition sch_reschedule_task :: "'s schedulers \<Rightarrow> ('s \<Rightarrow> addr \<Rightarrow> int) \<Rightarrow> addr \<Rightarrow> int \<Rightarrow> 's \<Rightarrow> int \<times> 's" where
  "sch_reschedule_task schs ty t start s =
     for_type schs (ty s t) (\<lambda>ops. optional_op (map_option (\<lambda>f. f t start) (so_reschedule_task ops))) s"

definition sch_schedule_task_cancel :: "'s schedulers \<Rightarrow> ('s \<Rightarrow> addr \<Rightarrow> int) \<Rightarrow> addr \<Rightarrow> 's \<Rightarrow> int \<times> 's" where
  "sch_schedule_task_cancel schs ty t s = for_type schs (ty s t) (\<lambda>ops. the (so_schedule_task_cancel ops) t) s"

definition sch_schedule_task_free :: "'s schedulers \<Rightarrow> ('s \<Rightarrow> addr \<Rightarrow> int) \<Rightarrow> addr \<Rightarrow> 's \<Rightarrow> int \<times> 's" where
  "sch_schedule_task_free schs ty t s = for_type schs (ty s t) (\<lambda>ops. the (so_schedule_task_free ops) t) s"

definition schedule_free :: "'s schedulers \<Rightarrow> int \<Rightarrow> 's \<Rightarrow> 's" where
  "schedule_free schs flags = fold (\<lambda>(_, ops) s. case so_scheduler_free ops of Some f \<Rightarrow> f flags s | None \<Rightarrow> s) schs"

text \<open>Only the first scheduler that can be restored is: the loop returns after it.\<close>

fun schedulers_restore :: "'s schedulers \<Rightarrow> 's \<Rightarrow> int \<times> 's" where
  "schedulers_restore [] s = (0, s)"
| "schedulers_restore ((_, ops) # schs) s =
     (case so_scheduler_restore ops of Some f \<Rightarrow> f s | None \<Rightarrow> schedulers_restore schs s)"

section \<open>The queue\<close>

text \<open>A task is linked into the queue exactly when it is queued or running.\<close>

definition edf_inv :: "'q edf \<Rightarrow> addr list \<Rightarrow> bool" where
  "edf_inv S xs \<longleftrightarrow> is_list (ed_links S) edf_head xs \<and> 0 \<notin> set xs \<and>
     (\<forall>t. t \<noteq> 0 \<longrightarrow> t \<noteq> edf_head \<longrightarrow> (t \<in> set xs \<longleftrightarrow> eligible (ed_state S t)))"

lemma edf_inv_items: "edf_inv S xs \<Longrightarrow> ed_items S = Some xs"
  unfolding edf_inv_def ed_items_def using for_item_list by blast

lemma edf_inv_eligible: "edf_inv S xs \<Longrightarrow> t \<in> set xs \<Longrightarrow> eligible (ed_state S t) \<and> t \<noteq> 0 \<and> t \<noteq> edf_head"
  unfolding edf_inv_def is_list_def by (metis distinct.simps(2))

lemma edf_del:
  assumes "edf_inv S xs" "t \<in> set xs" "\<not> eligible st"
  shows "edf_inv ((ed_upd t (\<lambda>k. k\<lparr>tk_state := st\<rparr>) S)\<lparr>ed_links := list_item_del (ed_links S) t\<rparr>) (remove1 t xs)"
proof -
  obtain as bs where x: "xs = as @ t # bs" "t \<notin> set as" using assms(2) split_list_first by fastforce
  have d: "distinct xs" using assms(1) by (auto simp: edf_inv_def is_list_def)
  have "is_list (list_item_del (ed_links S) t) edf_head (as @ bs)" using assms(1) x by (auto simp: edf_inv_def intro: del_list)
  moreover have "remove1 t xs = as @ bs" using x by (simp add: remove1_append)
  ultimately show ?thesis using assms d x by (auto simp: edf_inv_def ed_state_def ed_upd_def)
qed

lemma edf_next_min:
  assumes "\<forall>t\<in>set xs. 0 \<le> ee_deadline env t S" "t = edf_next env S xs dn tn"
  shows "(t = tn \<and> (\<forall>u\<in>set xs. eligible (ed_state S u) \<longrightarrow> dn < ee_deadline env u S)) \<or>
    (t \<in> set xs \<and> eligible (ed_state S t) \<and> (ee_deadline env t S \<le> dn \<or> ee_deadline env t S = 0) \<and>
     (\<forall>u\<in>set xs. eligible (ed_state S u) \<longrightarrow> ee_deadline env t S \<le> ee_deadline env u S))"
  using assms
proof (induction xs arbitrary: dn tn)
  case (Cons x xs)
  consider (skip) "\<not> eligible (ed_state S x)" | (now) "eligible (ed_state S x)" "ee_deadline env x S = 0"
    | (better) "eligible (ed_state S x)" "ee_deadline env x S \<noteq> 0" "ee_deadline env x S \<le> dn"
    | (worse) "eligible (ed_state S x)" "ee_deadline env x S \<noteq> 0" "dn < ee_deadline env x S" by linarith
  then show ?case
  proof cases
    case skip
    then show ?thesis using Cons.IH [of dn tn] Cons.prems by auto
  next
    case now
    then show ?thesis using Cons.prems by (auto simp: SOF_TASK_DEADLINE_NOW_def)
  next
    case better
    then show ?thesis using Cons.IH [of "ee_deadline env x S" x] Cons.prems by (auto simp: Let_def SOF_TASK_DEADLINE_NOW_def)
  next
    case worse
    then show ?thesis using Cons.IH [of dn tn] Cons.prems by (auto simp: Let_def SOF_TASK_DEADLINE_NOW_def)
  qed
qed auto

section \<open>Properties\<close>


definition demo_edf :: "unit edf" where
  "demo_edf = \<lparr>ed_links = list_item_append (list_item_append (list_init (\<lambda>_. \<lparr>nx = 0, pv = 0\<rparr>) edf_head) 16 edf_head) 24 edf_head,
     ed_task = (\<lambda>t. \<lparr>tk_start = 0, tk_type = SOF_SCHEDULE_EDF, tk_priority = 0, tk_core = 0, tk_flags = 0,
       tk_state = (if t = 16 then SOF_TASK_STATE_RUNNING else if t = 24 then SOF_TASK_STATE_QUEUED else SOF_TASK_STATE_INIT),
       tk_data = 0, tk_priv = 2 * t\<rparr>),
     ed_ctx = (\<lambda>p. p + 4096), ed_current = 0, ed_irq = False, ed_mm = demo_mm, ed_rest = ()\<rparr>"

definition demo_edf_env :: "unit edf_env" where
  "demo_edf_env = \<lparr>ee_plat = demo_plat, ee_deadline = (\<lambda>t S. if t = 16 then 7000 else 3000), ee_complete = (\<lambda>_. None),
     task_context_alloc = (\<lambda>S. (0, 4096, S)), task_context_init = (\<lambda>c t S. (0, S)), task_context_free = (\<lambda>c S. S), ee_sizeof_pdata = 4\<rparr>"


end
