(* ===== verification/Spec2Isabelle.thy ===== *)
theory Spec2Isabelle
  imports Sof_EQ_FIR Sof_Copy Sof_Buffer Sof_List Sof_Numbers Sof_Blob Sof_Complete Sof_Xrun Sof_LL_Tasks Sof_EDF
begin

text \<open>
  Sound Open Firmware: a verification library for the audio core of the firmware.

  \<^bold>\<open>The program and its parts.\<close> The firmware runs audio pipelines on a DSP. A pipeline is a graph of
  components connected by buffers; each buffer is a ring of samples. The host sends commands that
  connect, configure and start a pipeline; a scheduler calls the task of the pipeline once a period,
  the task walks over the graph and every component copies and processes the samples between its
  buffers. Buffers, components and configuration blobs are taken from a block allocator.

  \<^bold>\<open>Conventions of the model.\<close>
  \<^item> C integers are \<^typ>\<open>int\<close>; every conversion and every operation that can leave its type is
    wrapped explicitly by \<open>u8\<close>, \<open>u16\<close>, \<open>u32\<close>, \<open>u64\<close>, \<open>s16\<close>, \<open>s32\<close>, \<open>s64\<close> of \<open>Sof_Prelude\<close>.
  \<^item> A pointer is an address, 0 is NULL; memory is a function from addresses to byte values, objects
    with structure are records in a store indexed by their address.
  \<^item> A function of the source that may panic, assert, run into undefined behaviour or loop for ever
    returns an option; None is the case in which control does not come back. Error codes stay integers.
  \<^item> Loops that may not end are \<open>partial_function (option)\<close>; that they return is part of the theorems.
  \<^item> Platform functions, the operations of component drivers, the code of tasks and the tick source
    are parameters (the records \<open>plat\<close>, \<open>fw_env\<close>, \<open>ll_env\<close>, \<open>domain_ops\<close>), with the behaviour the
    code relies on as named hypotheses.

  \<^bold>\<open>Theories.\<close>
  \<^item> \<open>Sof_Prelude\<close>: machine integers, error numbers, assertions, alignment, byte memory.
  \<^item> \<open>Sof_Format\<close>: sample formats, saturation and fractional multiplication
    (\<open>include/sof/audio/format.h\<close>); the multiplications are exact products, rounded and clamped.
  \<^item> \<open>Sof_Fifo\<close>, \<open>Sof_Stream\<close>, \<open>Sof_Copy\<close>: the ring buffer of \<open>audio_stream.h\<close> and the copy loops of
    \<open>audio/component.c\<close>. The invariant \<open>stream_wf\<close> is kept by producing and consuming, and a copy is a
    transfer between two queues of bytes.
  \<^item> \<open>Sof_String\<close>: \<open>lib/lib.c\<close> (memset by words, comparison of strings, checked copies).
  \<^item> \<open>Sof_Alloc\<close>, \<open>Sof_Extents\<close>, \<open>Sof_Alloc_Map\<close>, \<open>Sof_Alloc_Run\<close>, \<open>Sof_Alloc_Heap\<close>, \<open>Sof_Alloc_Mm\<close>: the
    allocator of \<open>lib/alloc.c\<close> from block maps over heaps to the memory map. Allocations are disjoint,
    a search finds a run of blocks when there is one, and freeing undoes an allocation.
  \<^item> \<open>Sof_Buffer\<close>: component buffers (\<open>audio/buffer.c\<close>) over streams and the allocator.
  \<^item> \<open>Sof_List\<close>: the doubly linked lists of \<open>list.h\<close> as a refinement of HOL lists.
  \<^item> \<open>Sof_Numbers\<close>: \<open>math/numbers.c\<close> (gcd, ceiling division, normalisation, CRC, vector searches).
  \<^item> \<open>Sof_Component\<close>, \<open>Sof_Blob\<close>: component state machine, periods and copy limits; the blob handler
    through which the host writes and reads configurations in parts, with its round trip.
  \<^item> \<open>Sof_Firmware\<close>, \<open>Sof_Pipeline\<close>: the state \<open>'p fw\<close> of components, buffers and pipelines and all
    operations of \<open>audio/pipeline/pipeline-{graph,params,schedule,stream,xrun}.c\<close>.
  \<^item> \<open>Sof_Walk\<close>: the contract \<open>graph_walk\<close> of a recursive walk over the graph, interpreted for each of
    the walks; \<open>Sof_Pipeline_Ops\<close> proves that the operations return on every graph, cycles included.
  \<^item> \<open>Sof_Complete\<close>, \<open>Sof_Task\<close>, \<open>Sof_Xrun\<close>: what completing a pipeline assigns and to whom; every command
    given to the pipeline task is answered, by one pipeline; an xrun is recorded once.
  \<^item> \<open>Sof_LL\<close>, \<open>Sof_LL_Tasks\<close>: the low latency scheduler (\<open>schedule/ll_schedule.c\<close>) over the interface of a
    domain, and the timer domain: order of the list, and which tasks a tick runs.
  \<^item> \<open>Sof_EDF\<close>: the deadline scheduler and the dispatch of \<open>schedule/schedule.c\<close>.
  \<^item> \<open>Sof_Sample\<close>: samples in byte memory and the chunk, channel and frame loops the audio components
    share. The locale \<open>channel_op\<close> is the contract of the computation on one sample; its theorem reduces
    the loops to running the computation over each channel alone.
  \<^item> \<open>Sof_FIR\<close>: the filter of \<open>math/fir_generic.c\<close> meets that contract and is a convolution in exact
    arithmetic: with at most 256 taps the 64-bit accumulator cannot overflow.
  \<^item> \<open>Sof_EQ\<close>, \<open>Sof_EQ_FIR\<close>: the equaliser component of \<open>audio/eq_fir\<close>: parsing of the blob, set-up of the
    filters, processing of the three formats and the operations of the driver.

  \<^bold>\<open>Interfaces.\<close> Locales state what one part relies on of another: the counters of a ring buffer
  (\<open>Sof_Fifo\<close>, interpreted for buffers), the walk over a graph and what it keeps, the frame of a
  scheduling domain (interpreted for the timer domain), and the computation on a sample (interpreted
  for the FIR filter and for each of its formats).

  \<^bold>\<open>Bounds and fuel.\<close> The recursion of a walk over the graph has fuel; \<open>walk_fuel\<close> above the number of
  unmarked buffers is enough, because each level of the recursion marks one, and the theorems are
  about that amount. Other loops have no fuel. Hypotheses on sizes are those of the types of the
  source: buffers below 2 GiB, the 32-bit address space, 16-bit block counts.

  \<^bold>\<open>Not modelled.\<close> Drivers, platforms, DMA, interrupts and multi-core communication are hardware access.
  The HiFi variants of the routines are compiler intrinsics. Trace output, cache maintenance (recorded
  but without effect on the one memory of the model) and locks have no effect on one core. The IPC
  message layer, the library services on hardware, the codec adapters around closed libraries, and
  the audio components other than the FIR equaliser are not translated; the pipeline theories hold for
  every component that meets the contract of a driver.
\<close>

end
